(* ===== verification/Prelude.thy ===== *)
theory Prelude
  imports Main "HOL-Library.AList"
begin

text \<open>
  What every component shares: the exceptions of the program, coroutines (the meaning given to
  an \<open>async def\<close> body), how a coroutine runs, Python's \<open>try\<close> statements, and the contract
  between a call to an external service and the documented behaviour of that service.
\<close>

named_theorems coro_simps \<open>running coroutines\<close>
named_theorems world_simps \<open>reading and updating the state a component owns\<close>

section \<open>Exceptions\<close>

text \<open>
  The exceptions the program raises, catches or lets through. \<open>RedisError\<close>, \<open>DbError\<close> and
  \<open>TransportError\<close> stand for whatever the Redis client, SQLAlchemy and the WebSocket
  transport raise; \<open>CancelledError\<close> is the only one that is not an \<open>Exception\<close> in Python
  (it is a \<open>BaseException\<close>), so \<open>except Exception\<close> lets it pass.
\<close>

datatype exn =
    RedisError
  | DbError
  | TransportError
  | WebSocketDisconnect
  | ValidationError
  | ValueError
  | KeyError
  | IndexError
  | TypeError
  | AttributeError
  | JSONDecodeError
  | TimeoutError
  | InvalidTokenError
  | HTTPException nat string
  | HTTPStatusError nat
  | AssertionError
  | StatisticsError
  | CancelledError

definition is_Exception :: "exn \<Rightarrow> bool" where
  "is_Exception e \<longleftrightarrow> e \<noteq> CancelledError"

lemma is_Exception_simps [simp]:
  "is_Exception RedisError" "is_Exception DbError" "is_Exception TransportError"
  "is_Exception WebSocketDisconnect" "is_Exception ValidationError" "is_Exception ValueError"
  "is_Exception KeyError" "is_Exception IndexError" "is_Exception TypeError"
  "is_Exception AttributeError" "is_Exception JSONDecodeError" "is_Exception TimeoutError"
  "is_Exception InvalidTokenError" "is_Exception (HTTPException c d)" "is_Exception (HTTPStatusError c)"
  "is_Exception AssertionError" "is_Exception StatisticsError"
  "\<not> is_Exception CancelledError"
  by (simp_all add: is_Exception_def)

section \<open>Coroutines\<close>

text \<open>
  A coroutine over a state \<open>'s\<close> returns a value, raises, does something synchronous
  (\<open>Act\<close>: no other task can run before it), or awaits an external call (\<open>Await\<close>: the task
  is suspended, other tasks may run, then the call takes effect atomically and the coroutine
  goes on). The second argument of \<open>Await\<close> is what the coroutine becomes when
  \<open>CancelledError\<close> is thrown into it while it is suspended there.
\<close>

datatype ('s, 'a) coro =
    Return 'a
  | Raise exn
  | Act "'s \<Rightarrow> ('s, 'a) coro \<times> 's"
  | Await "'s \<Rightarrow> ('s, 'a) coro \<times> 's" "('s, 'a) coro"

text \<open>Induction over what a coroutine may still do, with the continuations named by the state.\<close>

lemma coro_induct [case_names Return Raise Act Await]:
  assumes "\<And>a. P (Return a)"
    and "\<And>e. P (Raise e)"
    and act: "\<And>f. (\<And>s. P (fst (f s))) \<Longrightarrow> P (Act f)"
    and wait: "\<And>f c. (\<And>s. P (fst (f s))) \<Longrightarrow> P c \<Longrightarrow> P (Await f c)"
  shows "P p"
proof (induction p)
  case (Act f)
  have "P (fst (f s))" for s
    by (rule Act.IH [of "f s"]) (auto simp: fsts.simps intro: prod.collapse [symmetric])
  then show ?case by (rule act)
next
  case (Await f c)
  have "P (fst (f s))" for s
    by (rule Await.IH(1) [of "f s"]) (auto simp: fsts.simps intro: prod.collapse [symmetric])
  then show ?case using Await.IH(2) by (rule wait)
qed (fact assms)+

text \<open>\<open>await p k\<close> is \<open>x = await p\<close> followed by \<open>k x\<close>.\<close>

primrec await :: "('s, 'a) coro \<Rightarrow> ('a \<Rightarrow> ('s, 'b) coro) \<Rightarrow> ('s, 'b) coro" where
  "await (Return a) k = k a"
| "await (Raise e) k = Raise e"
| "await (Act f) k = Act (\<lambda>s. map_prod (\<lambda>p. await p k) id (f s))"
| "await (Await f c) k = Await (\<lambda>s. map_prod (\<lambda>p. await p k) id (f s)) (await c k)"

text \<open>A synchronous read and update of the state, and a call to an external service.\<close>

definition sync :: "('s \<Rightarrow> 'a \<times> 's) \<Rightarrow> ('s, 'a) coro" where
  "sync f = Act (\<lambda>s. case f s of (a, s') \<Rightarrow> (Return a, s'))"

definition io :: "exn \<Rightarrow> ('s \<Rightarrow> 'a option \<times> 's) \<Rightarrow> ('s, 'a) coro" where
  "io e f = Await (\<lambda>s. case f s of (None, s') \<Rightarrow> (Raise e, s') | (Some a, s') \<Rightarrow> (Return a, s'))
     (Raise CancelledError)"

text \<open>Waiting for something to arrive from outside: other tasks run, nothing is done.\<close>

definition suspend :: "('s, unit) coro" where
  "suspend = io CancelledError (\<lambda>s. (Some (), s))"

abbreviation read_state :: "('s \<Rightarrow> 'a) \<Rightarrow> ('s, 'a) coro" where
  "read_state f \<equiv> sync (\<lambda>s. (f s, s))"

abbreviation modify_state :: "('s \<Rightarrow> 's) \<Rightarrow> ('s, unit) coro" where
  "modify_state f \<equiv> sync (\<lambda>s. ((), f s))"

subsection \<open>\<open>try\<close> statements\<close>

text \<open>
  \<open>try_except p h\<close>: \<open>h e = None\<close> says that no \<open>except\<close> clause matches \<open>e\<close>.
  \<open>try_finally p q\<close>: \<open>q\<close> runs however \<open>p\<close> ends; an exception of \<open>q\<close> replaces the outcome.
\<close>

primrec try_except :: "('s, 'a) coro \<Rightarrow> (exn \<Rightarrow> ('s, 'a) coro option) \<Rightarrow> ('s, 'a) coro" where
  "try_except (Return a) h = Return a"
| "try_except (Raise e) h = (case h e of None \<Rightarrow> Raise e | Some p \<Rightarrow> p)"
| "try_except (Act f) h = Act (\<lambda>s. map_prod (\<lambda>p. try_except p h) id (f s))"
| "try_except (Await f c) h =
     Await (\<lambda>s. map_prod (\<lambda>p. try_except p h) id (f s)) (try_except c h)"

primrec try_finally :: "('s, 'a) coro \<Rightarrow> ('s, unit) coro \<Rightarrow> ('s, 'a) coro" where
  "try_finally (Return a) q = await q (\<lambda>_. Return a)"
| "try_finally (Raise e) q = await q (\<lambda>_. Raise e)"
| "try_finally (Act f) q = Act (\<lambda>s. map_prod (\<lambda>p. try_finally p q) id (f s))"
| "try_finally (Await f c) q =
     Await (\<lambda>s. map_prod (\<lambda>p. try_finally p q) id (f s)) (try_finally c q)"

definition except_Exception :: "('s, 'a) coro \<Rightarrow> exn \<Rightarrow> ('s, 'a) coro option" where
  "except_Exception p e = (if is_Exception e then Some p else None)"

definition except_only :: "exn \<Rightarrow> ('s, 'a) coro \<Rightarrow> exn \<Rightarrow> ('s, 'a) coro option" where
  "except_only x p e = (if e = x then Some p else None)"

subsection \<open>Running a coroutine to its end\<close>

text \<open>
  \<open>run p s\<close> runs \<open>p\<close> alone from \<open>s\<close>: the value returned or the exception raised, and the
  final state. A coroutine is a well-founded tree, so every run ends.
\<close>

primrec run :: "('s, 'a) coro \<Rightarrow> 's \<Rightarrow> (exn + 'a) \<times> 's" where
  "run (Return a) = (\<lambda>s. (Inr a, s))"
| "run (Raise e) = (\<lambda>s. (Inl e, s))"
| "run (Act f) = (\<lambda>s. case map_prod run id (f s) of (r, s') \<Rightarrow> r s')"
| "run (Await f c) = (\<lambda>s. case map_prod run id (f s) of (r, s') \<Rightarrow> r s')"

lemma run_Act: "run (Act f) s = (case f s of (p, s') \<Rightarrow> run p s')"
  by (simp add: map_prod_def split: prod.splits)

lemma run_Await: "run (Await f c) s = (case f s of (p, s') \<Rightarrow> run p s')"
  by (simp add: map_prod_def split: prod.splits)

declare run.simps(3,4) [simp del]
declare run_Act [simp] run_Await [simp]

lemma run_sync [simp, coro_simps]: "run (sync f) s = (Inr (fst (f s)), snd (f s))"
  by (simp add: sync_def split: prod.splits)

lemma run_io [simp, coro_simps]:
  "run (io e f) s = ((case fst (f s) of None \<Rightarrow> Inl e | Some a \<Rightarrow> Inr a), snd (f s))"
  by (simp add: io_def split: prod.splits option.splits)

lemma run_suspend [simp, coro_simps]: "run suspend s = (Inr (), s)"
  by (simp add: suspend_def)

lemma run_await [simp, coro_simps]:
  "run (await p k) s = (case run p s of (Inl e, s') \<Rightarrow> (Inl e, s') | (Inr a, s') \<Rightarrow> run (k a) s')"
  by (induction p arbitrary: s rule: coro_induct) (simp_all add: case_prod_unfold)

lemma run_try_except [simp, coro_simps]:
  "run (try_except p h) s =
     (case run p s of
        (Inl e, s') \<Rightarrow> (case h e of None \<Rightarrow> (Inl e, s') | Some q \<Rightarrow> run q s')
      | (Inr a, s') \<Rightarrow> (Inr a, s'))"
  by (induction p arbitrary: s rule: coro_induct)
    (simp_all add: case_prod_unfold split: option.splits)

lemma run_try_finally [simp, coro_simps]:
  "run (try_finally p q) s =
     (case run p s of (r, s') \<Rightarrow>
       (case run q s' of (Inl e, s'') \<Rightarrow> (Inl e, s'') | (Inr _, s'') \<Rightarrow> (r, s'')))"
  by (induction p arbitrary: s rule: coro_induct)
    (simp_all add: case_prod_unfold split: sum.splits)

section \<open>Contracts of external services\<close>

text \<open>
  A service outside the repository is a parameter: functions on a state type nobody looks into,
  an observation \<open>view\<close> of that state, and a predicate \<open>up\<close>. A call \<open>f\<close> realises the documented
  operation \<open>g\<close> on observations when, while the service is up, it has the documented outcome and
  effect; a call that returns has always done what is documented; and a call that raises has
  had either no effect or the whole documented effect (the reply was lost).
\<close>

definition realises ::
  "('r \<Rightarrow> 'k) \<Rightarrow> ('r \<Rightarrow> bool) \<Rightarrow> ('r \<Rightarrow> 'a option \<times> 'r) \<Rightarrow> ('k \<Rightarrow> 'a option \<times> 'k) \<Rightarrow> bool" where
  "realises view up f g \<longleftrightarrow>
     (\<forall>r. (up r \<longrightarrow> fst (f r) = fst (g (view r)) \<and> view (snd (f r)) = snd (g (view r)) \<and> up (snd (f r)))
        \<and> (\<forall>y. fst (f r) = Some y \<longrightarrow> g (view r) = (Some y, view (snd (f r))))
        \<and> (fst (f r) = None \<longrightarrow> view (snd (f r)) = view r \<or> view (snd (f r)) = snd (g (view r))))"

lemma realises_up:
  assumes "realises view up f g" "up r"
  shows "fst (f r) = fst (g (view r))" "view (snd (f r)) = snd (g (view r))" "up (snd (f r))"
  using assms by (auto simp: realises_def)

lemma realises_Some:
  assumes "realises view up f g" "fst (f r) = Some y"
  shows "fst (g (view r)) = Some y" "view (snd (f r)) = snd (g (view r))"
  using assms by (auto simp: realises_def)

lemma realises_None:
  assumes "realises view up f g" "fst (f r) = None"
  shows "view (snd (f r)) = view r \<or> view (snd (f r)) = snd (g (view r))"
  using assms by (auto simp: realises_def)

lemma realises_effect:
  assumes "realises view up f g"
  shows "view (snd (f r)) = view r \<or> view (snd (f r)) = snd (g (view r))"
  using realises_Some(2) [OF assms] realises_None [OF assms] by (cases "fst (f r)") auto

text \<open>The service that keeps its observation as its state and is always up.\<close>

lemma realises_refl: "realises id (\<lambda>_. True) g g"
  by (auto simp: realises_def prod_eq_iff)

end
