(* ===== verification/Py_Text.thy ===== *)
theory Py_Text
  imports Prelude "HOL-Library.Word"
begin

text \<open>
  The text functions of Python's standard library that the program uses: decimal and
  hexadecimal numerals, \<open>str.strip\<close> and \<open>str.replace\<close>, and \<open>uuid.UUID\<close> (its string parser and
  \<open>str()\<close>). A Python \<open>str\<close> is a HOL \<open>string\<close>: its code points up to U+00FF, one \<open>char\<close> each.
\<close>

section \<open>Numerals\<close>

definition digit_char :: "nat \<Rightarrow> char" where
  "digit_char d = ''0123456789abcdef'' ! d"

definition digit_val :: "char \<Rightarrow> nat option" where
  "digit_val c =
     (let n = of_char c :: nat in
      if 48 \<le> n \<and> n \<le> 57 then Some (n - 48)
      else if 97 \<le> n \<and> n \<le> 102 then Some (n - 87)
      else if 65 \<le> n \<and> n \<le> 70 then Some (n - 55)
      else None)"

definition is_dec_digit :: "char \<Rightarrow> bool" where
  "is_dec_digit c \<longleftrightarrow> 48 \<le> (of_char c :: nat) \<and> (of_char c :: nat) \<le> 57"

lemma less_16_cases:
  assumes "(d::nat) < 16"
  obtains "d = 0" | "d = 1" | "d = 2" | "d = 3" | "d = 4" | "d = 5" | "d = 6" | "d = 7"
    | "d = 8" | "d = 9" | "d = 10" | "d = 11" | "d = 12" | "d = 13" | "d = 14" | "d = 15"
proof -
  have "d = 0 \<or> d = 1 \<or> d = 2 \<or> d = 3 \<or> d = 4 \<or> d = 5 \<or> d = 6 \<or> d = 7 \<or> d = 8 \<or> d = 9 \<or>
    d = 10 \<or> d = 11 \<or> d = 12 \<or> d = 13 \<or> d = 14 \<or> d = 15"
    using assms by presburger
  then show ?thesis using that by blast
qed

lemma digit_val_char [simp]: "d < 16 \<Longrightarrow> digit_val (digit_char d) = Some d"
  by (erule less_16_cases) (simp_all add: digit_val_def digit_char_def)

lemma is_dec_digit_char [simp]: "d < 10 \<Longrightarrow> is_dec_digit (digit_char d)"
  by (rule less_16_cases [of d]) (simp_all add: is_dec_digit_def digit_char_def)

lemma digit_char_inj: "d < 16 \<Longrightarrow> e < 16 \<Longrightarrow> digit_char d = digit_char e \<Longrightarrow> d = e"
  by (metis digit_val_char option.inject)

text \<open>Decimal: \<open>str(n)\<close> and \<open>int(s)\<close> on a run of digits.\<close>

fun show_nat :: "nat \<Rightarrow> string" where
  "show_nat n = (if n < 10 then [digit_char n] else show_nat (n div 10) @ [digit_char (n mod 10)])"

declare show_nat.simps [simp del]

definition dec_value :: "string \<Rightarrow> nat" where
  "dec_value s = foldl (\<lambda>a c. 10 * a + (case digit_val c of Some d \<Rightarrow> d | None \<Rightarrow> 0)) 0 s"

lemma dec_value_snoc [simp]:
  "dec_value (s @ [c]) = 10 * dec_value s + (case digit_val c of Some d \<Rightarrow> d | None \<Rightarrow> 0)"
  by (simp add: dec_value_def)

lemma dec_value_show_nat [simp]: "dec_value (show_nat n) = n"
proof (induction n rule: show_nat.induct)
  case (1 n)
  then show ?case
    by (subst show_nat.simps) (simp add: dec_value_def)
qed

lemma show_nat_digits: "c \<in> set (show_nat n) \<Longrightarrow> is_dec_digit c"
proof (induction n arbitrary: c rule: show_nat.induct)
  case (1 n)
  then show ?case
    by (subst (asm) show_nat.simps) (auto split: if_splits)
qed

lemma show_nat_nonempty [simp]: "show_nat n \<noteq> []"
  by (subst show_nat.simps) simp

lemma show_nat_inj: "show_nat m = show_nat n \<longleftrightarrow> m = n"
  by (metis dec_value_show_nat)

definition show_int :: "int \<Rightarrow> string" where
  "show_int i = (if i < 0 then CHR ''-'' # show_nat (nat (- i)) else show_nat (nat i))"

text \<open>Redis reads a counter back this way: an optional minus sign and digits, nothing else.\<close>

definition read_int :: "string \<Rightarrow> int option" where
  "read_int s =
     (case s of
        [] \<Rightarrow> None
      | c # cs \<Rightarrow>
          (if c = CHR ''-'' then
             (if cs \<noteq> [] \<and> list_all is_dec_digit cs then Some (- int (dec_value cs)) else None)
           else (if list_all is_dec_digit s then Some (int (dec_value s)) else None)))"

lemma minus_not_digit [simp]: "\<not> is_dec_digit CHR ''-''"
  by (simp add: is_dec_digit_def)

lemma read_show_int [simp]: "read_int (show_int i) = Some i"
proof (cases "i < 0")
  case True
  then show ?thesis
    by (auto simp: read_int_def show_int_def list_all_iff dest: show_nat_digits)
next
  case False
  obtain c cs where s: "show_nat (nat i) = c # cs"
    by (cases "show_nat (nat i)") auto
  then have "is_dec_digit c" using show_nat_digits [of c "nat i"] by simp
  then have "c \<noteq> CHR ''-''" by auto
  moreover have "list_all is_dec_digit (c # cs)"
    using show_nat_digits [of _ "nat i"] s by (auto simp: list_all_iff)
  moreover have "dec_value (c # cs) = nat i" using s by (metis dec_value_show_nat)
  ultimately show ?thesis
    using False s by (simp add: read_int_def show_int_def)
qed

text \<open>Hexadecimal with a fixed width: \<open>'%0wx' % n\<close> for \<open>n < 16 ** w\<close>.\<close>

definition hex_string :: "nat \<Rightarrow> nat \<Rightarrow> string" where
  "hex_string w n = map (\<lambda>i. digit_char (n div 16 ^ (w - Suc i) mod 16)) [0..<w]"

definition hex_value :: "string \<Rightarrow> nat" where
  "hex_value s = foldl (\<lambda>a c. 16 * a + (case digit_val c of Some d \<Rightarrow> d | None \<Rightarrow> 0)) 0 s"

lemma length_hex_string [simp]: "length (hex_string w n) = w"
  by (simp add: hex_string_def)

lemma hex_string_Suc: "hex_string (Suc w) n = hex_string w (n div 16) @ [digit_char (n mod 16)]"
  by (auto simp: hex_string_def Suc_diff_Suc div_mult2_eq [symmetric] simp flip: power_Suc
      intro!: map_cong)

lemma hex_value_string: "hex_value (hex_string w n) = n mod 16 ^ w"
proof (induction w arbitrary: n)
  case 0
  then show ?case by (simp add: hex_string_def hex_value_def)
next
  case (Suc w)
  have "hex_value (hex_string (Suc w) n) = 16 * (n div 16 mod 16 ^ w) + n mod 16"
    using Suc.IH [of "n div 16"] by (simp add: hex_string_Suc hex_value_def)
  then show ?case by (simp add: mod_mult2_eq)
qed

lemma hex_string_chars: "c \<in> set (hex_string w n) \<Longrightarrow> \<exists>d<16. c = digit_char d"
  by (auto simp: hex_string_def) (metis mod_less_divisor zero_less_numeral)

section \<open>Rounding\<close>

text \<open>\<open>a / b\<close> rounded to the nearest integer, halves to even.\<close>

definition round_half_even :: "int \<Rightarrow> int \<Rightarrow> int" where
  "round_half_even a b =
     (let q = a div b; r = a mod b in if 2 * r < b \<or> (2 * r = b \<and> even q) then q else q + 1)"

end
