(* ===== verification/Redis.thy ===== *)
theory Redis
  imports Py_Text
begin

text \<open>
  Redis as the program sees it: a parameter. \<open>redis\<close> is the record of the client calls the code
  makes, over a state type nobody looks into; \<open>rstate\<close> is what can be observed of that state;
  the \<open>doc_\<close> functions say what the Redis documentation says of each command; and the locale
  \<open>redis_service\<close> is the contract the components rely on. \<open>mem_redis\<close> is one service that meets
  the contract (the tests of the repository use one of its kind, \<open>fakeredis\<close>), so the
  hypotheses of the theorems can be met.
\<close>

section \<open>What can be observed\<close>

text \<open>
  A live key has a value and, when it is volatile, the milliseconds left until it expires. A
  channel has the Pub/Sub handles subscribed to it, a handle the messages delivered to it.
\<close>

record rstate =
  entries :: "string \<Rightarrow> (string \<times> nat option) option"
  subscribers :: "string \<Rightarrow> nat list"
  deliveries :: "nat \<Rightarrow> (string \<times> string) list"

abbreviation value_of :: "rstate \<Rightarrow> string \<Rightarrow> string option" where
  "value_of s k \<equiv> map_option fst (entries s k)"

section \<open>The documented commands\<close>

text \<open>Expiry is in seconds, a Python \<open>int\<close>. \<open>None\<close> as the outcome is an error reply.\<close>

fun doc_set :: "string \<Rightarrow> string \<Rightarrow> int option \<Rightarrow> rstate \<Rightarrow> unit option \<times> rstate" where
  "doc_set k v None s = (Some (), s\<lparr>entries := (entries s)(k \<mapsto> (v, None))\<rparr>)"
| "doc_set k v (Some t) s =
     (if t \<le> 0 then (None, s)
      else (Some (), s\<lparr>entries := (entries s)(k \<mapsto> (v, Some (1000 * nat t)))\<rparr>))"

definition doc_get :: "string \<Rightarrow> rstate \<Rightarrow> string option option \<times> rstate" where
  "doc_get k s = (Some (value_of s k), s)"

definition doc_getdel :: "string \<Rightarrow> rstate \<Rightarrow> string option option \<times> rstate" where
  "doc_getdel k s = (Some (value_of s k), s\<lparr>entries := (entries s)(k := None)\<rparr>)"

definition doc_delete :: "string \<Rightarrow> rstate \<Rightarrow> int option \<times> rstate" where
  "doc_delete k s =
     (Some (if entries s k = None then 0 else 1), s\<lparr>entries := (entries s)(k := None)\<rparr>)"

definition doc_expire :: "string \<Rightarrow> int \<Rightarrow> rstate \<Rightarrow> bool option \<times> rstate" where
  "doc_expire k t s =
     (case entries s k of
        None \<Rightarrow> (Some False, s)
      | Some (v, _) \<Rightarrow>
          (Some True,
           s\<lparr>entries := (entries s)(k := (if t \<le> 0 then None else Some (v, Some (1000 * nat t))))\<rparr>))"

definition doc_exists :: "string \<Rightarrow> rstate \<Rightarrow> int option \<times> rstate" where
  "doc_exists k s = (Some (if entries s k = None then 0 else 1), s)"

text \<open>\<open>INCR\<close> keeps the expiry and refuses a value that is no 64-bit integer, or would not stay one.\<close>

definition doc_incr :: "string \<Rightarrow> rstate \<Rightarrow> int option \<times> rstate" where
  "doc_incr k s =
     (case entries s k of
        None \<Rightarrow> (Some 1, s\<lparr>entries := (entries s)(k \<mapsto> (show_int 1, None))\<rparr>)
      | Some (v, ttl) \<Rightarrow>
          (case read_int v of
             None \<Rightarrow> (None, s)
           | Some n \<Rightarrow>
               if - (2 ^ 63) \<le> n \<and> n < 2 ^ 63 - 1
               then (Some (n + 1), s\<lparr>entries := (entries s)(k \<mapsto> (show_int (n + 1), ttl))\<rparr>)
               else (None, s)))"

text \<open>\<open>PUBLISH\<close> reaches the handles subscribed at that moment and nobody else.\<close>

definition doc_publish :: "string \<Rightarrow> string \<Rightarrow> rstate \<Rightarrow> int option \<times> rstate" where
  "doc_publish c m s =
     (Some (int (length (subscribers s c))),
      s\<lparr>deliveries := (\<lambda>h. if h \<in> set (subscribers s c) then deliveries s h @ [(c, m)] else deliveries s h)\<rparr>)"

definition doc_subscribe :: "nat \<Rightarrow> string \<Rightarrow> rstate \<Rightarrow> unit option \<times> rstate" where
  "doc_subscribe h c s =
     (Some (), s\<lparr>subscribers := (subscribers s)(c := List.insert h (subscribers s c))\<rparr>)"

text \<open>Closing a handle drops its subscriptions.\<close>

definition doc_close :: "nat \<Rightarrow> rstate \<Rightarrow> unit option \<times> rstate" where
  "doc_close h s = (Some (), s\<lparr>subscribers := (\<lambda>c. removeAll h (subscribers s c))\<rparr>)"

definition doc_ping :: "rstate \<Rightarrow> unit option \<times> rstate" where
  "doc_ping s = (Some (), s)"

text \<open>A Lua script runs atomically: it is a function of the observable state.\<close>

type_synonym script = "rstate \<Rightarrow> int option \<times> rstate"

text \<open>The passage of time: a volatile key is gone once its time is up.\<close>

fun age :: "nat \<Rightarrow> ('v \<times> nat option) option \<Rightarrow> ('v \<times> nat option) option" where
  "age d None = None"
| "age d (Some (v, None)) = Some (v, None)"
| "age d (Some (v, Some m)) = (if m \<le> d then None else Some (v, Some (m - d)))"

definition doc_wait :: "nat \<Rightarrow> rstate \<Rightarrow> rstate" where
  "doc_wait d s = s\<lparr>entries := (\<lambda>k. age d (entries s k))\<rparr>"

section \<open>The client and its contract\<close>

record 'r redis =
  rd_set :: "string \<Rightarrow> string \<Rightarrow> int option \<Rightarrow> 'r \<Rightarrow> unit option \<times> 'r"
  rd_get :: "string \<Rightarrow> 'r \<Rightarrow> string option option \<times> 'r"
  rd_getdel :: "string \<Rightarrow> 'r \<Rightarrow> string option option \<times> 'r"
  rd_delete :: "string \<Rightarrow> 'r \<Rightarrow> int option \<times> 'r"
  rd_expire :: "string \<Rightarrow> int \<Rightarrow> 'r \<Rightarrow> bool option \<times> 'r"
  rd_exists :: "string \<Rightarrow> 'r \<Rightarrow> int option \<times> 'r"
  rd_eval :: "script \<Rightarrow> 'r \<Rightarrow> int option \<times> 'r"
  rd_publish :: "string \<Rightarrow> string \<Rightarrow> 'r \<Rightarrow> int option \<times> 'r"
  rd_subscribe :: "nat \<Rightarrow> string \<Rightarrow> 'r \<Rightarrow> unit option \<times> 'r"
  rd_close :: "nat \<Rightarrow> 'r \<Rightarrow> unit option \<times> 'r"
  rd_ping :: "'r \<Rightarrow> unit option \<times> 'r"
  rd_wait :: "nat \<Rightarrow> 'r \<Rightarrow> 'r"
  rd_view :: "'r \<Rightarrow> rstate"
  rd_up :: "'r \<Rightarrow> bool"

locale redis_service =
  fixes R :: "'r redis"
  assumes set_law: "realises (rd_view R) (rd_up R) (rd_set R k v t) (doc_set k v t)"
    and get_law: "realises (rd_view R) (rd_up R) (rd_get R k) (doc_get k)"
    and getdel_law: "realises (rd_view R) (rd_up R) (rd_getdel R k) (doc_getdel k)"
    and delete_law: "realises (rd_view R) (rd_up R) (rd_delete R k) (doc_delete k)"
    and expire_law: "realises (rd_view R) (rd_up R) (rd_expire R k e) (doc_expire k e)"
    and exists_law: "realises (rd_view R) (rd_up R) (rd_exists R k) (doc_exists k)"
    and eval_law: "realises (rd_view R) (rd_up R) (rd_eval R p) p"
    and publish_law: "realises (rd_view R) (rd_up R) (rd_publish R k v) (doc_publish k v)"
    and subscribe_law: "realises (rd_view R) (rd_up R) (rd_subscribe R h k) (doc_subscribe h k)"
    and close_law: "realises (rd_view R) (rd_up R) (rd_close R h) (doc_close h)"
    and ping_law: "realises (rd_view R) (rd_up R) (rd_ping R) doc_ping"
    and wait_law: "rd_view R (rd_wait R d r) = doc_wait d (rd_view R r)"
    and wait_up: "rd_up R r \<Longrightarrow> rd_up R (rd_wait R d r)"
begin

lemmas redis_laws = set_law get_law getdel_law delete_law expire_law exists_law eval_law
  publish_law subscribe_law close_law ping_law

lemmas up_simps =
  realises_up [OF set_law] realises_up [OF get_law] realises_up [OF getdel_law]
  realises_up [OF delete_law] realises_up [OF expire_law] realises_up [OF exists_law]
  realises_up [OF eval_law] realises_up [OF publish_law] realises_up [OF subscribe_law]
  realises_up [OF close_law] realises_up [OF ping_law] wait_law wait_up

lemmas effects =
  realises_effect [OF set_law] realises_effect [OF get_law] realises_effect [OF getdel_law]
  realises_effect [OF delete_law] realises_effect [OF expire_law] realises_effect [OF exists_law]
  realises_effect [OF eval_law] realises_effect [OF publish_law]

end

section \<open>Facts about the documented commands\<close>

named_theorems redis_docs \<open>outcome and effect of the documented commands\<close>

lemma doc_set_simps [redis_docs]:
  "fst (doc_set k v None s) = Some ()"
  "snd (doc_set k v None s) = s\<lparr>entries := (entries s)(k \<mapsto> (v, None))\<rparr>"
  "0 < t \<Longrightarrow> fst (doc_set k v (Some t) s) = Some ()"
  "0 < t \<Longrightarrow> snd (doc_set k v (Some t) s) = s\<lparr>entries := (entries s)(k \<mapsto> (v, Some (1000 * nat t)))\<rparr>"
  by simp_all

lemma doc_get_simps [redis_docs]:
  "fst (doc_get k s) = Some (value_of s k)" "snd (doc_get k s) = s"
  "fst (doc_getdel k s) = Some (value_of s k)"
  "snd (doc_getdel k s) = s\<lparr>entries := (entries s)(k := None)\<rparr>"
  by (simp_all add: doc_get_def doc_getdel_def)

lemma doc_delete_simps [redis_docs]:
  "fst (doc_delete k s) = Some (if entries s k = None then 0 else 1)"
  "snd (doc_delete k s) = s\<lparr>entries := (entries s)(k := None)\<rparr>"
  "fst (doc_exists k s) = Some (if entries s k = None then 0 else 1)"
  "snd (doc_exists k s) = s"
  by (simp_all add: doc_delete_def doc_exists_def)

text \<open>What \<open>EXPIRE k t\<close> with a positive \<open>t\<close> makes of an entry: a missing key stays missing.\<close>

abbreviation renewed :: "int \<Rightarrow> ('v \<times> nat option) option \<Rightarrow> ('v \<times> nat option) option" where
  "renewed t e \<equiv> map_option (\<lambda>(v, _). (v, Some (1000 * nat t))) e"

lemma doc_expire_simps [redis_docs]:
  "fst (doc_expire k t s) = Some (entries s k \<noteq> None)"
  "0 < t \<Longrightarrow> snd (doc_expire k t s) = s\<lparr>entries := (entries s)(k := renewed t (entries s k))\<rparr>"
  by (auto simp: doc_expire_def fun_upd_idem split: option.splits prod.splits)

lemma doc_other_simps [redis_docs]:
  "fst (doc_publish c m s) = Some (int (length (subscribers s c)))"
  "fst (doc_subscribe h c s) = Some ()"
  "fst (doc_close h s) = Some ()"
  "doc_ping s = (Some (), s)"
  "entries (snd (doc_publish c m s)) = entries s"
  "subscribers (snd (doc_publish c m s)) = subscribers s"
  "entries (doc_wait d s) k = age d (entries s k)"
  by (simp_all add: doc_publish_def doc_subscribe_def doc_close_def doc_ping_def doc_wait_def)

lemma age_add [simp]: "age d (age e x) = age (e + d) x"
  by (induction e x rule: age.induct) auto

lemma age_0 [simp]: "(\<And>v. x \<noteq> Some (v, Some 0)) \<Longrightarrow> age 0 x = x"
  by (induction "0::nat" x rule: age.induct) auto

lemma age_map:
  "age d (map_option (\<lambda>(v, m). (f v, m)) x) = map_option (\<lambda>(v, m). (f v, m)) (age d x)"
  "age d (map_option (\<lambda>p. (f (fst p), snd p)) x) = map_option (\<lambda>p. (f (fst p), snd p)) (age d x)"
  by (induction d x rule: age.induct) simp_all

section \<open>A service that meets the contract\<close>

definition mem_redis :: "rstate redis" where
  "mem_redis =
     \<lparr>rd_set = doc_set, rd_get = doc_get, rd_getdel = doc_getdel, rd_delete = doc_delete,
      rd_expire = doc_expire, rd_exists = doc_exists, rd_eval = (\<lambda>p. p),
      rd_publish = doc_publish, rd_subscribe = doc_subscribe, rd_close = doc_close,
      rd_ping = doc_ping, rd_wait = doc_wait, rd_view = id, rd_up = (\<lambda>_. True)\<rparr>"

definition empty_redis :: rstate where
  "empty_redis = \<lparr>entries = (\<lambda>_. None), subscribers = (\<lambda>_. []), deliveries = (\<lambda>_. [])\<rparr>"

interpretation mem: redis_service mem_redis
  by unfold_locales (simp_all add: mem_redis_def realises_refl)

lemma mem_redis_simps [simp]:
  "rd_view mem_redis = id" "rd_up mem_redis = (\<lambda>_. True)" "rd_wait mem_redis = doc_wait"
  by (simp_all add: mem_redis_def)

end
