(* ===== verification/Py_Uuid.thy ===== *)
theory Py_Uuid
  imports Py_Text
begin

text \<open>
  \<open>uuid.UUID\<close> of the Python standard library, as the program uses it: the 128-bit value,
  \<open>str(u)\<close>, and the constructor \<open>UUID(s)\<close> with every spelling it accepts (\<open>urn:uuid:\<close>, braces,
  hyphens anywhere, either case, and what \<open>int(hex, 16)\<close> allows besides digits).
\<close>

type_synonym uuid = "128 word"

section \<open>\<open>str(u)\<close>\<close>

definition uuid_str :: "uuid \<Rightarrow> string" where
  "uuid_str u =
     (let h = hex_string 32 (unat u) in
      take 8 h @ ''-'' @ take 4 (drop 8 h) @ ''-'' @ take 4 (drop 12 h) @ ''-'' @
      take 4 (drop 16 h) @ ''-'' @ drop 20 h)"

section \<open>\<open>UUID(s)\<close>\<close>

text \<open>\<open>s.replace(old, '')\<close> for a non-empty \<open>old\<close>: the leftmost occurrences, without overlap.\<close>

fun remove_all :: "nat \<Rightarrow> string \<Rightarrow> string \<Rightarrow> string" where
  "remove_all skip old [] = []"
| "remove_all (Suc skip) old (c # cs) = remove_all skip old cs"
| "remove_all 0 old (c # cs) =
     (if take (length old) (c # cs) = old then remove_all (length old - 1) old cs
      else c # remove_all 0 old cs)"

abbreviation py_remove :: "string \<Rightarrow> string \<Rightarrow> string" where
  "py_remove old s \<equiv> remove_all 0 old s"

definition strip_chars :: "(char \<Rightarrow> bool) \<Rightarrow> string \<Rightarrow> string" where
  "strip_chars p s = rev (dropWhile p (rev (dropWhile p s)))"

definition is_space :: "char \<Rightarrow> bool" where
  "is_space c \<longleftrightarrow> (let n = of_char c :: nat in
     9 \<le> n \<and> n \<le> 13 \<or> 28 \<le> n \<and> n \<le> 32 \<or> n = 133 \<or> n = 160)"

text \<open>
  \<open>int(s, 16)\<close>: surrounding white space, a plus sign, a \<open>0x\<close> prefix and single underscores
  between digits are allowed. (A minus sign cannot occur: \<open>UUID\<close> removes every hyphen first.)
\<close>

fun hex_run :: "bool \<Rightarrow> nat \<Rightarrow> string \<Rightarrow> nat option" where
  "hex_run after_digit acc [] = (if after_digit then Some acc else None)"
| "hex_run after_digit acc (c # cs) =
     (if c = CHR ''_'' then (if after_digit then hex_run False acc cs else None)
      else (case digit_val c of None \<Rightarrow> None | Some d \<Rightarrow> hex_run True (16 * acc + d) cs))"

definition py_int16 :: "string \<Rightarrow> nat option" where
  "py_int16 s =
     (let t = strip_chars is_space s;
          t = (if take 1 t = ''+'' then drop 1 t else t) in
      if take 2 t \<in> {''0x'', ''0X''} then
        (let r = drop 2 t in hex_run False 0 (if take 1 r = ''_'' then drop 1 r else r))
      else hex_run False 0 t)"

definition py_UUID :: "string \<Rightarrow> uuid option" where
  "py_UUID s =
     (let hex = py_remove ''uuid:'' (py_remove ''urn:'' s);
          hex = py_remove ''-'' (strip_chars (\<lambda>c. c = CHR ''{'' \<or> c = CHR ''}'') hex) in
      if length hex \<noteq> 32 then None else map_option of_nat (py_int16 hex))"

section \<open>\<open>UUID(str(u)) == u\<close>\<close>

lemma remove_all_id:
  assumes "\<And>c. c \<in> set s \<Longrightarrow> c \<noteq> hd old" "old \<noteq> []"
  shows "remove_all 0 old s = s"
  using assms by (induction s) (force simp: neq_Nil_conv)+

lemma remove_hyphen: "remove_all 0 ''-'' s = filter (\<lambda>c. c \<noteq> CHR ''-'') s"
  by (induction s) simp_all

lemma dropWhile_none: "(\<And>c. c \<in> set s \<Longrightarrow> \<not> p c) \<Longrightarrow> dropWhile p s = s"
  by (cases s) simp_all

lemma strip_chars_id: "(\<And>c. c \<in> set s \<Longrightarrow> \<not> p c) \<Longrightarrow> strip_chars p s = s"
  using dropWhile_none [of s p] dropWhile_none [of "rev s" p] by (simp add: strip_chars_def)

text \<open>The characters of a canonical UUID.\<close>

definition is_lower_hex :: "char \<Rightarrow> bool" where
  "is_lower_hex c \<longleftrightarrow> (\<exists>d<16. c = digit_char d)"

lemma is_lower_hex_simps:
  assumes "is_lower_hex c"
  shows "c \<noteq> CHR ''-''" "c \<noteq> CHR ''u''" "c \<noteq> CHR ''{''" "c \<noteq> CHR ''}''" "c \<noteq> CHR ''+''"
    "c \<noteq> CHR ''x''" "c \<noteq> CHR ''X''" "c \<noteq> CHR ''_''" "c \<noteq> CHR '':''" "c \<noteq> CHR ''l''"
    "\<not> is_space c" "\<exists>d. digit_val c = Some d"
  using assms unfolding is_lower_hex_def
  by (elim exE conjE less_16_cases; simp add: digit_char_def is_space_def digit_val_def)+

lemma hex_string_lower: "c \<in> set (hex_string w n) \<Longrightarrow> is_lower_hex c"
  using hex_string_chars by (auto simp: is_lower_hex_def)

lemma hex_run_value:
  assumes "\<And>c. c \<in> set s \<Longrightarrow> is_lower_hex c" "s \<noteq> [] \<or> b"
  shows "hex_run b acc s =
    Some (foldl (\<lambda>a c. 16 * a + (case digit_val c of Some d \<Rightarrow> d | None \<Rightarrow> 0)) acc s)"
  using assms
proof (induction s arbitrary: b acc)
  case Nil
  then show ?case by simp
next
  case (Cons c s)
  then have c: "is_lower_hex c" by simp
  from is_lower_hex_simps(8,12) [OF c] obtain d where "c \<noteq> CHR ''_''" "digit_val c = Some d"
    by auto
  with Cons show ?case by simp
qed

lemma uuid_str_chars: "c \<in> set (uuid_str u) \<Longrightarrow> is_lower_hex c \<or> c = CHR ''-''"
  by (auto simp: uuid_str_def Let_def dest!: in_set_takeD in_set_dropD hex_string_lower)

lemma filter_hyphens: "filter (\<lambda>c. c \<noteq> CHR ''-'') (uuid_str u) = hex_string 32 (unat u)"
proof -
  let ?h = "hex_string 32 (unat u)"
  have keep: "filter (\<lambda>c. c \<noteq> CHR ''-'') xs = xs" if "set xs \<subseteq> set ?h" for xs
    using that by (auto intro!: filter_True dest: hex_string_lower is_lower_hex_simps(1))
  have "filter (\<lambda>c. c \<noteq> CHR ''-'') (uuid_str u) =
    take 8 ?h @ take 4 (drop 8 ?h) @ take 4 (drop 12 ?h) @ take 4 (drop 16 ?h) @ drop 20 ?h"
    by (simp add: uuid_str_def Let_def keep set_take_subset set_drop_subset
        order_trans [OF set_take_subset set_drop_subset])
  also have "\<dots> = ?h"
    by (simp add: list_eq_iff_nth_eq nth_append)
  finally show ?thesis .
qed

lemma py_int16_hex: "0 < w \<Longrightarrow> py_int16 (hex_string w n) = Some (hex_value (hex_string w n))"
proof -
  assume w: "0 < w"
  let ?h = "hex_string w n"
  have chars: "\<And>c. c \<in> set ?h \<Longrightarrow> is_lower_hex c" by (rule hex_string_lower)
  have strip: "strip_chars is_space ?h = ?h"
    by (rule strip_chars_id) (use chars is_lower_hex_simps(11) in blast)
  obtain c cs where h: "?h = c # cs" using w by (cases ?h) (auto simp flip: length_0_conv)
  have "c \<noteq> CHR ''+''" using is_lower_hex_simps(5) [OF chars] h by auto
  moreover have "take 2 ?h \<notin> {''0x'', ''0X''}"
  proof
    assume "take 2 ?h \<in> {''0x'', ''0X''}"
    then have "CHR ''x'' \<in> set (take 2 ?h) \<or> CHR ''X'' \<in> set (take 2 ?h)" by auto
    then have "CHR ''x'' \<in> set ?h \<or> CHR ''X'' \<in> set ?h" by (auto dest: in_set_takeD)
    then show False using is_lower_hex_simps(6,7) [OF chars] by auto
  qed
  moreover have "hex_run False 0 ?h = Some (hex_value ?h)"
    using hex_run_value [OF chars, of "?h" False 0] h by (simp add: hex_value_def)
  moreover have "take 1 ?h = [c]" using h by simp
  ultimately show ?thesis
    unfolding py_int16_def Let_def strip by simp
qed

text \<open>Hyphens anywhere among the digits, or none.\<close>

lemma py_UUID_hyphens:
  assumes "\<And>c. c \<in> set s \<Longrightarrow> is_lower_hex c \<or> c = CHR ''-''"
    and "filter (\<lambda>c. c \<noteq> CHR ''-'') s = hex_string 32 (unat u)"
  shows "py_UUID s = Some u"
proof -
  have urn: "py_remove ''urn:'' s = s"
    by (rule remove_all_id) (use assms(1) is_lower_hex_simps(2) in fastforce)+
  have uuid: "py_remove ''uuid:'' s = s"
    by (rule remove_all_id) (use assms(1) is_lower_hex_simps(2) in fastforce)+
  have braces: "strip_chars (\<lambda>c. c = CHR ''{'' \<or> c = CHR ''}'') s = s"
    by (rule strip_chars_id) (use assms(1) is_lower_hex_simps(3,4) in fastforce)
  have "unat u < 16 ^ 32" using unsigned_less [of u] by simp
  then have "hex_value (hex_string 32 (unat u)) = unat u" by (simp add: hex_value_string)
  then show ?thesis
    by (simp add: py_UUID_def Let_def urn uuid braces remove_hyphen assms(2) py_int16_hex)
qed

lemma py_UUID_str [simp]: "py_UUID (uuid_str u) = Some u"
  by (rule py_UUID_hyphens) (use uuid_str_chars filter_hyphens in auto)

text \<open>The spelling without hyphens is accepted too, and is another string.\<close>

lemma py_UUID_hex: "py_UUID (hex_string 32 (unat u)) = Some u" "hex_string 32 (unat u) \<noteq> uuid_str v"
proof -
  have hex: "is_lower_hex c" if "c \<in> set (hex_string 32 (unat u))" for c using that by (rule hex_string_lower)
  then have "filter (\<lambda>c. c \<noteq> CHR ''-'') (hex_string 32 (unat u)) = hex_string 32 (unat u)"
    using is_lower_hex_simps(1) by (auto simp: filter_id_conv)
  with hex show "py_UUID (hex_string 32 (unat u)) = Some u" by (intro py_UUID_hyphens) auto
  have "CHR ''-'' \<in> set (uuid_str v)" by (simp add: uuid_str_def Let_def)
  with hex show "hex_string 32 (unat u) \<noteq> uuid_str v" using is_lower_hex_simps(1) by metis
qed

lemma uuid_str_inj [simp]: "uuid_str u = uuid_str v \<longleftrightarrow> u = v"
  by (metis option.inject py_UUID_str)

section \<open>No UUID is spelled with a leading \<open>l\<close>\<close>

text \<open>The namespace \<open>presence:last_seen:\<close> is safe from the ids of users for this reason.\<close>

lemma strip_chars_Cons: "\<not> p c \<Longrightarrow> \<exists>t. strip_chars p (c # s) = c # t"
  using exI [of "\<lambda>t. dropWhile p (rev s) = rev t" "rev (dropWhile p (rev s))"]
  by (auto simp: strip_chars_def dropWhile_append)

lemma py_int16_l: "py_int16 (CHR ''l'' # s) = None"
proof -
  obtain t where "strip_chars is_space (CHR ''l'' # s) = CHR ''l'' # t"
    using strip_chars_Cons [of is_space "CHR ''l''" s] by (auto simp: is_space_def)
  then show ?thesis by (simp add: py_int16_def digit_val_def)
qed

lemma py_UUID_l [simp]: "py_UUID (CHR ''l'' # s) = None"
proof -
  let ?t = "py_remove ''uuid:'' (py_remove ''urn:'' s)"
  obtain t where "strip_chars (\<lambda>c. c = CHR ''{'' \<or> c = CHR ''}'') (CHR ''l'' # ?t) = CHR ''l'' # t"
    using strip_chars_Cons [of "\<lambda>c. c = CHR ''{'' \<or> c = CHR ''}''" "CHR ''l''" ?t] by auto
  then show ?thesis by (simp add: py_UUID_def Let_def py_int16_l)
qed

end
