(* ===== verification/Py_Json.thy ===== *)
theory Py_Json
  imports Py_Text
begin

text \<open>
  JSON values and \<open>json.dumps\<close> / \<open>json.loads\<close> of the Python standard library: what \<open>Publisher\<close>
  puts on the wire, what \<open>Subscriber\<close> reads back, and what the payload size limit measures.
  A float is an exact decimal \<open>n / 10 ^ k\<close> with \<open>1 \<le> k\<close>, printed without an exponent; a string
  holds code points up to U+00FF, so an escape beyond \<open>\u00ff\<close> is not read.
\<close>

section \<open>Values\<close>

datatype json =
    JNull
  | JBool bool
  | JInt int
  | JFloat int nat
  | JNaN
  | JInfinity bool
  | JStr string
  | JList "json list"
  | JObj "(string \<times> json) list"

text \<open>\<open>d.get(k)\<close> and \<open>d[k]\<close> on an object; \<open>AList.update\<close> is Python's \<open>d[k] = v\<close>.\<close>

fun obj_get :: "json \<Rightarrow> string \<Rightarrow> json option" where
  "obj_get (JObj m) k = map_of m k"
| "obj_get _ k = None"

definition dict_of :: "(string \<times> 'v) list \<Rightarrow> (string \<times> 'v) list" where
  "dict_of kvs = foldl (\<lambda>m (k, v). AList.update k v m) [] kvs"

text \<open>A float in its normal form: no trailing zero beyond the first decimal.\<close>

definition norm_float :: "int \<Rightarrow> nat \<Rightarrow> bool" where
  "norm_float n k \<longleftrightarrow> k = 1 \<or> (1 < k \<and> n mod 10 \<noteq> 0)"

fun make_float :: "int \<Rightarrow> nat \<Rightarrow> json" where
  "make_float n 0 = JFloat (n * 10) 1"
| "make_float n (Suc k) =
     (if k = 0 then JFloat n 1
      else if n mod 10 = 0 then make_float (n div 10) k else JFloat n (Suc k))"

text \<open>Values Python can hold: the keys of a dict are distinct.\<close>

fun wf_json :: "json \<Rightarrow> bool" where
  "wf_json (JFloat n k) = norm_float n k"
| "wf_json (JList xs) = list_all wf_json xs"
| "wf_json (JObj m) = (distinct (map fst m) \<and> list_all (\<lambda>(k, v). wf_json v) m)"
| "wf_json _ = True"

section \<open>\<open>json.dumps\<close>\<close>

text \<open>\<open>ensure_ascii\<close> is on: everything outside space..tilde is escaped.\<close>

definition escape_char :: "char \<Rightarrow> string" where
  "escape_char c =
     (let n = of_char c :: nat in
      if c = CHR 0x22 \<or> c = CHR 0x5C then [CHR 0x5C, c]
      else if c = CHR 0x08 then [CHR 0x5C, CHR ''b'']
      else if c = CHR 0x09 then [CHR 0x5C, CHR ''t'']
      else if c = CHR 0x0A then [CHR 0x5C, CHR ''n'']
      else if c = CHR 0x0C then [CHR 0x5C, CHR ''f'']
      else if c = CHR 0x0D then [CHR 0x5C, CHR ''r'']
      else if 32 \<le> n \<and> n \<le> 126 then [c]
      else [CHR 0x5C, CHR ''u''] @ hex_string 4 n)"

definition quote :: "string \<Rightarrow> string" where
  "quote s = CHR 0x22 # concat (map escape_char s) @ [CHR 0x22]"

definition show_frac :: "nat \<Rightarrow> nat \<Rightarrow> string" where
  "show_frac m k = show_nat (m div 10 ^ k) @ ''.'' @
     map (\<lambda>i. digit_char (m div 10 ^ (k - Suc i) mod 10)) [0..<k]"

definition show_float :: "int \<Rightarrow> nat \<Rightarrow> string" where
  "show_float n k = (if n < 0 then ''-'' else []) @ show_frac (nat \<bar>n\<bar>) k"

fun dumps :: "json \<Rightarrow> string"
  and dumps_tail :: "json list \<Rightarrow> string"
  and dumps_members :: "(string \<times> json) list \<Rightarrow> string" where
  "dumps JNull = ''null''"
| "dumps (JBool b) = (if b then ''true'' else ''false'')"
| "dumps (JInt i) = show_int i"
| "dumps (JFloat n k) = show_float n k"
| "dumps JNaN = ''NaN''"
| "dumps (JInfinity neg) = (if neg then ''-Infinity'' else ''Infinity'')"
| "dumps (JStr s) = quote s"
| "dumps (JList []) = ''[]''"
| "dumps (JList (x # xs)) = ''['' @ dumps x @ dumps_tail xs"
| "dumps (JObj []) = ''{}''"
| "dumps (JObj ((k, v) # m)) = ''{'' @ quote k @ '': '' @ dumps v @ dumps_members m"
| "dumps_tail [] = '']''"
| "dumps_tail (x # xs) = '', '' @ dumps x @ dumps_tail xs"
| "dumps_members [] = ''}''"
| "dumps_members ((k, v) # m) = '', '' @ quote k @ '': '' @ dumps v @ dumps_members m"

section \<open>\<open>json.loads\<close>\<close>

definition skip_ws :: "string \<Rightarrow> string" where
  "skip_ws = dropWhile (\<lambda>c. c \<in> {CHR '' '', CHR 0x09, CHR 0x0A, CHR 0x0D})"

definition hex4 :: "string \<Rightarrow> nat option" where
  "hex4 s = (if length s = 4 \<and> (\<forall>c\<in>set s. digit_val c \<noteq> None) then Some (hex_value s) else None)"

text \<open>The rest of a string literal, after its opening quote.\<close>

fun scan_string :: "nat \<Rightarrow> string \<Rightarrow> (string \<times> string) option" where
  "scan_string 0 s = None"
| "scan_string (Suc n) [] = None"
| "scan_string (Suc n) (c # cs) =
     (if c = CHR 0x22 then Some ([], cs)
      else if c = CHR 0x5C then
        (case cs of
           [] \<Rightarrow> None
         | e # es \<Rightarrow>
             if e = CHR ''u'' then
               (case hex4 (take 4 es) of
                  None \<Rightarrow> None
                | Some v \<Rightarrow>
                    if v < 256 then
                      map_option (apfst (Cons (char_of v))) (scan_string n (drop 4 es))
                    else None)
             else
               (case map_of [(CHR 0x22, CHR 0x22), (CHR 0x5C, CHR 0x5C), (CHR ''/'', CHR ''/''),
                   (CHR ''b'', CHR 0x08), (CHR ''f'', CHR 0x0C), (CHR ''n'', CHR 0x0A),
                   (CHR ''r'', CHR 0x0D), (CHR ''t'', CHR 0x09)] e of
                  None \<Rightarrow> None
                | Some d \<Rightarrow> map_option (apfst (Cons d)) (scan_string n es)))
      else if (of_char c :: nat) < 32 then None
      else map_option (apfst (Cons c)) (scan_string n cs))"

text \<open>
  A number: \<open>-?(0|[1-9]\d*)(\.\d+)?([eE][-+]?\d+)?\<close>. With a fraction or an exponent it is a
  float, otherwise an int.
\<close>

definition scan_frac :: "string \<Rightarrow> string \<times> string" where
  "scan_frac s =
     (case s of
        c # cs \<Rightarrow>
          (let ds = takeWhile is_dec_digit cs in
           if c = CHR ''.'' \<and> ds \<noteq> [] then (ds, dropWhile is_dec_digit cs) else ([], s))
      | [] \<Rightarrow> ([], s))"

definition scan_exp :: "string \<Rightarrow> int option \<times> string" where
  "scan_exp s =
     (case s of
        c # cs \<Rightarrow>
          if c = CHR ''e'' \<or> c = CHR ''E'' then
            (let neg = (take 1 cs = ''-'');
                 body = (if take 1 cs \<in> {''-'', ''+''} then drop 1 cs else cs);
                 ds = takeWhile is_dec_digit body in
             if ds = [] then (None, s)
             else (Some ((if neg then - 1 else 1) * int (dec_value ds)), dropWhile is_dec_digit body))
          else (None, s)
      | [] \<Rightarrow> (None, s))"

definition scale_float :: "int \<Rightarrow> nat \<Rightarrow> int \<Rightarrow> json" where
  "scale_float n k e =
     (if int k \<le> e then make_float (n * 10 ^ nat (e - int k)) 0 else make_float n (nat (int k - e)))"

definition scan_unsigned :: "int \<Rightarrow> string \<Rightarrow> (json \<times> string) option" where
  "scan_unsigned sg s =
     (let ds = (if take 1 s = ''0'' then ''0'' else takeWhile is_dec_digit s) in
      if ds = [] then None
      else
        (case scan_frac (drop (length ds) s) of (fs, rest1) \<Rightarrow>
        (case scan_exp rest1 of (ex, rest2) \<Rightarrow>
          if fs = [] \<and> ex = None then Some (JInt (sg * int (dec_value ds)), rest2)
          else Some (scale_float (sg * int (dec_value (ds @ fs))) (length fs)
                       (case ex of None \<Rightarrow> 0 | Some e \<Rightarrow> e), rest2))))"

definition scan_number :: "string \<Rightarrow> (json \<times> string) option" where
  "scan_number s = (if take 1 s = ''-'' then scan_unsigned (- 1) (drop 1 s) else scan_unsigned 1 s)"

definition scan_literal :: "string \<Rightarrow> (json \<times> string) option" where
  "scan_literal s =
     (if take 4 s = ''null'' then Some (JNull, drop 4 s)
      else if take 4 s = ''true'' then Some (JBool True, drop 4 s)
      else if take 5 s = ''false'' then Some (JBool False, drop 5 s)
      else if take 3 s = ''NaN'' then Some (JNaN, drop 3 s)
      else if take 8 s = ''Infinity'' then Some (JInfinity False, drop 8 s)
      else if take 9 s = ''-Infinity'' then Some (JInfinity True, drop 9 s)
      else scan_number s)"

text \<open>One value; the fuel bounds the depth and the number of elements and is never short
  (\<open>loads\<close> gives more fuel than there are characters).\<close>

fun scan_value :: "nat \<Rightarrow> string \<Rightarrow> (json \<times> string) option"
  and scan_tail :: "nat \<Rightarrow> string \<Rightarrow> (json list \<times> string) option"
  and scan_member :: "nat \<Rightarrow> string \<Rightarrow> ((string \<times> json) list \<times> string) option" where
  "scan_value 0 s = None"
| "scan_value (Suc n) [] = None"
| "scan_value (Suc n) (c # cs) =
     (if c = CHR 0x22 then map_option (apfst JStr) (scan_string (Suc (length cs)) cs)
      else if c = CHR ''['' then
        (let cs = skip_ws cs in
         if take 1 cs = '']'' then Some (JList [], drop 1 cs)
         else (case scan_value n cs of
                 None \<Rightarrow> None
               | Some (v, r) \<Rightarrow> map_option (apfst (\<lambda>vs. JList (v # vs))) (scan_tail n r)))
      else if c = CHR ''{'' then
        (let cs = skip_ws cs in
         if take 1 cs = ''}'' then Some (JObj [], drop 1 cs)
         else map_option (apfst (\<lambda>m. JObj (dict_of m))) (scan_member n cs))
      else scan_literal (c # cs))"
| "scan_tail 0 s = None"
| "scan_tail (Suc n) s =
     (let s = skip_ws s in
      if take 1 s = '']'' then Some ([], drop 1 s)
      else if take 1 s = '','' then
        (case scan_value n (skip_ws (drop 1 s)) of
           None \<Rightarrow> None
         | Some (v, r) \<Rightarrow> map_option (apfst (Cons v)) (scan_tail n r))
      else None)"
| "scan_member 0 s = None"
| "scan_member (Suc n) s =
     (if take 1 s = [CHR 0x22] then
        (case scan_string (length s) (drop 1 s) of
           None \<Rightarrow> None
         | Some (k, r) \<Rightarrow>
             (let r = skip_ws r in
              if take 1 r = '':'' then
                (case scan_value n (skip_ws (drop 1 r)) of
                   None \<Rightarrow> None
                 | Some (v, r) \<Rightarrow>
                     (let r = skip_ws r in
                      if take 1 r = ''}'' then Some ([(k, v)], drop 1 r)
                      else if take 1 r = '','' then
                        map_option (apfst (Cons (k, v))) (scan_member n (skip_ws (drop 1 r)))
                      else None))
              else None))
      else None)"

definition loads :: "string \<Rightarrow> json option" where
  "loads s =
     (case scan_value (Suc (length s)) (skip_ws s) of
        None \<Rightarrow> None
      | Some (v, r) \<Rightarrow> if skip_ws r = [] then Some v else None)"

section \<open>\<open>json.loads(json.dumps(v)) == v\<close>\<close>

subsection \<open>Strings\<close>

lemma scan_string_escape:
  "scan_string (Suc n) (escape_char c @ t) = map_option (apfst (Cons c)) (scan_string n t)"
proof -
  let ?n = "of_char c :: nat"
  have less: "?n < 256" by simp
  then have "?n < 65536" by linarith
  then have mod: "?n mod 65536 = ?n" by (rule mod_less)
  let ?special = "{CHR 0x22, CHR 0x5C, CHR 0x08, CHR 0x09, CHR 0x0A, CHR 0x0C, CHR 0x0D}"
  consider "c \<in> ?special" | "c \<notin> ?special" "32 \<le> ?n" "?n \<le> 126"
    | "c \<notin> ?special" "\<not> (32 \<le> ?n \<and> ?n \<le> 126)"
    by blast
  then show ?thesis
  proof cases
    case 3
    have "hex4 (hex_string 4 ?n) = Some ?n"
      using mod by (auto simp: hex4_def hex_value_string dest!: hex_string_chars)
    moreover have "escape_char c = [CHR 0x5C, CHR ''u''] @ hex_string 4 ?n"
      using 3 by (auto simp: escape_char_def Let_def)
    ultimately show ?thesis using less by simp
  qed (auto simp: escape_char_def)
qed

lemma scan_string_quote:
  "length s < n \<Longrightarrow>
   scan_string n (concat (map escape_char s) @ CHR 0x22 # r) = Some (s, r)"
proof (induction s arbitrary: n)
  case Nil
  then show ?case by (cases n) simp_all
next
  case (Cons c s)
  then obtain m where "n = Suc m" "length s < m" by (cases n) auto
  with Cons.IH show ?case by (simp add: scan_string_escape)
qed

lemma escape_char_nonempty: "escape_char c \<noteq> []"
  by (simp add: escape_char_def Let_def)

lemma length_escape: "length s \<le> length (concat (map escape_char s))"
proof (induction s)
  case (Cons c s)
  have "1 \<le> length (escape_char c)" using escape_char_nonempty [of c] by (cases "escape_char c") auto
  with Cons show ?case by simp
qed simp

lemma scan_quote:
  "quote s = CHR 0x22 # tl (quote s)"
  "length (quote s @ t) \<le> n \<Longrightarrow> scan_string n (tl (quote s) @ t) = Some (s, t)"
  using length_escape [of s] by (simp_all add: quote_def scan_string_quote)

subsection \<open>Numbers\<close>

definition stops :: "string \<Rightarrow> bool" where
  "stops r \<longleftrightarrow> (case r of [] \<Rightarrow> True | c # _ \<Rightarrow> \<not> is_dec_digit c \<and> c \<notin> {CHR ''.'', CHR ''e'', CHR ''E''})"

lemma stops_simps [simp]:
  "stops []" "stops (CHR '','' # r)" "stops (CHR '']'' # r)" "stops (CHR ''}'' # r)"
  by (simp_all add: stops_def is_dec_digit_def)

lemma stops_scan:
  assumes "stops r"
  shows "takeWhile is_dec_digit r = []" "dropWhile is_dec_digit r = r"
    "scan_frac r = ([], r)" "scan_exp r = (None, r)"
  using assms by (cases r; simp add: stops_def scan_frac_def scan_exp_def Let_def)+

lemma show_nat_first:
  assumes "take 1 (show_nat n) = ''0''"
  shows "n = 0"
  using assms
proof (induction n rule: show_nat.induct)
  case (1 n)
  show ?case
  proof (cases "n < 10")
    case True
    with 1 show ?thesis
      using digit_char_inj [of n 0] by (simp add: show_nat.simps [of n] digit_char_def)
  next
    case False
    have "take 1 (show_nat n) = take 1 (show_nat (n div 10))"
      using False by (subst show_nat.simps) (cases "show_nat (n div 10)", simp_all)
    with 1 False show ?thesis by simp
  qed
qed

lemma scan_digits:
  assumes "\<forall>c\<in>set ds. is_dec_digit c" "takeWhile is_dec_digit r = []"
  shows "takeWhile is_dec_digit (ds @ r) = ds" "dropWhile is_dec_digit (ds @ r) = r"
  using assms by (induction ds) (simp_all, metis append_Nil takeWhile_dropWhile_id)

lemma scan_int_part:
  assumes "takeWhile is_dec_digit r = []"
  shows "(if take 1 (show_nat n @ r) = ''0'' then ''0'' else takeWhile is_dec_digit (show_nat n @ r))
    = show_nat n"
proof (cases "n = 0")
  case True
  then show ?thesis by (simp add: show_nat.simps [of 0] digit_char_def)
next
  case False
  then have "take 1 (show_nat n @ r) \<noteq> ''0''"
    using show_nat_first [of n] by (cases "show_nat n") auto
  then show ?thesis
    using scan_digits(1) [of "show_nat n" r] assms show_nat_digits [of _ n] by simp
qed

lemma show_nat_head: "\<exists>c cs. show_nat n = c # cs \<and> is_dec_digit c"
  using show_nat_digits [of _ n] by (cases "show_nat n") auto

lemma take1_show_nat: "take 1 (show_nat n @ r) \<noteq> ''-''"
  using show_nat_head [of n] by auto

lemma scan_signed:
  assumes "takeWhile is_dec_digit r = []"
  shows "scan_unsigned sg (show_nat n @ r) =
     (case scan_frac r of (fs, rest1) \<Rightarrow>
     (case scan_exp rest1 of (ex, rest2) \<Rightarrow>
       if fs = [] \<and> ex = None then Some (JInt (sg * int n), rest2)
       else Some (scale_float (sg * int (dec_value (show_nat n @ fs))) (length fs)
                    (case ex of None \<Rightarrow> 0 | Some e \<Rightarrow> e), rest2)))"
  unfolding scan_unsigned_def Let_def scan_int_part [OF assms] by (simp split: prod.splits)

lemma scan_number_sign:
  "scan_number ((if neg then ''-'' else []) @ show_nat n @ r) =
     scan_unsigned (if neg then - 1 else 1) (show_nat n @ r)"
  using take1_show_nat [of n r] by (simp add: scan_number_def)

lemma scan_show_int:
  assumes "stops r"
  shows "scan_number (show_int i @ r) = Some (JInt i, r)"
proof -
  have "show_int i = (if i < 0 then ''-'' else []) @ show_nat (nat \<bar>i\<bar>)"
    by (simp add: show_int_def)
  then show ?thesis
    using scan_number_sign [of "i < 0" "nat \<bar>i\<bar>" r] stops_scan [OF assms] scan_signed [of r _ "nat \<bar>i\<bar>"]
    by simp
qed

definition frac_digits :: "nat \<Rightarrow> nat \<Rightarrow> string" where
  "frac_digits m k = map (\<lambda>i. digit_char (m div 10 ^ (k - Suc i) mod 10)) [0..<k]"

lemma frac_digits_Suc: "frac_digits m (Suc k) = frac_digits (m div 10) k @ [digit_char (m mod 10)]"
  by (auto simp: frac_digits_def Suc_diff_Suc div_mult2_eq [symmetric] simp flip: power_Suc
      intro!: map_cong)

lemma frac_digits_digits: "c \<in> set (frac_digits m k) \<Longrightarrow> is_dec_digit c"
  by (auto simp: frac_digits_def)

lemma dec_value_frac: "dec_value (show_nat (m div 10 ^ k) @ frac_digits m k) = m"
proof (induction k arbitrary: m)
  case 0
  then show ?case by (simp add: frac_digits_def)
next
  case (Suc k)
  have "dec_value (show_nat (m div 10 ^ Suc k) @ frac_digits m (Suc k)) =
      10 * dec_value (show_nat (m div 10 div 10 ^ k) @ frac_digits (m div 10) k) + m mod 10"
    using dec_value_snoc [of "show_nat (m div 10 div 10 ^ k) @ frac_digits (m div 10) k"]
    by (simp add: frac_digits_Suc div_mult2_eq)
  then show ?case by (simp add: Suc.IH)
qed

lemma make_float_norm: "norm_float n k \<Longrightarrow> make_float n k = JFloat n k"
  by (cases k) (auto simp: norm_float_def)

lemma scan_show_float:
  assumes "stops r" "norm_float n k"
  shows "scan_number (show_float n k @ r) = Some (JFloat n k, r)"
proof -
  let ?m = "nat \<bar>n\<bar>" let ?fs = "frac_digits ?m k"
  have k: "0 < k" using assms(2) by (auto simp: norm_float_def)
  then have ne: "?fs \<noteq> []" by (simp add: frac_digits_def)
  have "scan_frac (''.'' @ ?fs @ r) = (?fs, r)"
    using scan_digits [of ?fs r] stops_scan(1) [OF assms(1)] ne frac_digits_digits
    by (simp add: scan_frac_def)
  moreover have "takeWhile is_dec_digit (''.'' @ ?fs @ r) = []" by (simp add: is_dec_digit_def)
  ultimately have "scan_number ((if n < 0 then ''-'' else []) @ show_nat (?m div 10 ^ k) @ ''.'' @ ?fs @ r)
     = Some (scale_float ((if n < 0 then - 1 else 1) * int ?m) (length ?fs) 0, r)"
    using scan_number_sign [of "n < 0" "?m div 10 ^ k" "''.'' @ ?fs @ r"]
      scan_signed [of "''.'' @ ?fs @ r" _ "?m div 10 ^ k"] ne stops_scan(4) [OF assms(1)]
    by (simp add: dec_value_frac)
  moreover have "(if n < 0 then - 1 else 1) * int ?m = n" by simp
  moreover have "length ?fs = k" by (simp add: frac_digits_def)
  ultimately show ?thesis
    using k make_float_norm [OF assms(2)]
    by (simp add: show_float_def show_frac_def frac_digits_def scale_float_def)
qed

lemma digit_neq:
  assumes "is_dec_digit c"
  shows "c \<noteq> CHR ''n''" "c \<noteq> CHR ''t''" "c \<noteq> CHR ''f''" "c \<noteq> CHR ''N''" "c \<noteq> CHR ''I''"
    "c \<noteq> CHR ''-''" "c \<noteq> CHR 0x22" "c \<noteq> CHR ''[''" "c \<noteq> CHR ''{''"
  using assms by (auto simp: is_dec_digit_def)

lemma scan_literal_number:
  assumes "is_dec_digit c"
  shows "scan_literal (c # s) = scan_number (c # s)"
    "scan_literal (CHR ''-'' # c # s) = scan_number (CHR ''-'' # c # s)"
  using digit_neq [OF assms] by (simp_all add: scan_literal_def)

subsection \<open>Values\<close>

lemma skip_ws_simps [simp]:
  "skip_ws [] = []" "skip_ws (CHR '' '' # s) = skip_ws s"
  "c \<notin> {CHR '' '', CHR 0x09, CHR 0x0A, CHR 0x0D} \<Longrightarrow> skip_ws (c # s) = c # s"
  by (simp_all add: skip_ws_def)

text \<open>The first character of a printed value.\<close>

definition is_start :: "char \<Rightarrow> bool" where
  "is_start c \<longleftrightarrow> c \<notin> {CHR '' '', CHR 0x09, CHR 0x0A, CHR 0x0D, CHR '']'', CHR ''}'', CHR '',''}"

lemma digit_is_start: "is_dec_digit c \<Longrightarrow> is_start c"
  by (auto simp: is_start_def is_dec_digit_def)

lemma show_nat_start: "\<exists>c cs. show_nat n = c # cs \<and> is_start c"
  using show_nat_head digit_is_start by blast

lemma dumps_start: "\<exists>c cs. dumps v = c # cs \<and> is_start c"
proof (cases v)
  case (JInt i)
  then show ?thesis using show_nat_start by (auto simp: show_int_def is_start_def)
next
  case (JFloat n k)
  then show ?thesis
    using show_nat_start [of "nat \<bar>n\<bar> div 10 ^ k"]
    by (auto simp: show_float_def show_frac_def is_start_def)
next
  case (JList xs)
  then show ?thesis by (cases xs) (simp_all add: is_start_def)
next
  case (JObj m)
  then show ?thesis by (cases m) (auto simp: is_start_def)
qed (simp_all add: quote_def is_start_def)

lemma skip_ws_dumps [simp]: "skip_ws (dumps v @ r) = dumps v @ r"
  using dumps_start [of v] by (auto simp: is_start_def)

lemma update_fresh: "k \<notin> fst ` set m \<Longrightarrow> AList.update k v m = m @ [(k, v)]"
  by (induction m) auto

lemma dict_of_distinct: "distinct (map fst m) \<Longrightarrow> dict_of m = m"
proof -
  have "foldl (\<lambda>m (k, v). AList.update k v m) acc m = acc @ m"
    if "distinct (map fst (acc @ m))" for acc :: "(string \<times> 'a) list"
    using that
  proof (induction m arbitrary: acc)
    case (Cons kv m)
    obtain k v where kv: "kv = (k, v)" by fastforce
    with Cons.prems have "AList.update k v acc = acc @ [(k, v)]" by (intro update_fresh) auto
    with Cons.IH [of "acc @ [(k, v)]"] Cons.prems kv show ?case by simp
  qed simp
  from this [of "[]"] show "distinct (map fst m) \<Longrightarrow> dict_of m = m" by (simp add: dict_of_def)
qed

text \<open>How the scanner dispatches on the first character of a printed number.\<close>

lemma scan_value_show_int:
  assumes "stops r"
  shows "scan_value (Suc n) (show_int i @ r) = Some (JInt i, r)"
proof -
  obtain c cs where nat: "show_nat (nat \<bar>i\<bar>) = c # cs" "is_dec_digit c"
    using show_nat_head by blast
  then have "show_int i = (if i < 0 then [CHR ''-''] else []) @ c # cs"
    by (auto simp: show_int_def)
  then show ?thesis
    using scan_show_int [OF assms, of i] digit_neq [OF nat(2)] scan_literal_number [OF nat(2)]
    by (simp split: if_splits)
qed

lemma scan_value_show_float:
  assumes "stops r" "norm_float m k"
  shows "scan_value (Suc n) (show_float m k @ r) = Some (JFloat m k, r)"
proof -
  obtain c cs where nat: "show_nat (nat \<bar>m\<bar> div 10 ^ k) = c # cs" "is_dec_digit c"
    using show_nat_head by blast
  then obtain ds where "show_float m k = (if m < 0 then [CHR ''-''] else []) @ c # ds"
    by (simp add: show_float_def show_frac_def)
  then show ?thesis
    using scan_show_float [OF assms] digit_neq [OF nat(2)] scan_literal_number [OF nat(2)]
    by (simp split: if_splits)
qed

lemma dumps_tail_stops [simp]: "stops (dumps_tail xs @ r)" "stops (dumps_members m @ r)"
  by (cases xs; simp) (cases m; auto)

lemma drop_members: "dumps_members ((k, v) # m) = CHR '','' # CHR '' '' # drop 2 (dumps_members ((k, v) # m))"
  by simp

lemma scan_member_step:
  assumes v: "scan_value n (dumps v @ dumps_members m @ r) = Some (v, dumps_members m @ r)"
    and m: "m \<noteq> [] \<Longrightarrow> scan_member n (drop 2 (dumps_members m) @ r) = Some (m, r)"
  shows "scan_member (Suc n) (drop 2 (dumps_members ((k, v) # m)) @ r) = Some ((k, v) # m, r)"
proof -
  let ?rest = "'': '' @ dumps v @ dumps_members m @ r"
  obtain qs where q: "quote k = CHR 0x22 # qs" using scan_quote(1) by metis
  have str: "scan_string (length (quote k @ ?rest)) (qs @ ?rest) = Some (k, ?rest)"
    using scan_quote(2) [of k ?rest "length (quote k @ ?rest)"] q by simp
  show ?thesis
  proof (cases m)
    case Nil
    then show ?thesis using v str q by simp
  next
    case (Cons kv m')
    obtain k' v' where kv: "kv = (k', v')" by fastforce
    obtain qs' where "quote k' = CHR 0x22 # qs'" using scan_quote(1) by metis
    then show ?thesis using v str q m Cons kv by simp
  qed
qed

lemma scan_dumps:
  "wf_json v \<Longrightarrow> stops r \<Longrightarrow> length (dumps v) \<le> n \<Longrightarrow> scan_value n (dumps v @ r) = Some (v, r)"
  "list_all wf_json xs \<Longrightarrow> length (dumps_tail xs) \<le> n \<Longrightarrow>
     scan_tail n (dumps_tail xs @ r) = Some (xs, r)"
  "list_all (\<lambda>(k, v). wf_json v) m \<Longrightarrow> m \<noteq> [] \<Longrightarrow> length (dumps_members m) \<le> Suc n \<Longrightarrow>
     scan_member n (drop 2 (dumps_members m) @ r) = Some (m, r)"
proof (induction v and xs and m arbitrary: n r and n r and n r rule: dumps_dumps_tail_dumps_members.induct)
  case (3 i)
  then obtain n' where "n = Suc n'" by (cases n) (auto simp: show_int_def split: if_splits)
  with 3 show ?case by (simp add: scan_value_show_int del: scan_value.simps)
next
  case (4 f k)
  then obtain n' where "n = Suc n'" by (cases n) (auto simp: show_float_def show_frac_def)
  with 4 show ?case by (simp add: scan_value_show_float del: scan_value.simps)
next
  case (7 s)
  then obtain n' where "n = Suc n'" by (cases n) (auto simp: quote_def)
  then show ?case
    using scan_quote [of s] scan_quote(2) [of s r "Suc (length (tl (quote s) @ r))"]
    by (metis (no_types, lifting) Suc_eq_plus1 append_Cons apfst_conv dumps.simps(7) length_Cons option.map(2)
        order_refl scan_value.simps(3))
next
  case (9 x xs)
  then obtain n' where n: "n = Suc n'" "length (dumps x) \<le> n'" "length (dumps_tail xs) \<le> n'"
    by (cases n) auto
  moreover obtain c cs where "dumps x = c # cs" "c \<noteq> CHR '']''"
    using dumps_start [of x] by (auto simp: is_start_def)
  moreover have "skip_ws (dumps x @ dumps_tail xs @ r) = dumps x @ dumps_tail xs @ r" by simp
  ultimately show ?case using 9 by (simp add: Let_def)
next
  case (11 k v m)
  then obtain n' where n: "n = Suc n'" by (cases n) auto
  let ?t = "drop 2 (dumps_members ((k, v) # m))"
  have "scan_member n' (?t @ r) = Some ((k, v) # m, r)"
  proof -
    from 11 n obtain n'' where
      n'': "n' = Suc n''" "length (dumps v) \<le> n''" "length (dumps_members m) \<le> Suc n''"
      by (cases n') (auto simp: quote_def)
    show ?thesis
      unfolding n''(1) by (rule scan_member_step) (use 11 n'' in auto)
  qed
  moreover have "dumps (JObj ((k, v) # m)) = CHR ''{'' # ?t" by simp
  moreover have "skip_ws (?t @ r) = ?t @ r" "take 1 (?t @ r) \<noteq> ''}''"
    by (simp_all add: quote_def)
  moreover have "dict_of ((k, v) # m) = (k, v) # m"
    using 11(3) by (intro dict_of_distinct) simp
  ultimately show ?case by (simp add: n del: dumps.simps dumps_members.simps One_nat_def)
next
  case (13 x xs)
  then obtain n' where "n = Suc n'" "length (dumps x) \<le> n'" "length (dumps_tail xs) \<le> n'"
    by (cases n) auto
  with 13 show ?case by simp
next
  case (15 k v m)
  then obtain n' where
    n': "n = Suc n'" "length (dumps v) \<le> n'" "length (dumps_members m) \<le> Suc n'"
    by (cases n) (auto simp: quote_def)
  show ?case
    unfolding n'(1) by (rule scan_member_step) (use 15 n' in auto)
next
  case (1) then show ?case by (cases n) (auto simp: scan_literal_def)
next
  case (2 b) then show ?case by (cases n; cases b) (auto simp: scan_literal_def)
next
  case (5) then show ?case by (cases n) (auto simp: scan_literal_def)
next
  case (6 b) then show ?case by (cases n; cases b) (auto simp: scan_literal_def)
next
  case (8) then show ?case by (cases n) auto
next
  case (10) then show ?case by (cases n) auto
next
  case (12) then show ?case by (cases n) auto
qed simp

lemma loads_dumps: "wf_json v \<Longrightarrow> loads (dumps v) = Some v"
  using scan_dumps(1) [of v "[]" "Suc (length (dumps v))"] skip_ws_dumps [of v "[]"]
  by (simp add: loads_def)

end
