(* ===== verification/Py_Datetime.thy ===== *)
theory Py_Datetime
  imports Py_Text "HOL-Library.Product_Lexorder"
begin

text \<open>
  UTC \<open>datetime\<close> values of the Python standard library: their order (the one PostgreSQL uses on
  \<open>timestamptz\<close> too), \<open>isoformat()\<close>, and \<open>datetime.fromisoformat\<close> on text of that form.
  \<open>fromisoformat\<close> of newer Pythons reads more spellings; none of them is ever written here.
\<close>

datatype datetime = Datetime (year: nat) (month: nat) (day: nat) (hour: nat) (minute: nat)
  (second: nat) (microsecond: nat)

definition date_key :: "datetime \<Rightarrow> nat \<times> nat \<times> nat \<times> nat \<times> nat \<times> nat \<times> nat" where
  "date_key d = (year d, month d, day d, hour d, minute d, second d, microsecond d)"

lemma date_key_inj: "date_key d = date_key e \<Longrightarrow> d = e"
  by (cases d; cases e) (simp add: date_key_def)

instantiation datetime :: linorder
begin

definition less_eq_datetime :: "datetime \<Rightarrow> datetime \<Rightarrow> bool" where
  "less_eq_datetime d e \<longleftrightarrow> date_key d \<le> date_key e"

definition less_datetime :: "datetime \<Rightarrow> datetime \<Rightarrow> bool" where
  "less_datetime d e \<longleftrightarrow> date_key d < date_key e"

instance
proof
  fix d e :: datetime
  show "(d < e) = (d \<le> e \<and> \<not> e \<le> d)"
    unfolding less_datetime_def less_eq_datetime_def by (rule less_le_not_le)
  show "d \<le> e \<or> e \<le> d" unfolding less_eq_datetime_def by (rule linear)
  assume "d \<le> e" "e \<le> d"
  then show "d = e" unfolding less_eq_datetime_def by (intro date_key_inj) (rule order_antisym)
next
  fix d e f :: datetime
  show "d \<le> d" unfolding less_eq_datetime_def by (rule order_refl)
  assume "d \<le> e" "e \<le> f"
  then show "d \<le> f" unfolding less_eq_datetime_def by (rule order_trans)
qed

end

definition days_in_month :: "nat \<Rightarrow> nat \<Rightarrow> nat" where
  "days_in_month y m =
     (if m = 2 then (if y mod 4 = 0 \<and> (y mod 100 \<noteq> 0 \<or> y mod 400 = 0) then 29 else 28)
      else if m \<in> {4, 6, 9, 11} then 30 else 31)"

definition valid_date :: "datetime \<Rightarrow> bool" where
  "valid_date d \<longleftrightarrow> 1 \<le> year d \<and> year d \<le> 9999 \<and> 1 \<le> month d \<and> month d \<le> 12 \<and>
     1 \<le> day d \<and> day d \<le> days_in_month (year d) (month d) \<and> hour d < 24 \<and> minute d < 60 \<and> second d < 60 \<and>
     microsecond d < 1000000"

lemma days_in_month_le: "days_in_month y m \<le> 31"
  by (simp add: days_in_month_def)

section \<open>\<open>isoformat\<close> and \<open>fromisoformat\<close>\<close>

definition dec_string :: "nat \<Rightarrow> nat \<Rightarrow> string" where
  "dec_string w n = map (\<lambda>i. digit_char (n div 10 ^ (w - Suc i) mod 10)) [0..<w]"

definition isoformat :: "datetime \<Rightarrow> string" where
  "isoformat d =
     dec_string 4 (year d) @ ''-'' @ dec_string 2 (month d) @ ''-'' @ dec_string 2 (day d) @ ''T'' @
     dec_string 2 (hour d) @ '':'' @ dec_string 2 (minute d) @ '':'' @ dec_string 2 (second d) @
     (if microsecond d = 0 then [] else ''.'' @ dec_string 6 (microsecond d)) @ ''+00:00''"

text \<open>A field of \<open>w\<close> digits at position \<open>i\<close>; every other position must hold its separator.\<close>

definition field :: "nat \<Rightarrow> nat \<Rightarrow> string \<Rightarrow> nat option" where
  "field i w s =
     (let t = take w (drop i s) in
      if length t = w \<and> list_all is_dec_digit t then Some (dec_value t) else None)"

definition separators :: "string \<Rightarrow> bool" where
  "separators s \<longleftrightarrow> take 1 (drop 4 s) = ''-'' \<and> take 1 (drop 7 s) = ''-'' \<and> take 1 (drop 10 s) = ''T'' \<and>
     take 1 (drop 13 s) = '':'' \<and> take 1 (drop 16 s) = '':''"

definition fraction :: "string \<Rightarrow> nat option" where
  "fraction s =
     (if s = ''+00:00'' then Some 0
      else if take 1 s = ''.'' \<and> drop 7 s = ''+00:00'' then field 1 6 s else None)"

definition fromisoformat :: "string \<Rightarrow> datetime option" where
  "fromisoformat s =
     (if separators s then
        (case (field 0 4 s, field 5 2 s, field 8 2 s, field 11 2 s, field 14 2 s, field 17 2 s,
               fraction (drop 19 s)) of
           (Some y, Some mo, Some da, Some h, Some mi, Some se, Some us) \<Rightarrow>
             (let d = Datetime y mo da h mi se us in if valid_date d then Some d else None)
         | _ \<Rightarrow> None)
      else None)"

lemma length_dec_string [simp]: "length (dec_string w n) = w"
  by (simp add: dec_string_def)

lemma dec_string_Suc: "dec_string (Suc w) n = dec_string w (n div 10) @ [digit_char (n mod 10)]"
  by (auto simp: dec_string_def Suc_diff_Suc div_mult2_eq [symmetric] simp flip: power_Suc
      intro!: map_cong)

lemma dec_string_digits [simp]: "list_all is_dec_digit (dec_string w n)"
  by (auto simp: dec_string_def list_all_iff)

lemma dec_value_string: "dec_value (dec_string w n) = n mod 10 ^ w"
proof (induction w arbitrary: n)
  case 0
  then show ?case by (simp add: dec_string_def dec_value_def)
next
  case (Suc w)
  have "dec_value (dec_string (Suc w) n) = 10 * (n div 10 mod 10 ^ w) + n mod 10"
    using Suc.IH [of "n div 10"] by (simp add: dec_string_Suc)
  then show ?case by (simp add: mod_mult2_eq)
qed

lemma field_found:
  "length p = i \<Longrightarrow> n < 10 ^ w \<Longrightarrow> field i w (p @ dec_string w n @ s) = Some n"
  by (simp add: field_def Let_def dec_value_string)

lemma fromisoformat_isoformat [simp]:
  assumes "valid_date d"
  shows "fromisoformat (isoformat d) = Some d"
proof -
  obtain y mo da h mi se us where d: "d = Datetime y mo da h mi se us" by (cases d)
  have bounds: "y < 10 ^ 4" "mo < 10 ^ 2" "da < 10 ^ 2" "h < 10 ^ 2" "mi < 10 ^ 2" "se < 10 ^ 2"
    "us < 10 ^ 6"
    using assms days_in_month_le [of y mo] by (auto simp: d valid_date_def)
  let ?Y = "dec_string 4 y" let ?M = "dec_string 2 mo" let ?D = "dec_string 2 da"
  let ?h = "dec_string 2 h" let ?m = "dec_string 2 mi" let ?s = "dec_string 2 se"
  let ?f = "(if us = 0 then [] else ''.'' @ dec_string 6 us) @ ''+00:00''"
  let ?t = "isoformat d"
  have t: "?t = ?Y @ ''-'' @ ?M @ ''-'' @ ?D @ ''T'' @ ?h @ '':'' @ ?m @ '':'' @ ?s @ ?f"
    by (simp add: isoformat_def d)
  have fields: "field 0 4 ?t = Some y" "field 5 2 ?t = Some mo" "field 8 2 ?t = Some da"
    "field 11 2 ?t = Some h" "field 14 2 ?t = Some mi" "field 17 2 ?t = Some se"
    using bounds t
      field_found [of "[]" 0 y 4] field_found [of "?Y @ ''-''" 5 mo 2]
      field_found [of "?Y @ ''-'' @ ?M @ ''-''" 8 da 2]
      field_found [of "?Y @ ''-'' @ ?M @ ''-'' @ ?D @ ''T''" 11 h 2]
      field_found [of "?Y @ ''-'' @ ?M @ ''-'' @ ?D @ ''T'' @ ?h @ '':''" 14 mi 2]
      field_found [of "?Y @ ''-'' @ ?M @ ''-'' @ ?D @ ''T'' @ ?h @ '':'' @ ?m @ '':''" 17 se 2]
    by simp_all
  have "separators ?t" by (simp add: separators_def t)
  moreover have "fraction (drop 19 ?t) = Some us"
    using field_found [of "''.''" 1 us 6 "''+00:00''"] bounds(7) by (auto simp: t fraction_def)
  ultimately show ?thesis using fields assms by (simp add: fromisoformat_def d)
qed

end
