(* ===== verification/Database.thy ===== *)
theory Database
  imports Py_Uuid Py_Json Py_Datetime "HOL-Library.Multiset"
begin

text \<open>
  The tables of \<open>app/db/models.py\<close> and PostgreSQL behind an SQLAlchemy session, a parameter:
  \<open>database\<close> is the record of the statements the repository executes, \<open>dbstate\<close> what can be
  observed (the committed rows, the uncommitted writes of each session), the \<open>doc_\<close> functions
  what the documentation says of each statement under the default isolation level (read
  committed), and \<open>database_service\<close> the contract. \<open>mem_database\<close> meets it.
\<close>

section \<open>The tables\<close>

record notification =
  n_id :: nat
  n_notification_id :: uuid
  n_user_id :: uuid
  n_type :: string
  n_payload :: json
  n_created_at :: datetime
  n_delivered_live :: bool
  n_read_at :: "datetime option"

record delivery_log =
  dl_id :: nat
  dl_notification_id :: uuid
  dl_instance_id :: string
  dl_delivered_at :: datetime

record read_receipt =
  rr_id :: nat
  rr_notification_id :: uuid
  rr_user_id :: uuid
  rr_read_at :: datetime

section \<open>Statements\<close>

text \<open>The conditions of a \<open>where\<close> clause, the columns of a \<open>values\<close> clause of an update, an order.\<close>

datatype condition =
    NotificationIdIs uuid
  | UserIdIs uuid
  | ReadAtIsNull
  | CreatedBefore datetime

datatype assignment = SetDeliveredLive bool | SetReadAt datetime

datatype ordering = CreatedAsc | CreatedDesc

fun satisfies :: "notification \<Rightarrow> condition \<Rightarrow> bool" where
  "satisfies n (NotificationIdIs i) = (n_notification_id n = i)"
| "satisfies n (UserIdIs u) = (n_user_id n = u)"
| "satisfies n ReadAtIsNull = (n_read_at n = None)"
| "satisfies n (CreatedBefore t) = (n_created_at n < t)"

abbreviation matches :: "condition list \<Rightarrow> notification \<Rightarrow> bool" where
  "matches cs n \<equiv> list_all (satisfies n) cs"

fun assign :: "assignment \<Rightarrow> notification \<Rightarrow> notification" where
  "assign (SetDeliveredLive b) n = n\<lparr>n_delivered_live := b\<rparr>"
| "assign (SetReadAt t) n = n\<lparr>n_read_at := Some t\<rparr>"

text \<open>What a statement writes: new rows, and an assignment to the rows it found.\<close>

datatype db_write =
    AddNotification notification
  | AssignRows "nat list" assignment
  | AddReceipt read_receipt

type_synonym tables = "notification list \<times> read_receipt list"

fun apply_write :: "tables \<Rightarrow> db_write \<Rightarrow> tables" where
  "apply_write (ns, rs) (AddNotification n) = (ns @ [n], rs)"
| "apply_write (ns, rs) (AssignRows ids a) = (map (\<lambda>n. if n_id n \<in> set ids then assign a n else n) ns, rs)"
| "apply_write (ns, rs) (AddReceipt r) = (ns, rs @ [r])"

text \<open>
  \<open>scan\<close> is the order in which the planner happens to visit rows: SQL leaves the order of rows
  with equal keys open, so a sort is a stable sort of an unknown arrangement.
\<close>

record dbstate =
  notifications :: "notification list"
  receipts :: "read_receipt list"
  pending :: "nat \<Rightarrow> db_write list"
  db_now :: datetime
  next_row :: nat
  scan :: "notification list \<Rightarrow> notification list"
  scan_receipts :: "read_receipt list \<Rightarrow> read_receipt list"

definition visible :: "dbstate \<Rightarrow> nat \<Rightarrow> tables" where
  "visible s sid = foldl apply_write (notifications s, receipts s) (pending s sid)"

definition add_pending :: "nat \<Rightarrow> db_write \<Rightarrow> dbstate \<Rightarrow> dbstate" where
  "add_pending sid wr s = s\<lparr>pending := (pending s)(sid := pending s sid @ [wr])\<rparr>"

text \<open>Another session holds an uncommitted row with this id: an insert of it has to wait.\<close>

definition claimed :: "dbstate \<Rightarrow> nat \<Rightarrow> uuid \<Rightarrow> bool" where
  "claimed s sid i \<longleftrightarrow>
     (\<exists>other n. other \<noteq> sid \<and> AddNotification n \<in> set (pending s other) \<and> n_notification_id n = i)"

text \<open>
  \<open>INSERT INTO notifications ... ON CONFLICT (notification_id) DO NOTHING RETURNING *\<close>: the
  row inserted, or none when one is there already. \<open>created_at\<close> is the server's \<open>now()\<close>.
\<close>

definition doc_insert_notification ::
  "nat \<Rightarrow> uuid \<Rightarrow> uuid \<Rightarrow> string \<Rightarrow> json \<Rightarrow> dbstate \<Rightarrow> notification option option \<times> dbstate" where
  "doc_insert_notification sid i u ty pl s =
     (if list_ex (\<lambda>n. n_notification_id n = i) (fst (visible s sid)) then (Some None, s)
      else
        (let row = \<lparr>n_id = next_row s, n_notification_id = i, n_user_id = u, n_type = ty,
                    n_payload = pl, n_created_at = db_now s, n_delivered_live = False,
                    n_read_at = None\<rparr> in
         (Some (Some row), add_pending sid (AddNotification row) (s\<lparr>next_row := Suc (next_row s)\<rparr>))))"

definition doc_update_notifications ::
  "nat \<Rightarrow> condition list \<Rightarrow> assignment \<Rightarrow> dbstate \<Rightarrow> nat option \<times> dbstate" where
  "doc_update_notifications sid cs a s =
     (let ids = map n_id (filter (matches cs) (fst (visible s sid))) in
      (Some (length ids), add_pending sid (AssignRows ids a) s))"

definition sort_rows :: "ordering \<Rightarrow> notification list \<Rightarrow> notification list" where
  "sort_rows ord ns =
     (case ord of
        CreatedAsc \<Rightarrow> sort_key n_created_at ns
      | CreatedDesc \<Rightarrow> rev (sort_key n_created_at (rev ns)))"

text \<open>\<open>LIMIT\<close> refuses a negative number.\<close>

definition doc_select_notifications ::
  "nat \<Rightarrow> condition list \<Rightarrow> ordering \<Rightarrow> int \<Rightarrow> dbstate \<Rightarrow> notification list option \<times> dbstate" where
  "doc_select_notifications sid cs ord lim s =
     (if lim < 0 then None
      else Some (take (nat lim) (sort_rows ord (scan s (filter (matches cs) (fst (visible s sid)))))), s)"

definition doc_dispose :: "nat \<Rightarrow> dbstate \<Rightarrow> unit option \<times> dbstate" where
  "doc_dispose eng s = (Some (), s)"

definition doc_insert_receipt ::
  "nat \<Rightarrow> uuid \<Rightarrow> uuid \<Rightarrow> datetime \<Rightarrow> dbstate \<Rightarrow> unit option \<times> dbstate" where
  "doc_insert_receipt sid i u t s =
     (Some (), add_pending sid
        (AddReceipt \<lparr>rr_id = next_row s, rr_notification_id = i, rr_user_id = u, rr_read_at = t\<rparr>)
        (s\<lparr>next_row := Suc (next_row s)\<rparr>))"

definition doc_select_receipts :: "nat \<Rightarrow> uuid \<Rightarrow> dbstate \<Rightarrow> read_receipt list option \<times> dbstate" where
  "doc_select_receipts sid i s =
     (Some (sort_key rr_read_at (scan_receipts s
        (filter (\<lambda>r. rr_notification_id r = i) (snd (visible s sid))))), s)"

definition doc_select_one :: "nat \<Rightarrow> dbstate \<Rightarrow> unit option \<times> dbstate" where
  "doc_select_one sid s = (Some (), s)"

text \<open>A commit makes the writes of the session durable, all of them; closing a session drops
  what it has not committed.\<close>

definition doc_commit :: "nat \<Rightarrow> dbstate \<Rightarrow> unit option \<times> dbstate" where
  "doc_commit sid s =
     (Some (), s\<lparr>notifications := fst (visible s sid), receipts := snd (visible s sid),
                 pending := (pending s)(sid := [])\<rparr>)"

definition doc_close_session :: "nat \<Rightarrow> dbstate \<Rightarrow> unit option \<times> dbstate" where
  "doc_close_session sid s = (Some (), s\<lparr>pending := (pending s)(sid := [])\<rparr>)"

section \<open>The session's interface and its contract\<close>

record 'd database =
  db_insert_notification ::
    "nat \<Rightarrow> uuid \<Rightarrow> uuid \<Rightarrow> string \<Rightarrow> json \<Rightarrow> 'd \<Rightarrow> notification option option \<times> 'd"
  db_update_notifications :: "nat \<Rightarrow> condition list \<Rightarrow> assignment \<Rightarrow> 'd \<Rightarrow> nat option \<times> 'd"
  db_select_notifications ::
    "nat \<Rightarrow> condition list \<Rightarrow> ordering \<Rightarrow> int \<Rightarrow> 'd \<Rightarrow> notification list option \<times> 'd"
  db_insert_receipt :: "nat \<Rightarrow> uuid \<Rightarrow> uuid \<Rightarrow> datetime \<Rightarrow> 'd \<Rightarrow> unit option \<times> 'd"
  db_select_receipts :: "nat \<Rightarrow> uuid \<Rightarrow> 'd \<Rightarrow> read_receipt list option \<times> 'd"
  db_select_one :: "nat \<Rightarrow> 'd \<Rightarrow> unit option \<times> 'd"
  db_commit :: "nat \<Rightarrow> 'd \<Rightarrow> unit option \<times> 'd"
  db_dispose :: "nat \<Rightarrow> 'd \<Rightarrow> unit option \<times> 'd"
  db_close :: "nat \<Rightarrow> 'd \<Rightarrow> unit option \<times> 'd"
  db_view :: "'d \<Rightarrow> dbstate"
  db_up :: "'d \<Rightarrow> bool"

text \<open>
  While another session's uncommitted insert of the same id is pending, an insert waits, so the
  contract promises an answer only when the id is not \<open>claimed\<close>, and an insert that would have
  had to wait gives no answer and no row.
\<close>

locale database_service =
  fixes D :: "'d database"
  assumes insert_law:
      "realises (db_view D) (\<lambda>d. db_up D d \<and> \<not> claimed (db_view D d) sid i)
         (db_insert_notification D sid i u ty pl) (doc_insert_notification sid i u ty pl)"
    and insert_waits:
      "claimed (db_view D d) sid i \<Longrightarrow> fst (db_insert_notification D sid i u ty pl d) = None \<and>
         db_view D (snd (db_insert_notification D sid i u ty pl d)) = db_view D d"
    and update_law:
      "realises (db_view D) (db_up D) (db_update_notifications D sid cs a)
         (doc_update_notifications sid cs a)"
    and select_law:
      "realises (db_view D) (db_up D) (db_select_notifications D sid cs ord lim)
         (doc_select_notifications sid cs ord lim)"
    and receipt_law:
      "realises (db_view D) (db_up D) (db_insert_receipt D sid i u t) (doc_insert_receipt sid i u t)"
    and receipts_law:
      "realises (db_view D) (db_up D) (db_select_receipts D sid i) (doc_select_receipts sid i)"
    and one_law: "realises (db_view D) (db_up D) (db_select_one D sid) (doc_select_one sid)"
    and commit_law: "realises (db_view D) (db_up D) (db_commit D sid) (doc_commit sid)"
    and dispose_law: "realises (db_view D) (db_up D) (db_dispose D eng) (doc_dispose eng)"
    and session_law: "realises (db_view D) (db_up D) (db_close D sid) (doc_close_session sid)"
    and scan_law: "mset (scan (db_view D d) ns) = mset ns"
    and scan_receipts_law: "mset (scan_receipts (db_view D d) rs) = mset rs"
begin

lemmas db_up_simps =
  realises_up [OF update_law] realises_up [OF select_law] realises_up [OF receipt_law]
  realises_up [OF receipts_law] realises_up [OF one_law] realises_up [OF commit_law]
  realises_up [OF session_law] realises_up [OF dispose_law]

lemmas db_effects =
  realises_effect [OF insert_law] realises_effect [OF update_law] realises_effect [OF select_law]
  realises_effect [OF receipt_law] realises_effect [OF receipts_law] realises_effect [OF commit_law]
  realises_effect [OF session_law] realises_effect [OF dispose_law] realises_effect [OF one_law]

lemma insert_up:
  assumes "db_up D d" "\<not> claimed (db_view D d) sid i"
  shows "fst (db_insert_notification D sid i u ty pl d) = fst (doc_insert_notification sid i u ty pl (db_view D d))"
    "db_view D (snd (db_insert_notification D sid i u ty pl d))
       = snd (doc_insert_notification sid i u ty pl (db_view D d))"
    "db_up D (snd (db_insert_notification D sid i u ty pl d))"
  using realises_up [OF insert_law, of d sid i u ty pl] assms by auto

end

section \<open>Facts about the statements\<close>

lemma assign_keeps [simp]:
  "n_id (assign a n) = n_id n" "n_notification_id (assign a n) = n_notification_id n"
  "n_user_id (assign a n) = n_user_id n" "n_created_at (assign a n) = n_created_at n"
  by (cases a; simp)+

lemma visible_idle [simp]: "pending s sid = [] \<Longrightarrow> visible s sid = (notifications s, receipts s)"
  by (simp add: visible_def)

lemma visible_add_pending [simp]:
  "visible (add_pending sid wr s) sid = apply_write (visible s sid) wr"
  by (simp add: visible_def add_pending_def)

lemma mset_sort_rows [simp]: "mset (sort_rows ord ns) = mset ns"
  by (cases ord) (simp_all add: sort_rows_def)

lemma set_sort_rows [simp]: "set (sort_rows ord ns) = set ns"
  by (metis mset_sort_rows set_mset_mset)

lemma sorted_sort_rows:
  "sorted (map n_created_at (sort_rows CreatedAsc ns))"
  "sorted (rev (map n_created_at (sort_rows CreatedDesc ns)))"
  by (simp_all add: sort_rows_def flip: rev_map)

section \<open>A database that meets the contract\<close>

definition mem_insert ::
  "nat \<Rightarrow> uuid \<Rightarrow> uuid \<Rightarrow> string \<Rightarrow> json \<Rightarrow> dbstate \<Rightarrow> notification option option \<times> dbstate" where
  "mem_insert sid i u ty pl s =
     (if claimed s sid i then (None, s) else doc_insert_notification sid i u ty pl s)"

text \<open>It visits rows in the order they were inserted, and lets nobody wait: an insert that would
  have to wait fails instead (a lock timeout).\<close>

definition mem_view :: "dbstate \<Rightarrow> dbstate" where
  "mem_view s = s\<lparr>scan := (\<lambda>ns. ns), scan_receipts := (\<lambda>rs. rs)\<rparr>"

definition mem_database :: "dbstate database" where
  "mem_database =
     \<lparr>db_insert_notification = (\<lambda>sid i u ty pl s. mem_insert sid i u ty pl (mem_view s)),
      db_update_notifications = (\<lambda>sid cs a s. doc_update_notifications sid cs a (mem_view s)),
      db_select_notifications = (\<lambda>sid cs ord lim s. doc_select_notifications sid cs ord lim (mem_view s)),
      db_insert_receipt = (\<lambda>sid i u t s. doc_insert_receipt sid i u t (mem_view s)),
      db_select_receipts = (\<lambda>sid i s. doc_select_receipts sid i (mem_view s)),
      db_select_one = (\<lambda>sid s. doc_select_one sid (mem_view s)),
      db_commit = (\<lambda>sid s. doc_commit sid (mem_view s)),
      db_dispose = (\<lambda>eng s. doc_dispose eng (mem_view s)),
      db_close = (\<lambda>sid s. doc_close_session sid (mem_view s)),
      db_view = mem_view, db_up = (\<lambda>_. True)\<rparr>"

definition empty_db :: "datetime \<Rightarrow> dbstate" where
  "empty_db t = \<lparr>notifications = [], receipts = [], pending = (\<lambda>_. []), db_now = t, next_row = 1,
     scan = (\<lambda>ns. ns), scan_receipts = (\<lambda>rs. rs)\<rparr>"

lemma realises_view:
  assumes "\<And>s. view (snd (g (view s))) = snd (g (view s))"
  shows "realises view (\<lambda>_. True) (\<lambda>s. g (view s)) g"
  using assms by (auto simp: realises_def prod_eq_iff)

lemma mem_view_visible [simp]: "visible (mem_view s) sid = visible s sid"
  by (simp add: mem_view_def visible_def)

lemma claimed_add [simp]: "claimed (add_pending sid wr s) sid i = claimed s sid i"
  by (auto simp: claimed_def add_pending_def)

lemma claimed_next_row [simp]: "claimed (s\<lparr>next_row := n\<rparr>) sid i = claimed s sid i"
  by (simp add: claimed_def)

lemma claimed_mem_view [simp]: "claimed (mem_view s) sid i = claimed s sid i"
  by (simp add: claimed_def mem_view_def)

lemma claimed_insert [simp]:
  "claimed (snd (doc_insert_notification sid i u ty pl s)) sid j = claimed s sid j"
  by (simp add: doc_insert_notification_def Let_def)

lemma mem_view_fixed [simp]:
  "mem_view (mem_view s) = mem_view s"
  "mem_view (add_pending sid wr s) = add_pending sid wr (mem_view s)"
  "mem_view (s\<lparr>next_row := n\<rparr>) = (mem_view s)\<lparr>next_row := n\<rparr>"
  "mem_view (snd (doc_insert_notification sid i u ty pl (mem_view s)))
     = snd (doc_insert_notification sid i u ty pl (mem_view s))"
  by (simp_all add: mem_view_def add_pending_def doc_insert_notification_def Let_def)

lemma mem_view_docs [simp]:
  "mem_view (snd (doc_update_notifications sid cs a (mem_view s)))
     = snd (doc_update_notifications sid cs a (mem_view s))"
  "mem_view (snd (doc_select_notifications sid cs ord lim (mem_view s)))
     = snd (doc_select_notifications sid cs ord lim (mem_view s))"
  "mem_view (snd (doc_insert_receipt sid i u t (mem_view s)))
     = snd (doc_insert_receipt sid i u t (mem_view s))"
  "mem_view (snd (doc_select_receipts sid i (mem_view s))) = snd (doc_select_receipts sid i (mem_view s))"
  "mem_view (snd (doc_select_one sid (mem_view s))) = snd (doc_select_one sid (mem_view s))"
  "mem_view (snd (doc_commit sid (mem_view s))) = snd (doc_commit sid (mem_view s))"
  "mem_view (snd (doc_dispose eng (mem_view s))) = snd (doc_dispose eng (mem_view s))"
  "mem_view (snd (doc_close_session sid (mem_view s))) = snd (doc_close_session sid (mem_view s))"
  by (simp_all add: mem_view_def doc_update_notifications_def Let_def doc_select_notifications_def
      doc_insert_receipt_def doc_select_receipts_def doc_select_one_def doc_commit_def
      doc_close_session_def doc_dispose_def add_pending_def)

interpretation memdb: database_service mem_database
proof unfold_locales
  fix sid i u ty pl
  show "realises (db_view mem_database) (\<lambda>d. db_up mem_database d \<and> \<not> claimed (db_view mem_database d) sid i)
      (db_insert_notification mem_database sid i u ty pl) (doc_insert_notification sid i u ty pl)"
    by (auto simp: realises_def mem_database_def mem_insert_def prod_eq_iff split: if_splits)
next
  fix d sid i u ty pl
  assume "claimed (db_view mem_database d) sid i"
  then show "fst (db_insert_notification mem_database sid i u ty pl d) = None \<and>
      db_view mem_database (snd (db_insert_notification mem_database sid i u ty pl d)) = db_view mem_database d"
    by (simp add: mem_database_def mem_insert_def)
qed (simp_all add: mem_database_def realises_view, simp_all add: mem_view_def)

end
