(* ===== verification/Interleaving.thy ===== *)
theory Interleaving
  imports Prelude
begin

text \<open>
  Tasks that run concurrently in the event loops of the gateway processes. A task runs without
  interruption from one awaited call to the next (so \<open>Act\<close>s are never interrupted); at an
  awaited call any other task may run, a new one may start, or the task may be cancelled (before
  the call has its effect, or after it). \<open>safe\<close>
  is the condition under which a task, run among others, takes only steps of a given relation
  and ends as said; \<open>reachable\<close> is what a pool of tasks can reach.
\<close>

section \<open>Steps of a pool of tasks\<close>

text \<open>Running a task up to its next awaited call, or to its end.\<close>

primrec settle :: "('s, 'a) coro \<Rightarrow> 's \<Rightarrow> ('s, 'a) coro \<times> 's" where
  "settle (Return a) = (\<lambda>s. (Return a, s))"
| "settle (Raise e) = (\<lambda>s. (Raise e, s))"
| "settle (Act f) = (\<lambda>s. case map_prod settle id (f s) of (r, s') \<Rightarrow> r s')"
| "settle (Await f c) = (\<lambda>s. (Await f c, s))"

lemma settle_Act: "settle (Act f) s = (case f s of (p, s') \<Rightarrow> settle p s')"
  by (simp add: map_prod_def split: prod.splits)

declare settle.simps(3) [simp del]
declare settle_Act [simp]

text \<open>\<open>P\<close> are the tasks that may start at any time, as often as they like.\<close>

inductive pool_step ::
  "('s, 'a) coro set \<Rightarrow> ('s, 'a) coro list \<times> 's \<Rightarrow> ('s, 'a) coro list \<times> 's \<Rightarrow> bool"
  for P where
  start: "p \<in> P \<Longrightarrow> settle p s = (p', s') \<Longrightarrow> pool_step P (ps, s) (p' # ps, s')"
| resume: "n < length ps \<Longrightarrow> ps ! n = Await f c \<Longrightarrow> f s = (p, s1) \<Longrightarrow> settle p s1 = (p', s') \<Longrightarrow>
    pool_step P (ps, s) (ps[n := p'], s')"
| cancel_late: "n < length ps \<Longrightarrow> ps ! n = Await f c \<Longrightarrow> f s = (p, s1) \<Longrightarrow> settle c s1 = (p', s') \<Longrightarrow>
    pool_step P (ps, s) (ps[n := p'], s')"
| cancel: "n < length ps \<Longrightarrow> ps ! n = Await f c \<Longrightarrow> settle c s = (p', s') \<Longrightarrow>
    pool_step P (ps, s) (ps[n := p'], s')"

inductive reachable :: "('s, 'a) coro set \<Rightarrow> 's \<Rightarrow> ('s, 'a) coro list \<times> 's \<Rightarrow> bool"
  for P s0 where
  initial: "reachable P s0 ([], s0)"
| further: "reachable P s0 c \<Longrightarrow> pool_step P c c' \<Longrightarrow> reachable P s0 c'"

section \<open>Safe tasks\<close>

text \<open>
  \<open>safe rel p Q s\<close>: started in \<open>s\<close> among tasks that take only \<open>rel\<close>-steps, \<open>p\<close> takes only
  \<open>rel\<close>-steps, and if it ends with outcome \<open>r\<close> in state \<open>s'\<close> then \<open>Q r s'\<close>.
\<close>

primrec safe ::
  "('s \<Rightarrow> 's \<Rightarrow> bool) \<Rightarrow> ('s, 'a) coro \<Rightarrow> (exn + 'a \<Rightarrow> 's \<Rightarrow> bool) \<Rightarrow> 's \<Rightarrow> bool" where
  "safe rel (Return a) = (\<lambda>Q s. Q (Inr a) s)"
| "safe rel (Raise e) = (\<lambda>Q s. Q (Inl e) s)"
| "safe rel (Act f) =
     (\<lambda>Q s. rel s (snd (f s)) \<and> fst (map_prod (safe rel) id (f s)) Q (snd (f s)))"
| "safe rel (Await f c) =
     (\<lambda>Q s. \<forall>s'. rel s s' \<longrightarrow>
        rel s' (snd (f s')) \<and> fst (map_prod (safe rel) id (f s')) Q (snd (f s')) \<and>
        safe rel c Q s' \<and> safe rel c Q (snd (f s')))"

lemma safe_Act: "safe rel (Act f) Q s \<longleftrightarrow> rel s (snd (f s)) \<and> safe rel (fst (f s)) Q (snd (f s))"
  by simp

lemma safe_Await:
  "safe rel (Await f c) Q s \<longleftrightarrow>
     (\<forall>s'. rel s s' \<longrightarrow> rel s' (snd (f s')) \<and> safe rel (fst (f s')) Q (snd (f s')) \<and>
        safe rel c Q s' \<and> safe rel c Q (snd (f s')))"
  by simp

declare safe.simps(3,4) [simp del]
declare safe_Act [simp] safe_Await [simp]

lemma safe_mono:
  "safe rel p Q s \<Longrightarrow> (\<And>r s'. Q r s' \<Longrightarrow> Q' r s') \<Longrightarrow> safe rel p Q' s"
  by (induction p arbitrary: s rule: coro_induct) auto

lemma safe_sync [simp]:
  "safe rel (sync f) Q s \<longleftrightarrow> rel s (snd (f s)) \<and> Q (Inr (fst (f s))) (snd (f s))"
  by (simp add: sync_def split: prod.splits)

lemma safe_io [simp]:
  "safe rel (io e f) Q s \<longleftrightarrow>
     (\<forall>s'. rel s s' \<longrightarrow> rel s' (snd (f s')) \<and>
        Q (case fst (f s') of None \<Rightarrow> Inl e | Some a \<Rightarrow> Inr a) (snd (f s')) \<and>
        Q (Inl CancelledError) s' \<and> Q (Inl CancelledError) (snd (f s')))"
  by (simp add: io_def case_prod_unfold split: option.splits)

lemma safe_await [simp]:
  "safe rel (await p k) Q s \<longleftrightarrow>
     safe rel p (\<lambda>r s'. case r of Inl e \<Rightarrow> Q (Inl e) s' | Inr a \<Rightarrow> safe rel (k a) Q s') s"
  by (induction p arbitrary: s rule: coro_induct) simp_all

lemma safe_try_except [simp]:
  "safe rel (try_except p h) Q s \<longleftrightarrow>
     safe rel p (\<lambda>r s'. case r of
        Inl e \<Rightarrow> (case h e of None \<Rightarrow> Q (Inl e) s' | Some q \<Rightarrow> safe rel q Q s')
      | Inr a \<Rightarrow> Q (Inr a) s') s"
  by (induction p arbitrary: s rule: coro_induct) (simp_all split: option.splits)

lemma safe_try_finally [simp]:
  "safe rel (try_finally p q) Q s \<longleftrightarrow>
     safe rel p (\<lambda>r s'. safe rel q (\<lambda>r' s''. case r' of Inl e \<Rightarrow> Q (Inl e) s'' | Inr _ \<Rightarrow> Q r s'') s') s"
  by (induction p arbitrary: s rule: coro_induct) (simp_all split: sum.splits)

section \<open>Invariants of a pool of safe tasks\<close>

locale steps =
  fixes rel :: "'s \<Rightarrow> 's \<Rightarrow> bool"
  assumes refl [intro, simp]: "rel s s"
    and trans: "rel s s' \<Longrightarrow> rel s' s'' \<Longrightarrow> rel s s''"
begin

text \<open>Safety up to the next awaited call, and its stability there.\<close>

lemma safe_settle:
  "safe rel p Q s \<Longrightarrow> settle p s = (p', s') \<Longrightarrow> rel s s' \<and> safe rel p' Q s'"
proof (induction p arbitrary: s rule: coro_induct)
  case (Act f)
  obtain p1 s1 where f: "f s = (p1, s1)" by fastforce
  with Act.prems have "rel s s1" "safe rel p1 Q s1" "settle p1 s1 = (p', s')" by simp_all
  with Act.IH [of s s1] f trans show ?case by auto
qed auto

text \<open>A task that runs alone does one of the things it may do among others.\<close>

lemma safe_run: "safe rel p Q s \<Longrightarrow> rel s (snd (run p s)) \<and> Q (fst (run p s)) (snd (run p s))"
proof (induction p arbitrary: s rule: coro_induct)
  case (Act f)
  obtain p1 s1 where f: "f s = (p1, s1)" by fastforce
  with Act.prems have "rel s s1" "safe rel p1 Q s1" by simp_all
  with Act.IH [of s s1] f trans show ?case by auto
next
  case (Await f c)
  obtain p1 s1 where f: "f s = (p1, s1)" by fastforce
  with Await.prems have "rel s s1" "safe rel p1 Q s1" by (auto dest: spec [of _ s])
  with Await.IH(1) [of s s1] f trans show ?case by auto
qed simp_all

lemma safe_stable:
  "safe rel (Await f c) Q s \<Longrightarrow> rel s s' \<Longrightarrow> safe rel (Await f c) Q s'"
  using trans by (simp only: safe_Await) blast

text \<open>Every task of the pool that is waiting is safe in the present state.\<close>

definition pool_safe :: "('s, 'a) coro list \<Rightarrow> 's \<Rightarrow> bool" where
  "pool_safe ps s \<longleftrightarrow> (\<forall>p\<in>set ps. \<forall>f c. p = Await f c \<longrightarrow> safe rel p (\<lambda>_ _. True) s)"

lemma pool_safe_stable: "pool_safe ps s \<Longrightarrow> rel s s' \<Longrightarrow> pool_safe ps s'"
  unfolding pool_safe_def using safe_stable by blast

lemma pool_safe_update:
  assumes "pool_safe ps s" "rel s s'" "safe rel p (\<lambda>_ _. True) s'"
  shows "pool_safe (ps[n := p]) s'" "pool_safe (p # ps) s'"
  using pool_safe_stable [OF assms(1,2)] assms(3) set_update_subset_insert [of ps n p]
  by (auto simp: pool_safe_def)

lemma pool_safe_waiting:
  assumes "pool_safe ps s" "n < length ps" "ps ! n = Await f c" "f s = (p, s1)"
  shows "rel s s1" "safe rel p (\<lambda>_ _. True) s1" "safe rel c (\<lambda>_ _. True) s1" "safe rel c (\<lambda>_ _. True) s"
proof -
  have "safe rel (Await f c) (\<lambda>_ _. True) s"
    using assms(1-3) unfolding pool_safe_def by (metis nth_mem)
  then show "rel s s1" "safe rel p (\<lambda>_ _. True) s1" "safe rel c (\<lambda>_ _. True) s1" "safe rel c (\<lambda>_ _. True) s"
    using assms(4) by (auto dest: spec [of _ s])
qed

lemma pool_step_safe:
  assumes "pool_step P (ps, s) (ps', s')" "pool_safe ps s" "\<And>p. p \<in> P \<Longrightarrow> safe rel p (\<lambda>_ _. True) s"
  shows "rel s s' \<and> pool_safe ps' s'"
  using assms(1)
proof cases
  case (start p p')
  then show ?thesis using safe_settle assms(2,3) pool_safe_update(2) by metis
next
  case (resume n f c p s1 p')
  note now = pool_safe_waiting [OF assms(2) resume(2,3,4)]
  have "rel s1 s'" "safe rel p' (\<lambda>_ _. True) s'" using safe_settle [OF now(2) resume(5)] by auto
  then show ?thesis using now(1) resume(1) assms(2) trans pool_safe_update(1) by metis
next
  case (cancel_late n f c p s1 p')
  note now = pool_safe_waiting [OF assms(2) cancel_late(2,3,4)]
  have "rel s1 s'" "safe rel p' (\<lambda>_ _. True) s'" using safe_settle [OF now(3) cancel_late(5)] by auto
  then show ?thesis using now(1) cancel_late(1) assms(2) trans pool_safe_update(1) by metis
next
  case (cancel n f c p')
  note now = pool_safe_waiting [OF assms(2) cancel(2,3) prod.collapse [symmetric]]
  have "rel s s'" "safe rel p' (\<lambda>_ _. True) s'" using safe_settle [OF now(4) cancel(4)] by auto
  then show ?thesis using cancel(1) assms(2) pool_safe_update(1) by metis
qed

text \<open>
  What safe tasks reach, in any order, with any cancellations, is related to where they
  started.
\<close>

lemma reachable_rel:
  assumes "reachable P s0 (ps, s)" "\<And>p s. p \<in> P \<Longrightarrow> rel s0 s \<Longrightarrow> safe rel p (\<lambda>_ _. True) s"
  shows "rel s0 s"
proof -
  have "rel s0 (snd c) \<and> pool_safe (fst c) (snd c)" if "reachable P s0 c" for c
    using that
  proof induction
    case initial
    then show ?case by (simp add: pool_safe_def)
  next
    case (further c c')
    then show ?case
      using pool_step_safe [of P "fst c" "snd c" "fst c'" "snd c'"] assms(2) trans
      by (metis prod.collapse)
  qed
  from this [OF assms(1)] show ?thesis by simp
qed

end

section \<open>Tasks that obey a relation wherever they start\<close>

named_theorems obeys_rules \<open>tasks all of whose steps are in a relation\<close>

definition obeys :: "('s \<Rightarrow> 's \<Rightarrow> bool) \<Rightarrow> ('s, 'a) coro \<Rightarrow> bool" where
  "obeys rel p \<longleftrightarrow> (\<forall>s. safe rel p (\<lambda>_ _. True) s)"

lemma obeys_safe: "obeys rel p \<Longrightarrow> (\<And>r s'. Q r s') \<Longrightarrow> safe rel p Q s"
  unfolding obeys_def by (rule safe_mono [where Q = "\<lambda>_ _. True"]) simp_all

lemma obeys_Return [obeys_rules]: "obeys rel (Return a)"
  by (simp add: obeys_def)

lemma obeys_Raise [obeys_rules]: "obeys rel (Raise e)"
  by (simp add: obeys_def)

lemma obeys_await [obeys_rules]:
  "obeys rel p \<Longrightarrow> (\<And>a. obeys rel (k a)) \<Longrightarrow> obeys rel (await p k)"
  unfolding obeys_def [of _ "await p k"] safe_await
  by (intro allI obeys_safe) (auto simp: obeys_def split: sum.splits)

lemma obeys_try_except [obeys_rules]:
  "obeys rel p \<Longrightarrow> (\<And>e q. h e = Some q \<Longrightarrow> obeys rel q) \<Longrightarrow> obeys rel (try_except p h)"
  unfolding obeys_def [of _ "try_except p h"] safe_try_except
  by (intro allI obeys_safe) (auto simp: obeys_def split: sum.splits option.splits)

lemma obeys_try_finally [obeys_rules]:
  "obeys rel p \<Longrightarrow> obeys rel q \<Longrightarrow> obeys rel (try_finally p q)"
  unfolding obeys_def [of _ "try_finally p q"] safe_try_finally
  by (intro allI obeys_safe) (auto simp: obeys_def split: sum.splits elim: safe_mono)

lemma obeys_sync: "(\<And>s. rel s (snd (f s))) \<Longrightarrow> obeys rel (sync f)"
  by (simp add: obeys_def)

lemma obeys_io: "(\<And>s. rel s (snd (f s))) \<Longrightarrow> obeys rel (io e f)"
  by (simp add: obeys_def)

lemma obeys_suspend: "(\<And>s. rel s s) \<Longrightarrow> obeys rel suspend"
  unfolding suspend_def by (rule obeys_io) simp

lemma obeys_option [obeys_rules]:
  "(x = None \<Longrightarrow> obeys rel p) \<Longrightarrow> (\<And>a. x = Some a \<Longrightarrow> obeys rel (q a)) \<Longrightarrow>
     obeys rel (case x of None \<Rightarrow> p | Some a \<Rightarrow> q a)"
  by (cases x) simp_all

lemma obeys_if [obeys_rules]:
  "(b \<Longrightarrow> obeys rel p) \<Longrightarrow> (\<not> b \<Longrightarrow> obeys rel q) \<Longrightarrow> obeys rel (if b then p else q)"
  by simp

lemma except_Exception_Some: "except_Exception p e = Some q \<longleftrightarrow> is_Exception e \<and> q = p"
  by (auto simp: except_Exception_def)

lemma except_only_Some: "except_only x p e = Some q \<longleftrightarrow> e = x \<and> q = p"
  by (auto simp: except_only_def)

lemma obeys_run:
  assumes "steps rel" "obeys rel p"
  shows "rel s (snd (run p s))"
  using steps.safe_run [OF assms(1), of p "\<lambda>_ _. True" s] assms(2) by (simp add: obeys_def)

lemma obeys_reachable:
  assumes "steps rel" "reachable P s0 (ps, s)" "\<And>p. p \<in> P \<Longrightarrow> obeys rel p"
  shows "rel s0 s"
  using assms(3) by (intro steps.reachable_rel [OF assms(1,2)]) (simp add: obeys_def)

section \<open>Invariants\<close>

text \<open>Keeping an invariant is such a relation.\<close>

definition keeping :: "('s \<Rightarrow> bool) \<Rightarrow> 's \<Rightarrow> 's \<Rightarrow> bool" where
  "keeping I s s' \<longleftrightarrow> (I s \<longrightarrow> I s')"

interpretation keeping: steps "keeping I"
  by unfold_locales (auto simp: keeping_def)

lemma reachable_invariant:
  assumes "reachable P s0 (ps, s)" "I s0" "\<And>p s. p \<in> P \<Longrightarrow> I s \<Longrightarrow> safe (keeping I) p (\<lambda>_ _. True) s"
  shows "I s"
  using keeping.reachable_rel [OF assms(1), of I] assms(2,3) by (simp add: keeping_def)

end
