(* ===== verification/World.thy ===== *)
theory World
  imports Redis Database Interleaving
begin

text \<open>
  The state the whole program runs over: the three outside services, the memory of every
  gateway process, the clock and the source of randomness; the settings of \<open>app/config.py\<close> with
  their defaults; the counters of \<open>app/core/metrics.py\<close>; and how a component calls a service.
\<close>

section \<open>Settings\<close>

record settings =
  instance_id :: string
  db_pool_size :: int
  db_pool_max_overflow :: int
  db_pool_timeout_seconds :: int
  jwt_secret_key :: string
  jwt_algorithm :: string
  ws_ticket_ttl_seconds :: int
  presence_ttl_seconds :: int
  heartbeat_interval_seconds :: int
  instance_liveness_ttl_seconds :: int
  backlog_limit :: int
  rate_limit_messages :: int
  rate_limit_window_seconds :: int
  api_rate_limit_requests :: int
  api_rate_limit_window_seconds :: int
  idempotency_ttl_seconds :: int

definition default_settings :: settings where
  "default_settings =
     \<lparr>instance_id = ''instance-1'',
      db_pool_size = 10, db_pool_max_overflow = 20, db_pool_timeout_seconds = 5,
      jwt_secret_key = ''change-me-in-production'', jwt_algorithm = ''HS256'',
      ws_ticket_ttl_seconds = 10,
      presence_ttl_seconds = 30, heartbeat_interval_seconds = 15,
      instance_liveness_ttl_seconds = 15,
      backlog_limit = 100,
      rate_limit_messages = 50, rate_limit_window_seconds = 10,
      api_rate_limit_requests = 100, api_rate_limit_window_seconds = 10,
      idempotency_ttl_seconds = 300\<rparr>"

text \<open>What the lifetimes must be for Redis to accept them.\<close>

definition valid_settings :: "settings \<Rightarrow> bool" where
  "valid_settings cfg \<longleftrightarrow> 0 < ws_ticket_ttl_seconds cfg \<and> 0 < presence_ttl_seconds cfg \<and>
     0 < instance_liveness_ttl_seconds cfg \<and> 0 < rate_limit_window_seconds cfg \<and>
     0 < api_rate_limit_window_seconds cfg \<and> 0 < idempotency_ttl_seconds cfg \<and> 0 \<le> backlog_limit cfg"

lemma valid_default_settings [simp]: "valid_settings default_settings"
  by (simp add: valid_settings_def default_settings_def)

section \<open>WebSockets\<close>

text \<open>
  The server side of a WebSocket (Starlette's \<open>WebSocket\<close>), a parameter too. Observable of
  socket \<open>s\<close>: whether it was accepted, the close frame, and the JSON frames handed over.
\<close>

record wstate =
  accepted :: "nat \<Rightarrow> bool"
  close_frame :: "nat \<Rightarrow> (nat \<times> string) option"
  frames :: "nat \<Rightarrow> json list"

definition doc_accept :: "nat \<Rightarrow> wstate \<Rightarrow> unit option \<times> wstate" where
  "doc_accept x s = (Some (), s\<lparr>accepted := (accepted s)(x := True)\<rparr>)"

definition doc_close_socket :: "nat \<Rightarrow> nat \<Rightarrow> string \<Rightarrow> wstate \<Rightarrow> unit option \<times> wstate" where
  "doc_close_socket x code reason s =
     (Some (), s\<lparr>close_frame := (close_frame s)(x \<mapsto> (code, reason))\<rparr>)"

definition doc_send :: "nat \<Rightarrow> json \<Rightarrow> wstate \<Rightarrow> unit option \<times> wstate" where
  "doc_send x v s = (Some (), s\<lparr>frames := (frames s)(x := frames s x @ [v])\<rparr>)"

record 'w websockets =
  ws_accept :: "nat \<Rightarrow> 'w \<Rightarrow> unit option \<times> 'w"
  ws_close :: "nat \<Rightarrow> nat \<Rightarrow> string \<Rightarrow> 'w \<Rightarrow> unit option \<times> 'w"
  ws_send_json :: "nat \<Rightarrow> json \<Rightarrow> 'w \<Rightarrow> unit option \<times> 'w"
  ws_view :: "'w \<Rightarrow> wstate"
  ws_up :: "'w \<Rightarrow> nat \<Rightarrow> bool"

text \<open>
  \<open>ws_up w x\<close>: the peer of socket \<open>x\<close> is there and stays, so every call on \<open>x\<close> has its effect (\<open>peers\<close>: whether a
  peer stays is not changed by calls). Of any other socket nothing is known: each call on it may be answered or fail, in any order,
  as with a peer that goes away in between.
\<close>

locale websocket_service =
  fixes W :: "'w websockets"
  assumes accept_law: "realises (ws_view W) (\<lambda>w. ws_up W w x) (ws_accept W x) (doc_accept x)"
    and close_law: "realises (ws_view W) (\<lambda>w. ws_up W w x) (ws_close W x c m) (doc_close_socket x c m)"
    and send_law: "realises (ws_view W) (\<lambda>w. ws_up W w x) (ws_send_json W x v) (doc_send x v)"
    and peers: "ws_up W (snd (ws_accept W x w)) y = ws_up W w y"
      "ws_up W (snd (ws_close W x c m w)) y = ws_up W w y"
      "ws_up W (snd (ws_send_json W x v w)) y = ws_up W w y"
begin

lemmas ws_up_simps = realises_up(1,2) [OF accept_law] realises_up(1,2) [OF close_law]
  realises_up(1,2) [OF send_law] peers

lemma accepts: "ws_up W w x \<Longrightarrow> fst (ws_accept W x w) = Some ()"
  by (simp add: ws_up_simps doc_accept_def)

end

text \<open>A transport that meets the contract: its peers are a set that never changes.\<close>

definition mem_websockets :: "(wstate \<times> nat list) websockets" where
  "mem_websockets =
     \<lparr>ws_accept = (\<lambda>x (s, gone). if x \<in> set gone then (None, (s, gone))
         else (Some (), (snd (doc_accept x s), gone))),
      ws_close = (\<lambda>x c m (s, gone). if x \<in> set gone then (None, (s, gone))
         else (Some (), (snd (doc_close_socket x c m s), gone))),
      ws_send_json = (\<lambda>x v (s, gone). if x \<in> set gone then (None, (s, gone))
         else (Some (), (snd (doc_send x v s), gone))),
      ws_view = fst, ws_up = (\<lambda>(s, gone) x. x \<notin> set gone)\<rparr>"

definition empty_sockets :: wstate where
  "empty_sockets = \<lparr>accepted = (\<lambda>_. False), close_frame = (\<lambda>_. None), frames = (\<lambda>_. [])\<rparr>"

interpretation memws: websocket_service mem_websockets
  by unfold_locales
    (auto simp: mem_websockets_def realises_def doc_accept_def doc_close_socket_def doc_send_def
      split: prod.splits if_splits)

text \<open>One where every peer goes away once it is accepted.\<close>

definition leaving_websockets :: "(wstate \<times> nat list) websockets" where
  "leaving_websockets = mem_websockets
     \<lparr>ws_close := (\<lambda>x c m s. (None, s)), ws_send_json := (\<lambda>x v s. (None, s)), ws_up := (\<lambda>_ _. False)\<rparr>"

interpretation leaving: websocket_service leaving_websockets
  by unfold_locales
    (auto simp: leaving_websockets_def mem_websockets_def realises_def doc_accept_def split: prod.splits if_splits)

section \<open>A gateway process and the world\<close>

text \<open>
  One record of a log. Only the warning of the reconciliation loop and the line of the HTTP
  middleware (id, method, path, status, milliseconds) carry data anything depends on.
\<close>

datatype log_event =
    InstanceReady string
  | RegistryDrift string string "string option"
  | DeliveryFailed string
  | CloseFailed string
  | HandlerFailed
  | MalformedMessage
  | LivenessRefreshFailed
  | ReconciliationFailed
  | Disconnected string
  | RejectedMessage string
  | RequestServed string string string nat json

text \<open>
  The memory of a process: \<open>ConnectionManager._connections\<close>, the metrics, the module-level
  engine and session factory of \<open>app/db/connection.py\<close> (the factory as the engine it is bound
  to), and the log.
\<close>

record gateway =
  connections :: "(string \<times> nat) list"
  active_connections :: nat
  notifications_persisted_total :: nat
  notifications_delivered_live_total :: nat
  ws_messages_received_total :: "string \<Rightarrow> nat"
  rate_limited_total :: nat
  read_receipts_recorded_total :: nat
  delivery_latency_seconds :: "json list"
  engine :: "nat option"
  session_factory :: "nat option"
  log :: "log_event list"

definition new_gateway :: gateway where
  "new_gateway =
     \<lparr>connections = [], active_connections = 0, notifications_persisted_total = 0,
      notifications_delivered_live_total = 0, ws_messages_received_total = (\<lambda>_. 0),
      rate_limited_total = 0, read_receipts_recorded_total = 0, delivery_latency_seconds = [],
      engine = None, session_factory = None, log = []\<rparr>"

text \<open>
  \<open>w_now\<close> is what \<open>datetime.now(timezone.utc)\<close> returns, \<open>w_time\<close> what \<open>time.time()\<close> returns, in
  microseconds; \<open>w_token n\<close> and \<open>w_uuid4 n\<close> are the \<open>n\<close>-th draws of \<open>secrets.token_urlsafe(32)\<close>
  and \<open>uuid.uuid4()\<close>; \<open>w_fresh\<close> numbers sessions and engines. Of the clients under \<open>scripts/\<close> and \<open>load_tests/\<close>
  the world has the lines they have printed, the events they have reported to Locust, and how many frames the
  peer of a socket has read.
\<close>

record client_event =
  ce_request_type :: string
  ce_name :: string
  ce_response_time :: int
  ce_exception :: "exn option"

record ('r, 'd, 'w) world =
  w_redis :: 'r
  w_db :: 'd
  w_ws :: 'w
  w_gateway :: "string \<Rightarrow> gateway"
  w_now :: datetime
  w_time :: int
  w_token :: "nat \<Rightarrow> string"
  w_uuid4 :: "nat \<Rightarrow> uuid"
  w_draws :: nat
  w_fresh :: nat
  w_printed :: "string list"
  w_events :: "client_event list"
  w_taken :: "nat \<Rightarrow> nat"

type_synonym ('r, 'd, 'w, 'a) task = "(('r, 'd, 'w) world, 'a) coro"

definition redis_io :: "('r \<Rightarrow> 'a option \<times> 'r) \<Rightarrow> ('r, 'd, 'w, 'a) task" where
  "redis_io f = io RedisError (\<lambda>w. (fst (f (w_redis w)), w\<lparr>w_redis := snd (f (w_redis w))\<rparr>))"

definition db_io :: "('d \<Rightarrow> 'a option \<times> 'd) \<Rightarrow> ('r, 'd, 'w, 'a) task" where
  "db_io f = io DbError (\<lambda>w. (fst (f (w_db w)), w\<lparr>w_db := snd (f (w_db w))\<rparr>))"

definition ws_io :: "('w \<Rightarrow> 'a option \<times> 'w) \<Rightarrow> ('r, 'd, 'w, 'a) task" where
  "ws_io f = io TransportError (\<lambda>w. (fst (f (w_ws w)), w\<lparr>w_ws := snd (f (w_ws w))\<rparr>))"

lemma run_redis_io [simp, coro_simps]:
  "run (redis_io f) w =
     ((case fst (f (w_redis w)) of None \<Rightarrow> Inl RedisError | Some a \<Rightarrow> Inr a),
      w\<lparr>w_redis := snd (f (w_redis w))\<rparr>)"
  by (simp add: redis_io_def)

lemma run_db_io [simp, coro_simps]:
  "run (db_io f) w =
     ((case fst (f (w_db w)) of None \<Rightarrow> Inl DbError | Some a \<Rightarrow> Inr a), w\<lparr>w_db := snd (f (w_db w))\<rparr>)"
  by (simp add: db_io_def)

lemma run_ws_io [simp, coro_simps]:
  "run (ws_io f) w =
     ((case fst (f (w_ws w)) of None \<Rightarrow> Inl TransportError | Some a \<Rightarrow> Inr a),
      w\<lparr>w_ws := snd (f (w_ws w))\<rparr>)"
  by (simp add: ws_io_def)

text \<open>Reading and updating the memory of process \<open>i\<close>.\<close>

definition upd_gateway :: "string \<Rightarrow> (gateway \<Rightarrow> gateway) \<Rightarrow> ('r, 'd, 'w) world \<Rightarrow> ('r, 'd, 'w) world" where
  "upd_gateway i f w = w\<lparr>w_gateway := (w_gateway w)(i := f (w_gateway w i))\<rparr>"

definition in_gateway :: "string \<Rightarrow> (gateway \<Rightarrow> gateway) \<Rightarrow> ('r, 'd, 'w, unit) task" where
  "in_gateway i f = modify_state (upd_gateway i f)"

definition log_line :: "string \<Rightarrow> log_event \<Rightarrow> ('r, 'd, 'w, unit) task" where
  "log_line i ev = in_gateway i (\<lambda>g. g\<lparr>log := log g @ [ev]\<rparr>)"

definition fresh :: "('r, 'd, 'w, nat) task" where
  "fresh = sync (\<lambda>w. (w_fresh w, w\<lparr>w_fresh := Suc (w_fresh w)\<rparr>))"

lemma upd_gateway_simps [simp]:
  "w_redis (upd_gateway i f w) = w_redis w" "w_db (upd_gateway i f w) = w_db w"
  "w_ws (upd_gateway i f w) = w_ws w" "w_now (upd_gateway i f w) = w_now w"
  "w_time (upd_gateway i f w) = w_time w" "w_draws (upd_gateway i f w) = w_draws w"
  "w_token (upd_gateway i f w) = w_token w" "w_uuid4 (upd_gateway i f w) = w_uuid4 w"
  "w_fresh (upd_gateway i f w) = w_fresh w" "w_printed (upd_gateway i f w) = w_printed w"
  "w_events (upd_gateway i f w) = w_events w" "w_taken (upd_gateway i f w) = w_taken w"
  "w_gateway (upd_gateway i f w) i = f (w_gateway w i)"
  "j \<noteq> i \<Longrightarrow> w_gateway (upd_gateway i f w) j = w_gateway w j"
  by (simp_all add: upd_gateway_def)

lemma run_in_gateway [simp, coro_simps]:
  "run (in_gateway i f) w = (Inr (), upd_gateway i f w)"
  "run (log_line i ev) w = (Inr (), upd_gateway i (\<lambda>g. g\<lparr>log := log g @ [ev]\<rparr>) w)"
  by (simp_all add: in_gateway_def log_line_def)

lemma run_fresh [simp, coro_simps]: "run fresh w = (Inr (w_fresh w), w\<lparr>w_fresh := Suc (w_fresh w)\<rparr>)"
  by (simp add: fresh_def)

text \<open>Steps that only a part of the state matters to.\<close>

lemma obeys_redis_io: "(\<And>w. rel w (w\<lparr>w_redis := snd (f (w_redis w))\<rparr>)) \<Longrightarrow> obeys rel (redis_io f)"
  unfolding redis_io_def by (rule obeys_io) simp

lemma obeys_db_io: "(\<And>w. rel w (w\<lparr>w_db := snd (f (w_db w))\<rparr>)) \<Longrightarrow> obeys rel (db_io f)"
  unfolding db_io_def by (rule obeys_io) simp

lemma obeys_ws_io: "(\<And>w. rel w (w\<lparr>w_ws := snd (f (w_ws w))\<rparr>)) \<Longrightarrow> obeys rel (ws_io f)"
  unfolding ws_io_def by (rule obeys_io) simp

text \<open>A relation between what the database holds before and after.\<close>

definition on_data :: "'d database \<Rightarrow> (dbstate \<Rightarrow> dbstate \<Rightarrow> bool) \<Rightarrow> ('r, 'd, 'w) world \<Rightarrow> ('r, 'd, 'w) world \<Rightarrow> bool" where
  "on_data D rel w w' \<longleftrightarrow> w_db w' = w_db w \<or> rel (db_view D (w_db w)) (db_view D (w_db w'))"

lemma steps_on_data: "(\<And>s s' s''. rel s s' \<Longrightarrow> rel s' s'' \<Longrightarrow> rel s s'') \<Longrightarrow> steps (on_data D rel)"
  by unfold_locales (auto simp: on_data_def)

lemma obeys_on_data [obeys_rules]:
  "obeys (on_data D rel) (redis_io f)"
  "obeys (on_data D rel) (ws_io g)"
  "obeys (on_data D rel) (in_gateway i h)"
  "obeys (on_data D rel) (log_line i ev)"
  "obeys (on_data D rel) fresh"
  "obeys (on_data D rel) (read_state q)"
  "obeys (on_data D rel) suspend"
  by (auto simp: on_data_def in_gateway_def log_line_def fresh_def
      intro!: obeys_redis_io obeys_ws_io obeys_sync obeys_suspend)

lemma obeys_on_data_db:
  "(\<And>d. rel (db_view D d) (db_view D (snd (f d)))) \<Longrightarrow> obeys (on_data D rel) (db_io f)"
  by (rule obeys_db_io) (simp add: on_data_def)

text \<open>
  The passage of time, as Redis and \<open>time.time()\<close> see it. The clocks behind \<open>datetime.now\<close> (\<open>w_now\<close>) and of the
  database stand still while a task runs; statements about them hold for whatever they show.
\<close>

definition elapse :: "'r redis \<Rightarrow> nat \<Rightarrow> ('r, 'd, 'w) world \<Rightarrow> ('r, 'd, 'w) world" where
  "elapse R ms w = w\<lparr>w_redis := rd_wait R ms (w_redis w), w_time := w_time w + 1000 * int ms\<rparr>"

abbreviation store :: "'r redis \<Rightarrow> ('r, 'd, 'w) world \<Rightarrow> rstate" where
  "store R w \<equiv> rd_view R (w_redis w)"

abbreviation redis_up :: "'r redis \<Rightarrow> ('r, 'd, 'w) world \<Rightarrow> bool" where
  "redis_up R w \<equiv> rd_up R (w_redis w)"

abbreviation data :: "'d database \<Rightarrow> ('r, 'd, 'w) world \<Rightarrow> dbstate" where
  "data D w \<equiv> db_view D (w_db w)"

abbreviation wires :: "'w websockets \<Rightarrow> ('r, 'd, 'w) world \<Rightarrow> wstate" where
  "wires W w \<equiv> ws_view W (w_ws w)"

definition mem_world :: "datetime \<Rightarrow> (rstate, dbstate, wstate \<times> nat list) world" where
  "mem_world t =
     \<lparr>w_redis = empty_redis, w_db = empty_db t, w_ws = (empty_sockets, []),
      w_gateway = (\<lambda>_. new_gateway), w_now = t, w_time = 0,
      w_token = (\<lambda>n. ''t'' @ show_nat n), w_uuid4 = of_nat, w_draws = 0, w_fresh = 0,
      w_printed = [], w_events = [], w_taken = (\<lambda>_. 0)\<rparr>"

lemma mem_world_simps [simp]:
  "w_redis (mem_world t) = empty_redis" "w_db (mem_world t) = empty_db t"
  "w_ws (mem_world t) = (empty_sockets, [])" "w_gateway (mem_world t) i = new_gateway"
  "w_now (mem_world t) = t" "w_fresh (mem_world t) = 0" "w_draws (mem_world t) = 0"
  "w_time (mem_world t) = 0" "w_uuid4 (mem_world t) = of_nat" "w_printed (mem_world t) = []"
  "w_events (mem_world t) = []" "w_taken (mem_world t) x = 0"
  "entries empty_redis k = None" "subscribers empty_redis c = []" "deliveries empty_redis h = []"
  "connections new_gateway = []" "active_connections new_gateway = 0"
  "engine new_gateway = None" "session_factory new_gateway = None" "log new_gateway = []"
  by (simp_all add: mem_world_def empty_redis_def new_gateway_def)

lemma mem_websockets_simps [simp]:
  "ws_view mem_websockets = fst" "ws_up mem_websockets (s, gone) x \<longleftrightarrow> x \<notin> set gone"
  by (simp_all add: mem_websockets_def)

definition start_time :: datetime where
  "start_time = Datetime 2026 1 1 0 0 0 0"

lemma valid_start_time [simp]: "valid_date start_time"
  by (simp add: start_time_def valid_date_def days_in_month_def)

abbreviation start_world :: "(rstate, dbstate, wstate \<times> nat list) world" where
  "start_world \<equiv> mem_world start_time"

end
