(* ===== verification/Ticket_Auth.thy ===== *)
theory Ticket_Auth
  imports World
begin

text \<open>
  \<open>app/websocket/auth_handshake.py\<close>: the single-use ticket that a client exchanges its JWT for
  and then shows on the WebSocket upgrade.
\<close>

section \<open>The code\<close>

definition ticket_key :: "string \<Rightarrow> string" where
  "ticket_key ticket = ''ws_ticket:'' @ ticket"

text \<open>\<open>secrets.token_urlsafe(32)\<close>: the next draw.\<close>

definition token_urlsafe :: "('r, 'd, 'w, string) task" where
  "token_urlsafe = sync (\<lambda>w. (w_token w (w_draws w), w\<lparr>w_draws := Suc (w_draws w)\<rparr>))"

definition issue_ticket :: "'r redis \<Rightarrow> int \<Rightarrow> string \<Rightarrow> ('r, 'd, 'w, string) task" where
  "issue_ticket R ttl user_id =
     await token_urlsafe (\<lambda>ticket.
     await (redis_io (rd_set R (ticket_key ticket) user_id (Some ttl))) (\<lambda>_.
     Return ticket))"

definition redeem_ticket :: "'r redis \<Rightarrow> string \<Rightarrow> ('r, 'd, 'w, string option) task" where
  "redeem_ticket R ticket =
     await (redis_io (rd_getdel R (ticket_key ticket))) (\<lambda>user_id.
       case user_id of None \<Rightarrow> Return None | Some u \<Rightarrow> Return (Some u))"

lemma ticket_key_inj [simp]: "ticket_key s = ticket_key t \<longleftrightarrow> s = t"
  by (simp add: ticket_key_def)

section \<open>What each operation does\<close>

abbreviation ticket_entry :: "'r redis \<Rightarrow> ('r, 'd, 'w) world \<Rightarrow> string \<Rightarrow> (string \<times> nat option) option" where
  "ticket_entry R w t \<equiv> entries (store R w) (ticket_key t)"

context redis_service
begin

lemma run_issue_ticket:
  "redis_up R w \<Longrightarrow> 0 < ttl \<Longrightarrow> run (issue_ticket R ttl u) w =
     (Inr (w_token w (w_draws w)),
      w\<lparr>w_draws := Suc (w_draws w),
        w_redis := snd (rd_set R (ticket_key (w_token w (w_draws w))) u (Some ttl) (w_redis w))\<rparr>)"
  by (simp add: issue_ticket_def token_urlsafe_def up_simps redis_docs)

lemma run_redeem_ticket:
  "redis_up R w \<Longrightarrow> run (redeem_ticket R t) w =
     (Inr (map_option fst (ticket_entry R w t)),
      w\<lparr>w_redis := snd (rd_getdel R (ticket_key t) (w_redis w))\<rparr>)"
  by (auto simp: redeem_ticket_def up_simps redis_docs split: option.splits)

text \<open>Without assuming that Redis is up: only a live ticket is redeemed, and it is gone then.\<close>

lemma redeem_Some:
  assumes "run (redeem_ticket R t) w = (Inr (Some u), w')"
  shows "map_option fst (ticket_entry R w t) = Some u" "ticket_entry R w' t = None"
proof -
  from assms obtain x where x: "fst (rd_getdel R (ticket_key t) (w_redis w)) = Some x"
    and w': "w' = w\<lparr>w_redis := snd (rd_getdel R (ticket_key t) (w_redis w))\<rparr>" and "x = Some u"
    by (auto simp: redeem_ticket_def split: option.splits)
  with realises_Some [OF getdel_law x]
  show "map_option fst (ticket_entry R w t) = Some u" "ticket_entry R w' t = None"
    by (simp_all add: redis_docs)
qed

lemma redeem_gone:
  assumes "ticket_entry R w t = None"
  shows "fst (run (redeem_ticket R t) w) \<noteq> Inr (Some u)"
    "ticket_entry R (snd (run (redeem_ticket R t) w)) t = None"
proof -
  show "fst (run (redeem_ticket R t) w) \<noteq> Inr (Some u)"
    using redeem_Some(1) [of t w u] assms by (metis option.simps(3,8) prod.collapse)
  show "ticket_entry R (snd (run (redeem_ticket R t) w)) t = None"
    using realises_effect [OF getdel_law, of "ticket_key t" "w_redis w"] assms
    by (auto simp: redeem_ticket_def redis_docs split: option.splits)
qed

end

section \<open>Properties\<close>

text \<open>
  Any number of attempts on one ticket, at any times, Redis failing or not: the users the
  successful ones return.
\<close>

fun redeems :: "'r redis \<Rightarrow> string \<Rightarrow> nat list \<Rightarrow> ('r, 'd, 'w) world \<Rightarrow> string list" where
  "redeems R t [] w = []"
| "redeems R t (d # ds) w =
     (case run (redeem_ticket R t) (elapse R d w) of
        (Inr (Some u), w') \<Rightarrow> u # redeems R t ds w'
      | (_, w') \<Rightarrow> redeems R t ds w')"

context redis_service
begin

lemma elapse_gone: "ticket_entry R w t = None \<Longrightarrow> ticket_entry R (elapse R d w) t = None"
  by (simp add: elapse_def wait_law redis_docs)

lemma redeems_gone: "ticket_entry R w t = None \<Longrightarrow> redeems R t ds w = []"
proof (induction ds arbitrary: w)
  case (Cons d ds)
  have gone: "ticket_entry R (elapse R d w) t = None" using Cons.prems by (rule elapse_gone)
  obtain r w' where run: "run (redeem_ticket R t) (elapse R d w) = (r, w')" by fastforce
  have "ticket_entry R w' t = None" using redeem_gone(2) [OF gone] run by simp
  then have "redeems R t ds w' = []" by (rule Cons.IH)
  moreover have "r \<noteq> Inr (Some u)" for u using redeem_gone(1) [OF gone] run by simp
  ultimately show ?case using run by (auto split: sum.splits option.splits)
qed simp

lemma redeems_once: "length (redeems R t ds w) \<le> 1"
proof (induction ds arbitrary: w)
  case (Cons d ds)
  obtain r w' where run: "run (redeem_ticket R t) (elapse R d w) = (r, w')" by fastforce
  show ?case
  proof (cases "\<exists>u. r = Inr (Some u)")
    case True
    then have "redeems R t ds w' = []" using redeem_Some(2) run by (blast intro: redeems_gone)
    with run True show ?thesis by auto
  next
    case False
    with run Cons.IH [of w'] show ?thesis by (auto split: sum.splits option.splits)
  qed
qed simp

end

context redis_service
begin

lemma redeem_issued:
  assumes "redis_up R w" "0 < ttl" "run (issue_ticket R ttl u) w = (Inr t, w')"
  shows "fst (run (redeem_ticket R t) (elapse R d w')) = Inr (if d < 1000 * nat ttl then Some u else None)"
  using assms
  by (auto simp: run_issue_ticket run_redeem_ticket up_simps redis_docs elapse_def)

end

text \<open>
  C11. A ticket is accepted at most once, whatever the timing and whichever calls fail. (The witness redeems
  a ticket that was issued: the first attempt in its lifetime gets its user, no other does.)
\<close>

theorem ticket_single_use:
  assumes "redis_service R"
  shows "length (redeems R t ds w) \<le> 1"
  using assms by (rule redis_service.redeems_once)

theorem ticket_single_use_witness:
  "\<exists>t w. run (issue_ticket mem_redis 10 (uuid_str 7)) start_world = (Inr t, w) \<and>
     redeems mem_redis t [5000, 0, 2000] w = [uuid_str 7]"
proof -
  obtain t w where issued: "run (issue_ticket mem_redis 10 (uuid_str 7)) start_world = (Inr t, w)"
    using mem.run_issue_ticket [of start_world 10 "uuid_str 7"] by simp
  obtain w' where "run (redeem_ticket mem_redis t) (elapse mem_redis 5000 w) = (Inr (Some (uuid_str 7)), w')"
    using mem.redeem_issued [OF _ _ issued, of 5000] by (cases "run (redeem_ticket mem_redis t) (elapse mem_redis 5000 w)") simp
  moreover have "length (redeems mem_redis t [5000, 0, 2000] w) \<le> 1"
    by (rule ticket_single_use) (rule mem.redis_service_axioms)
  ultimately have "redeems mem_redis t [5000, 0, 2000] w = [uuid_str 7]"
    by (subst (asm) redeems.simps, subst redeems.simps) simp
  with issued show ?thesis by blast
qed

end
