(* ===== verification/Connection_Manager.thy ===== *)
theory Connection_Manager
  imports World
begin

text \<open>
  \<open>app/websocket/connection_manager.py\<close>: the sockets a gateway process holds, one per user, and
  the gauge that counts them. Process \<open>i\<close>'s manager is the field \<open>connections\<close> of its memory, an
  insertion-ordered dictionary.
\<close>

section \<open>The code\<close>

definition set_connections :: "(string \<times> nat) list \<Rightarrow> gateway \<Rightarrow> gateway" where
  "set_connections cs g = g\<lparr>connections := cs, active_connections := length cs\<rparr>"

definition add :: "string \<Rightarrow> string \<Rightarrow> nat \<Rightarrow> ('r, 'd, 'w, unit) task" where
  "add i user_id socket =
     in_gateway i (\<lambda>g. set_connections (AList.update user_id socket (connections g)) g)"

definition remove :: "string \<Rightarrow> string \<Rightarrow> ('r, 'd, 'w, unit) task" where
  "remove i user_id = in_gateway i (\<lambda>g. set_connections (AList.delete user_id (connections g)) g)"

definition get :: "string \<Rightarrow> string \<Rightarrow> ('r, 'd, 'w, nat option) task" where
  "get i user_id = read_state (\<lambda>w. map_of (connections (w_gateway w i)) user_id)"

definition is_connected :: "string \<Rightarrow> string \<Rightarrow> ('r, 'd, 'w, bool) task" where
  "is_connected i user_id = read_state (\<lambda>w. user_id \<in> fst ` set (connections (w_gateway w i)))"

definition connected_user_ids :: "string \<Rightarrow> ('r, 'd, 'w, string list) task" where
  "connected_user_ids i = read_state (\<lambda>w. map fst (connections (w_gateway w i)))"

definition active_connection_count :: "string \<Rightarrow> ('r, 'd, 'w, nat) task" where
  "active_connection_count i = read_state (\<lambda>w. length (connections (w_gateway w i)))"

definition send_json :: "'w websockets \<Rightarrow> string \<Rightarrow> string \<Rightarrow> json \<Rightarrow> ('r, 'd, 'w, bool) task" where
  "send_json W i user_id message =
     await (get i user_id) (\<lambda>socket.
       case socket of
         None \<Rightarrow> Return False
       | Some x \<Rightarrow>
           try_except (await (ws_io (ws_send_json W x message)) (\<lambda>_. Return True))
             (except_Exception
               (await (log_line i (DeliveryFailed user_id)) (\<lambda>_.
                await (remove i user_id) (\<lambda>_.
                Return False)))))"

text \<open>\<open>self._connections.pop(user_id, None)\<close>: the gauge is not touched here.\<close>

definition pop_connection :: "string \<Rightarrow> string \<Rightarrow> ('r, 'd, 'w, nat option) task" where
  "pop_connection i user_id =
     sync (\<lambda>w. (map_of (connections (w_gateway w i)) user_id,
       upd_gateway i (\<lambda>g. g\<lparr>connections := AList.delete user_id (connections g)\<rparr>) w))"

primrec close_each :: "'w websockets \<Rightarrow> string \<Rightarrow> nat \<Rightarrow> string \<Rightarrow> string list \<Rightarrow> ('r, 'd, 'w, unit) task" where
  "close_each W i code reason [] = Return ()"
| "close_each W i code reason (user_id # user_ids) =
     await (pop_connection i user_id) (\<lambda>socket.
       case socket of
         None \<Rightarrow> close_each W i code reason user_ids
       | Some x \<Rightarrow>
           await (try_except (ws_io (ws_close W x code reason))
                   (except_Exception (log_line i (CloseFailed user_id)))) (\<lambda>_.
           close_each W i code reason user_ids))"

definition close_all :: "'w websockets \<Rightarrow> string \<Rightarrow> nat \<Rightarrow> string \<Rightarrow> ('r, 'd, 'w, string list) task" where
  "close_all W i code reason =
     await (connected_user_ids i) (\<lambda>user_ids.
     await (close_each W i code reason user_ids) (\<lambda>_.
     await (in_gateway i (\<lambda>g. g\<lparr>active_connections := length (connections g)\<rparr>)) (\<lambda>_.
     Return user_ids)))"

section \<open>The invariant\<close>

text \<open>One socket per user, and the gauge is their number.\<close>

definition manager_ok :: "gateway \<Rightarrow> bool" where
  "manager_ok g \<longleftrightarrow> distinct (map fst (connections g)) \<and> active_connections g = length (connections g)"

abbreviation socket_of :: "('r, 'd, 'w) world \<Rightarrow> string \<Rightarrow> string \<Rightarrow> nat option" where
  "socket_of w i u \<equiv> map_of (connections (w_gateway w i)) u"

lemma manager_ok_new [simp]: "manager_ok new_gateway"
  by (simp add: manager_ok_def new_gateway_def)

lemma manager_ok_set [simp]:
  "manager_ok (set_connections cs g) \<longleftrightarrow> distinct (map fst cs)"
  "connections (set_connections cs g) = cs"
  "manager_ok (g\<lparr>log := l\<rparr>) = manager_ok g"
  by (simp_all add: manager_ok_def set_connections_def)

lemma manager_ok_steps [simp]:
  "manager_ok g \<Longrightarrow> distinct (map fst (AList.update u x (connections g)))"
  "manager_ok g \<Longrightarrow> distinct (map fst (AList.delete u (connections g)))"
  by (simp_all add: manager_ok_def distinct_update distinct_delete)

text \<open>
  While \<open>close_all\<close> is at it, or when it is cancelled, the gauge is behind: it counts sockets that are
  closed already. It never counts too few.
\<close>

definition process_ok :: "gateway \<Rightarrow> bool" where
  "process_ok g \<longleftrightarrow> distinct (map fst (connections g)) \<and> length (connections g) \<le> active_connections g"

definition keeps_process :: "(gateway \<Rightarrow> gateway) \<Rightarrow> bool" where
  "keeps_process f \<longleftrightarrow> (\<forall>g. process_ok g \<longrightarrow> process_ok (f g))"

lemma keeps_process_rest [simp]:
  "(\<And>g. connections (f g) = connections g) \<Longrightarrow> (\<And>g. active_connections (f g) = active_connections g) \<Longrightarrow> keeps_process f"
  by (simp add: keeps_process_def process_ok_def)

lemma keeps_process_manager [simp]:
  "keeps_process (\<lambda>g. set_connections (AList.update u x (connections g)) g)"
  "keeps_process (\<lambda>g. set_connections (AList.delete u (connections g)) g)"
  "keeps_process (\<lambda>g. g\<lparr>connections := AList.delete u (connections g)\<rparr>)"
  "keeps_process (\<lambda>g. g\<lparr>active_connections := length (connections g)\<rparr>)"
  by (auto simp: keeps_process_def process_ok_def set_connections_def distinct_update distinct_delete
      intro: le_trans [OF AList.length_delete_le])

lemma run_manager [simp, coro_simps]:
  "run (add i u x) w =
     (Inr (), upd_gateway i (\<lambda>g. set_connections (AList.update u x (connections g)) g) w)"
  "run (remove i u) w =
     (Inr (), upd_gateway i (\<lambda>g. set_connections (AList.delete u (connections g)) g) w)"
  "run (get i u) w = (Inr (socket_of w i u), w)"
  "run (is_connected i u) w = (Inr (socket_of w i u \<noteq> None), w)"
  "run (connected_user_ids i) w = (Inr (map fst (connections (w_gateway w i))), w)"
  "run (active_connection_count i) w = (Inr (length (connections (w_gateway w i))), w)"
  "run (pop_connection i u) w =
     (Inr (socket_of w i u), upd_gateway i (\<lambda>g. g\<lparr>connections := AList.delete u (connections g)\<rparr>) w)"
  by (auto simp: add_def remove_def get_def is_connected_def connected_user_ids_def
      active_connection_count_def pop_connection_def map_of_eq_None_iff)

text \<open>What \<open>send_json\<close> does, for each answer of the transport.\<close>

definition dropped :: "string \<Rightarrow> string \<Rightarrow> gateway \<Rightarrow> gateway" where
  "dropped i u g = set_connections (AList.delete u (connections g)) (g\<lparr>log := log g @ [DeliveryFailed u]\<rparr>)"

lemma upd_gateway_twice [simp]: "upd_gateway i f (upd_gateway i g w) = upd_gateway i (\<lambda>x. f (g x)) w"
  by (simp add: upd_gateway_def)

lemma run_send_json:
  "run (send_json W i u m) w =
     (case socket_of w i u of
        None \<Rightarrow> (Inr False, w)
      | Some x \<Rightarrow>
          (case fst (ws_send_json W x m (w_ws w)) of
             Some _ \<Rightarrow> (Inr True, w\<lparr>w_ws := snd (ws_send_json W x m (w_ws w))\<rparr>)
           | None \<Rightarrow>
               (Inr False, upd_gateway i (dropped i u) (w\<lparr>w_ws := snd (ws_send_json W x m (w_ws w))\<rparr>))))"
  by (simp add: send_json_def except_Exception_def dropped_def[abs_def] upd_gateway_def split: option.splits)

lemma manager_ok_dropped [simp]: "manager_ok g \<Longrightarrow> manager_ok (dropped i u g)"
  by (simp add: dropped_def)

section \<open>Closing all\<close>

text \<open>What is left of the dictionary and of the transport after closing some users' sockets.\<close>

lemma run_close_each_gateway:
  "fst (run (close_each W i c m us) w) = Inr () \<and>
   connections (w_gateway (snd (run (close_each W i c m us) w)) i) = fold AList.delete us (connections (w_gateway w i)) \<and>
   (\<forall>j. j \<noteq> i \<longrightarrow> w_gateway (snd (run (close_each W i c m us) w)) j = w_gateway w j) \<and>
   w_redis (snd (run (close_each W i c m us) w)) = w_redis w \<and>
   w_db (snd (run (close_each W i c m us) w)) = w_db w"
proof (induction us arbitrary: w)
  case (Cons u us)
  then show ?case
    by (auto simp: except_Exception_def split: option.splits)
qed simp

lemma in_fold_delete: "p \<in> set (fold AList.delete us cs) \<Longrightarrow> p \<in> set cs \<and> fst p \<notin> set us"
proof (induction us arbitrary: cs)
  case (Cons u us)
  from Cons.IH [OF Cons.prems [simplified]] show ?case by (auto simp: AList.delete_eq)
qed simp

lemma fold_delete_all: "fst ` set cs \<subseteq> set us \<Longrightarrow> fold AList.delete us cs = []"
  using in_fold_delete [of _ us cs] by (cases "fold AList.delete us cs") fastforce+

text \<open>All the connections are given up, whatever the transport answers.\<close>

lemma run_close_all:
  "fst (run (close_all W i c m) w) = Inr (map fst (connections (w_gateway w i)))"
  "connections (w_gateway (snd (run (close_all W i c m) w)) i) = []"
  "active_connections (w_gateway (snd (run (close_all W i c m) w)) i) = 0"
  "j \<noteq> i \<Longrightarrow> w_gateway (snd (run (close_all W i c m) w)) j = w_gateway w j"
  "w_redis (snd (run (close_all W i c m) w)) = w_redis w"
  "w_db (snd (run (close_all W i c m) w)) = w_db w"
  using run_close_each_gateway [of W i c m "map fst (connections (w_gateway w i))" w]
  by (auto simp: close_all_def fold_delete_all case_prod_unfold split: sum.splits)

text \<open>Every socket whose peer is still there gets the close frame, whatever happens to the others.\<close>

context websocket_service
begin

lemma closes_sent:
  assumes "\<forall>x\<in>X. close_frame (wires W w) x = Some (c, m)"
  shows "\<forall>x\<in>X. close_frame (wires W (snd (run (close_each W i c m us) w))) x = Some (c, m)"
  using assms
proof (induction us arbitrary: w)
  case (Cons u us)
  have kept: "\<forall>y\<in>X. close_frame (ws_view W (snd (ws_close W x c m (w_ws w)))) y = Some (c, m)" for x
    using Cons.prems realises_effect [OF close_law, of x c m "w_ws w"] by (auto simp: doc_close_socket_def)
  show ?case
    using kept Cons.prems by (auto simp: except_Exception_def Cons.IH split: option.splits)
qed simp

lemma close_each_reaches:
  assumes "map_of (connections (w_gateway w i)) u = Some x" "u \<in> set us" "ws_up W (w_ws w) x"
  shows "close_frame (wires W (snd (run (close_each W i c m us) w))) x = Some (c, m)"
  using assms
proof (induction us arbitrary: w)
  case (Cons v us)
  show ?case
  proof (cases "u = v")
    case True
    with Cons.prems show ?thesis
      by (auto simp: except_Exception_def ws_up_simps doc_close_socket_def
          intro!: closes_sent [of "{x}", simplified] split: option.splits)
  next
    case False
    then have "u \<in> set us" using Cons.prems(2) by simp
    with Cons.prems False show ?thesis
      by (auto simp: except_Exception_def ws_up_simps peers delete_conv' intro!: Cons.IH split: option.splits)
  qed
qed simp

lemma close_all_reaches:
  assumes "map_of (connections (w_gateway w i)) u = Some x" "ws_up W (w_ws w) x"
  shows "close_frame (wires W (snd (run (close_all W i c m) w))) x = Some (c, m)"
  using close_each_reaches [OF assms(1) _ assms(2), of "map fst (connections (w_gateway w i))" c m]
    run_close_each_gateway [of W i c m "map fst (connections (w_gateway w i))" w] assms(1)
  by (auto simp: close_all_def case_prod_unfold rev_image_eqI dest!: map_of_SomeD split: sum.splits)

end

section \<open>Properties\<close>

datatype manager_op = Add string nat | Remove string | Send string json | CloseAll nat string

fun manager_step :: "'w websockets \<Rightarrow> string \<Rightarrow> manager_op \<Rightarrow> ('r, 'd, 'w) world \<Rightarrow> ('r, 'd, 'w) world" where
  "manager_step W i (Add u x) w = snd (run (add i u x) w)"
| "manager_step W i (Remove u) w = snd (run (remove i u) w)"
| "manager_step W i (Send u m) w = snd (run (send_json W i u m) w)"
| "manager_step W i (CloseAll c m) w = snd (run (close_all W i c m) w)"

lemma manager_step_ok:
  "manager_ok (w_gateway w i) \<Longrightarrow> manager_ok (w_gateway (manager_step W i oper w) i)"
  by (cases oper) (auto simp: run_send_json run_close_all manager_ok_def [of "w_gateway (snd (run (close_all _ _ _ _) _)) _"]
      split: option.splits)

lemma manager_step_others: "j \<noteq> i \<Longrightarrow> w_gateway (manager_step W i oper w) j = w_gateway w j"
  by (cases oper) (auto simp: run_send_json run_close_all split: option.splits)

text \<open>
  Whatever sequence of operations a process performs and whatever the transport answers, it
  holds one socket per user, the gauge is the number of sockets held, and no other process's
  memory is touched.
\<close>

theorem connection_gauge_invariant:
  assumes "manager_ok (w_gateway w i)"
  shows "manager_ok (w_gateway (fold (manager_step W i) ops w) i) \<and>
    (\<forall>j. j \<noteq> i \<longrightarrow> w_gateway (fold (manager_step W i) ops w) j = w_gateway w j)"
  using assms by (induction ops arbitrary: w) (simp_all add: manager_step_ok manager_step_others)

theorem connection_gauge_invariant_witness:
  "active_connections (w_gateway (fold (manager_step mem_websockets ''i1'')
     [Add ''a'' 1, Add ''b'' 2, Add ''a'' 3, Remove ''c'', Send ''b'' JNull] start_world) ''i1'') = 2"
proof -
  let ?w = "fold (manager_step mem_websockets ''i1'')
     [Add ''a'' 1, Add ''b'' 2, Add ''a'' 3, Remove ''c'', Send ''b'' JNull] start_world"
  have "manager_ok (w_gateway ?w ''i1'')"
    by (rule conjunct1 [OF connection_gauge_invariant]) simp
  moreover have "length (connections (w_gateway ?w ''i1'')) = 2"
    by (simp add: run_send_json mem_websockets_def)
  ultimately show ?thesis by (simp only: manager_ok_def)
qed

context websocket_service
begin

lemma send_json_cases:
  assumes "manager_ok (w_gateway w i)" "run (send_json W i u m) w = (Inr b, w')"
  shows "b \<longleftrightarrow> socket_of w' i u \<noteq> None"
    "b \<Longrightarrow> \<exists>x. socket_of w i u = Some x \<and> w_gateway w' = w_gateway w \<and>
       wires W w' = snd (doc_send x m (wires W w))"
    "(\<And>x. socket_of w i u = Some x \<Longrightarrow> ws_up W (w_ws w) x) \<Longrightarrow> b \<longleftrightarrow> socket_of w i u \<noteq> None"
  using assms realises_Some [OF send_law, of _ m "w_ws w"]
  by (auto simp: run_send_json dropped_def delete_conv' doc_send_def ws_up_simps split: option.splits)

end

text \<open>
  C23. \<open>send_json\<close> always returns, and returns true exactly when the user still has a socket here
  afterwards; then the frame was handed over once, to the user's socket, and no other frame was
  handed over and nothing changed in the memory of any process. A user with a socket whose peer is there is always served; a failed socket is dropped.
\<close>

theorem send_json_outcome:
  assumes "websocket_service W" "manager_ok (w_gateway w i)"
  shows "\<exists>b w'. run (send_json W i u m) w = (Inr b, w') \<and> (b \<longleftrightarrow> socket_of w' i u \<noteq> None) \<and>
    (b \<longrightarrow> (\<exists>x. socket_of w i u = Some x \<and> w_gateway w' = w_gateway w \<and>
        frames (wires W w') = (frames (wires W w))(x := frames (wires W w) x @ [m]))) \<and>
    ((\<forall>x. socket_of w i u = Some x \<longrightarrow> ws_up W (w_ws w) x) \<longrightarrow> (b \<longleftrightarrow> socket_of w i u \<noteq> None))"
proof -
  obtain b w' where run: "run (send_json W i u m) w = (Inr b, w')"
    by (cases "run (send_json W i u m) w") (auto simp: run_send_json split: option.splits)
  show ?thesis
    using websocket_service.send_json_cases [OF assms run] run by (auto simp: doc_send_def)
qed

theorem send_json_outcome_witness:
  "fst (run (send_json mem_websockets ''i1'' ''a'' JNull) (snd (run (add ''i1'' ''a'' 3) start_world))) = Inr True"
proof -
  let ?w = "snd (run (add ''i1'' ''a'' 3) start_world)"
  have ok: "manager_ok (w_gateway ?w ''i1'')"
    by simp
  have "socket_of ?w ''i1'' ''a'' = Some 3" "ws_up mem_websockets (w_ws ?w) 3"
    by simp_all
  with send_json_outcome [OF memws.websocket_service_axioms ok, of "''a''" JNull] show ?thesis
    by auto
qed

end
