(* ===== verification/Lease.thy ===== *)
theory Lease
  imports World
begin

text \<open>
  The contract shared by everything the program keeps in Redis with a lifetime: a value is
  written under a key, is held until its lifetime is up, and is then gone. \<open>lease_store\<close> is the
  writing side, \<open>lease\<close> adds renewal (which cannot bring a lost entry back) and release. The
  providers are the instance registry, the liveness keys, the presence store and the
  idempotency guard, each in its own theory.
\<close>

locale lease_store =
  fixes put :: "'k \<Rightarrow> 'v \<Rightarrow> int \<Rightarrow> 's \<Rightarrow> 's"
    and pause :: "nat \<Rightarrow> 's \<Rightarrow> 's"
    and held :: "'s \<Rightarrow> 'k \<Rightarrow> ('v \<times> nat option) option"
    and ok :: "'s \<Rightarrow> bool"
    and valid :: "'k \<Rightarrow> bool"
  assumes put_held: "ok s \<Longrightarrow> 0 < t \<Longrightarrow> valid k \<Longrightarrow> valid k' \<Longrightarrow>
      held (put k v t s) k' = (if k' = k then Some (v, Some (1000 * nat t)) else held s k')"
    and pause_held: "ok s \<Longrightarrow> held (pause d s) k = age d (held s k)"
    and ok_put: "ok s \<Longrightarrow> 0 < t \<Longrightarrow> ok (put k v t s)"
    and ok_pause: "ok s \<Longrightarrow> ok (pause d s)"
begin

lemma held_for:
  assumes "ok s" "0 < t" "valid k"
  shows "held (pause d (put k v t s)) k =
    (if d < 1000 * nat t then Some (v, Some (1000 * nat t - d)) else None)"
  using assms by (simp add: pause_held put_held ok_put)

lemma others_unaffected:
  assumes "ok s" "0 < t" "valid k" "valid k'" "k' \<noteq> k"
  shows "held (pause d (put k v t s)) k' = held (pause d s) k'"
  using assms by (simp add: pause_held put_held ok_put)

text \<open>Writing again before the lifetime is up, again and again, keeps the entry.\<close>

fun put_again :: "'k \<Rightarrow> 'v \<Rightarrow> int \<Rightarrow> nat list \<Rightarrow> 's \<Rightarrow> 's" where
  "put_again k v t [] s = s"
| "put_again k v t (d # ds) s = put_again k v t ds (put k v t (pause d s))"

lemma put_again_held:
  assumes "ok s" "0 < t" "valid k" "held s k = Some (v, Some (1000 * nat t))"
  shows "held (put_again k v t ds s) k = Some (v, Some (1000 * nat t)) \<and> ok (put_again k v t ds s)"
  using assms by (induction ds arbitrary: s) (simp_all add: put_held ok_put ok_pause)

end

locale lease = lease_store put pause held ok valid
  for put :: "'k \<Rightarrow> 'v \<Rightarrow> int \<Rightarrow> 's \<Rightarrow> 's"
    and pause :: "nat \<Rightarrow> 's \<Rightarrow> 's"
    and held :: "'s \<Rightarrow> 'k \<Rightarrow> ('v \<times> nat option) option"
    and ok :: "'s \<Rightarrow> bool"
    and valid :: "'k \<Rightarrow> bool" +
  fixes renew :: "'k \<Rightarrow> int \<Rightarrow> 's \<Rightarrow> 's"
    and release :: "'k \<Rightarrow> 's \<Rightarrow> 's"
  assumes renew_held: "ok s \<Longrightarrow> 0 < t \<Longrightarrow> valid k \<Longrightarrow> valid k' \<Longrightarrow>
      held (renew k t s) k' = (if k' = k then renewed t (held s k) else held s k')"
    and release_held: "ok s \<Longrightarrow> valid k \<Longrightarrow> valid k' \<Longrightarrow>
      held (release k s) k' = (if k' = k then None else held s k')"
    and ok_renew: "ok s \<Longrightarrow> 0 < t \<Longrightarrow> ok (renew k t s)"
    and ok_release: "ok s \<Longrightarrow> ok (release k s)"
begin

text \<open>A client that renews after each of the pauses \<open>ds\<close>.\<close>

fun beats :: "'k \<Rightarrow> int \<Rightarrow> nat list \<Rightarrow> 's \<Rightarrow> 's" where
  "beats k t [] s = s"
| "beats k t (d # ds) s = beats k t ds (renew k t (pause d s))"

lemma ok_beats: "ok s \<Longrightarrow> 0 < t \<Longrightarrow> ok (beats k t ds s)"
  by (induction ds arbitrary: s) (simp_all add: ok_renew ok_pause)

lemma beats_lost:
  assumes "ok s" "0 < t" "valid k" "held s k = None"
  shows "held (beats k t ds s) k = None"
  using assms by (induction ds arbitrary: s) (simp_all add: renew_held pause_held ok_renew ok_pause)

text \<open>The entry lives exactly as long as no pause reaches the lifetime; once lost it stays lost.\<close>

lemma beats_held:
  assumes "ok s" "0 < t" "valid k" "held s k = Some (v, Some (1000 * nat t))"
  shows "held (beats k t ds s) k =
    (if \<forall>d\<in>set ds. d < 1000 * nat t then Some (v, Some (1000 * nat t)) else None)"
  using assms
proof (induction ds arbitrary: s)
  case Nil
  then show ?case by simp
next
  case (Cons d ds)
  let ?s = "renew k t (pause d s)"
  have ok: "ok ?s" using Cons.prems by (simp add: ok_renew ok_pause)
  show ?case
  proof (cases "d < 1000 * nat t")
    case True
    then have "held ?s k = Some (v, Some (1000 * nat t))"
      using Cons.prems by (simp add: renew_held pause_held ok_pause)
    with True Cons.IH [OF ok] Cons.prems show ?thesis by simp
  next
    case False
    then have "held ?s k = None" using Cons.prems by (simp add: renew_held pause_held ok_pause)
    with False beats_lost [OF ok] Cons.prems show ?thesis by auto
  qed
qed

lemma put_beats_held:
  assumes "ok s" "0 < t" "valid k"
  shows "held (beats k t ds (put k v t s)) k =
    (if \<forall>d\<in>set ds. d < 1000 * nat t then Some (v, Some (1000 * nat t)) else None)"
  using assms by (intro beats_held) (simp_all add: put_held ok_put)

end

end
