(* ===== verification/Instance_Registry.thy ===== *)
theory Instance_Registry
  imports Lease
begin

text \<open>
  \<open>app/pubsub/instance_registry.py\<close>: which gateway instance holds a user's socket, and which
  instances are alive. The registry is a lease per user, the liveness keys a lease store per
  instance.
\<close>

section \<open>The code\<close>

definition registry_key :: "string \<Rightarrow> string" where
  "registry_key user_id = ''user:'' @ user_id"

definition liveness_key :: "string \<Rightarrow> string" where
  "liveness_key inst = ''instance:'' @ inst @ '':alive''"

definition register :: "'r redis \<Rightarrow> string \<Rightarrow> string \<Rightarrow> int \<Rightarrow> ('r, 'd, 'w, unit) task" where
  "register R user_id inst ttl = redis_io (rd_set R (registry_key user_id) inst (Some ttl))"

definition refresh :: "'r redis \<Rightarrow> string \<Rightarrow> int \<Rightarrow> ('r, 'd, 'w, unit) task" where
  "refresh R user_id ttl = await (redis_io (rd_expire R (registry_key user_id) ttl)) (\<lambda>_. Return ())"

definition unregister :: "'r redis \<Rightarrow> string \<Rightarrow> ('r, 'd, 'w, unit) task" where
  "unregister R user_id = await (redis_io (rd_delete R (registry_key user_id))) (\<lambda>_. Return ())"

definition lookup :: "'r redis \<Rightarrow> string \<Rightarrow> ('r, 'd, 'w, string option) task" where
  "lookup R user_id =
     await (redis_io (rd_get R (registry_key user_id))) (\<lambda>inst.
       case inst of None \<Rightarrow> Return None | Some i \<Rightarrow> Return (Some i))"

definition mark_alive :: "'r redis \<Rightarrow> string \<Rightarrow> int \<Rightarrow> ('r, 'd, 'w, unit) task" where
  "mark_alive R inst ttl = redis_io (rd_set R (liveness_key inst) ''1'' (Some ttl))"

definition is_alive :: "'r redis \<Rightarrow> string \<Rightarrow> ('r, 'd, 'w, bool) task" where
  "is_alive R inst = await (redis_io (rd_exists R (liveness_key inst))) (\<lambda>n. Return (n \<noteq> 0))"

section \<open>Keys\<close>

lemma registry_key_inj [simp]: "registry_key u = registry_key v \<longleftrightarrow> u = v"
  by (simp add: registry_key_def)

lemma liveness_key_inj [simp]: "liveness_key i = liveness_key j \<longleftrightarrow> i = j"
  by (simp add: liveness_key_def)

lemma registry_liveness_distinct [simp]:
  "registry_key u \<noteq> liveness_key i" "liveness_key i \<noteq> registry_key u"
  by (simp_all add: registry_key_def liveness_key_def)

section \<open>What each operation does\<close>

abbreviation registered :: "'r redis \<Rightarrow> ('r, 'd, 'w) world \<Rightarrow> string \<Rightarrow> (string \<times> nat option) option" where
  "registered R w u \<equiv> entries (store R w) (registry_key u)"

abbreviation alive :: "'r redis \<Rightarrow> ('r, 'd, 'w) world \<Rightarrow> string \<Rightarrow> (string \<times> nat option) option" where
  "alive R w i \<equiv> entries (store R w) (liveness_key i)"

context redis_service
begin

lemma run_register:
  "redis_up R w \<Longrightarrow> 0 < ttl \<Longrightarrow> run (register R u i ttl) w =
     (Inr (), w\<lparr>w_redis := snd (rd_set R (registry_key u) i (Some ttl) (w_redis w))\<rparr>)"
  by (simp add: register_def up_simps redis_docs)

lemma run_refresh:
  "redis_up R w \<Longrightarrow> run (refresh R u ttl) w =
     (Inr (), w\<lparr>w_redis := snd (rd_expire R (registry_key u) ttl (w_redis w))\<rparr>)"
  by (simp add: refresh_def up_simps redis_docs)

lemma run_unregister:
  "redis_up R w \<Longrightarrow> run (unregister R u) w =
     (Inr (), w\<lparr>w_redis := snd (rd_delete R (registry_key u) (w_redis w))\<rparr>)"
  by (simp add: unregister_def up_simps redis_docs)

lemma run_lookup:
  "redis_up R w \<Longrightarrow> run (lookup R u) w =
     (Inr (value_of (store R w) (registry_key u)),
      w\<lparr>w_redis := snd (rd_get R (registry_key u) (w_redis w))\<rparr>)"
  by (auto simp: lookup_def up_simps redis_docs split: option.splits)

lemma run_mark_alive:
  "redis_up R w \<Longrightarrow> 0 < ttl \<Longrightarrow> run (mark_alive R i ttl) w =
     (Inr (), w\<lparr>w_redis := snd (rd_set R (liveness_key i) ''1'' (Some ttl) (w_redis w))\<rparr>)"
  by (simp add: mark_alive_def up_simps redis_docs)

lemma run_is_alive:
  "redis_up R w \<Longrightarrow> run (is_alive R i) w =
     (Inr (entries (store R w) (liveness_key i) \<noteq> None),
      w\<lparr>w_redis := snd (rd_exists R (liveness_key i) (w_redis w))\<rparr>)"
  by (simp add: is_alive_def up_simps redis_docs)

lemmas registry_runs = run_register run_refresh run_unregister run_lookup run_mark_alive run_is_alive

end

section \<open>The registry is a lease\<close>

sublocale redis_service \<subseteq> registry: lease
  "\<lambda>u i t w. snd (run (register R u i t) w)" "elapse R" "registered R" "redis_up R" "\<lambda>_. True"
  "\<lambda>u t w. snd (run (refresh R u t) w)" "\<lambda>u w. snd (run (unregister R u) w)"
  by unfold_locales
    (simp_all add: run_register run_refresh run_unregister up_simps redis_docs elapse_def)

sublocale redis_service \<subseteq> liveness: lease_store
  "\<lambda>i v t w. snd (run (mark_alive R i t) w)" "elapse R"
  "\<lambda>w i. map_option (\<lambda>(_, m). ((), m)) (alive R w i)" "redis_up R" "\<lambda>_. True"
  by unfold_locales
    (simp_all add: run_mark_alive up_simps redis_docs elapse_def age_map [of _ "\<lambda>_. ()"])

section \<open>Properties\<close>

text \<open>A user registered at an instance, whose entry is refreshed after each of the pauses.\<close>

definition register_and_refresh ::
  "'r redis \<Rightarrow> string \<Rightarrow> string \<Rightarrow> int \<Rightarrow> nat list \<Rightarrow> ('r, 'd, 'w) world \<Rightarrow> ('r, 'd, 'w) world" where
  "register_and_refresh R u i ttl ds w =
     fold (\<lambda>d w. snd (run (refresh R u ttl) (elapse R d w))) ds (snd (run (register R u i ttl) w))"

context redis_service
begin

lemma beats_fold:
  "registry.beats u ttl ds w = fold (\<lambda>d w. snd (run (refresh R u ttl) (elapse R d w))) ds w"
  by (induction ds arbitrary: w) simp_all

lemma registered_refreshed:
  assumes "redis_up R w" "0 < ttl"
  shows "registered R (register_and_refresh R u i ttl ds w) u =
      (if \<forall>d\<in>set ds. d < 1000 * nat ttl then Some (i, Some (1000 * nat ttl)) else None)"
    "redis_up R (register_and_refresh R u i ttl ds w)"
proof -
  have "redis_up R (registry.beats u ttl ds (snd (run (register R u i ttl) w)))"
    by (intro registry.ok_beats registry.ok_put assms)
  then show "redis_up R (register_and_refresh R u i ttl ds w)"
    by (simp add: register_and_refresh_def beats_fold)
  show "registered R (register_and_refresh R u i ttl ds w) u =
      (if \<forall>d\<in>set ds. d < 1000 * nat ttl then Some (i, Some (1000 * nat ttl)) else None)"
    using registry.put_beats_held [OF assms, of u ds i] by (simp add: register_and_refresh_def beats_fold)
qed

lemma lookup_refreshed:
  assumes "redis_up R w" "0 < ttl"
  shows "fst (run (lookup R u) (elapse R d (register_and_refresh R u i ttl ds w))) =
    Inr (if \<forall>d\<in>insert d (set ds). d < 1000 * nat ttl then Some i else None)"
  using registered_refreshed [OF assms, of u i ds]
  by (auto simp: run_lookup elapse_def up_simps redis_docs)

end

end
