(* ===== verification/Schemas.thy ===== *)
theory Schemas
  imports Database
begin

text \<open>
  \<open>app/schemas/notifications.py\<close> and \<open>app/schemas/ws_messages.py\<close>: what the request and message
  models accept and how messages look on the wire. pydantic itself is a parameter where its own
  parsing matters (UUIDs, the text of a datetime); the constraints the models state are here.
\<close>

section \<open>Regular expressions\<close>

text \<open>The operators \<open>NOTIFICATION_TYPE_PATTERN\<close> uses, and a matcher by derivatives.\<close>

datatype rexp =
    Empty | Eps | Chars "char \<Rightarrow> bool" | Cat rexp rexp | Alt rexp rexp | Star rexp

fun lang :: "rexp \<Rightarrow> string set" where
  "lang Empty = {}"
| "lang Eps = {[]}"
| "lang (Chars p) = {[c] | c. p c}"
| "lang (Cat r s) = {u @ v | u v. u \<in> lang r \<and> v \<in> lang s}"
| "lang (Alt r s) = lang r \<union> lang s"
| "lang (Star r) = {concat us | us. set us \<subseteq> lang r}"

fun nullable :: "rexp \<Rightarrow> bool" where
  "nullable Empty = False"
| "nullable Eps = True"
| "nullable (Chars p) = False"
| "nullable (Cat r s) = (nullable r \<and> nullable s)"
| "nullable (Alt r s) = (nullable r \<or> nullable s)"
| "nullable (Star r) = True"

fun deriv :: "char \<Rightarrow> rexp \<Rightarrow> rexp" where
  "deriv c Empty = Empty"
| "deriv c Eps = Empty"
| "deriv c (Chars p) = (if p c then Eps else Empty)"
| "deriv c (Cat r s) =
     (if nullable r then Alt (Cat (deriv c r) s) (deriv c s) else Cat (deriv c r) s)"
| "deriv c (Alt r s) = Alt (deriv c r) (deriv c s)"
| "deriv c (Star r) = Cat (deriv c r) (Star r)"

definition accepts :: "rexp \<Rightarrow> string \<Rightarrow> bool" where
  "accepts r s = nullable (fold deriv s r)"

definition plus :: "rexp \<Rightarrow> rexp" where
  "plus r = Cat r (Star r)"

lemma nullable_lang: "nullable r \<longleftrightarrow> [] \<in> lang r"
  by (induction r) (auto intro: exI [of _ "[]"])

lemma star_Cons:
  assumes "c # s \<in> lang (Star r)"
  obtains u v where "s = u @ v" "c # u \<in> lang r" "v \<in> lang (Star r)"
proof -
  from assms obtain us where us: "c # s = concat us" "set us \<subseteq> lang r" by auto
  then have "\<exists>u v. s = u @ v \<and> c # u \<in> lang r \<and> v \<in> lang (Star r)"
  proof (induction us)
    case (Cons x us)
    then show ?case by (cases x) auto
  qed simp
  with that show ?thesis by blast
qed

lemma deriv_lang: "s \<in> lang (deriv c r) \<longleftrightarrow> c # s \<in> lang r"
proof (induction r arbitrary: s)
  case (Cat r1 r2)
  have "c # s \<in> lang (Cat r1 r2) \<longleftrightarrow>
      ([] \<in> lang r1 \<and> c # s \<in> lang r2) \<or> (\<exists>u v. s = u @ v \<and> c # u \<in> lang r1 \<and> v \<in> lang r2)"
    by (auto simp: Cons_eq_append_conv)
  with Cat show ?case by (auto simp: nullable_lang)
next
  case (Star r)
  show ?case
  proof
    assume "s \<in> lang (deriv c (Star r))"
    then obtain u us where "s = u @ concat us" "c # u \<in> lang r" "set us \<subseteq> lang r"
      using Star by auto
    then have "c # s = concat ((c # u) # us)" "set ((c # u) # us) \<subseteq> lang r" by simp_all
    then show "c # s \<in> lang (Star r)" unfolding lang.simps by blast
  next
    assume "c # s \<in> lang (Star r)"
    then show "s \<in> lang (deriv c (Star r))" using Star by (elim star_Cons) auto
  qed
qed auto

lemma accepts_lang: "accepts r s \<longleftrightarrow> s \<in> lang r"
proof (induction s arbitrary: r)
  case Nil
  then show ?case by (simp add: accepts_def nullable_lang)
next
  case (Cons c s)
  then show ?case by (simp add: accepts_def deriv_lang)
qed

lemma lang_chars: "lang (Star (Chars p)) = {s. list_all p s}"
proof (intro set_eqI iffI)
  fix s
  assume "s \<in> lang (Star (Chars p))"
  then obtain us where "s = concat us" "\<forall>u\<in>set us. \<exists>c. u = [c] \<and> p c" by auto
  then show "s \<in> {s. list_all p s}" by (fastforce simp: list_all_iff)
next
  fix s
  assume "s \<in> {s. list_all p s}"
  then have "s = concat (map (\<lambda>c. [c]) s)" "set (map (\<lambda>c. [c]) s) \<subseteq> lang (Chars p)"
    by (auto simp: list_all_iff)
  then show "s \<in> lang (Star (Chars p))" unfolding lang.simps by blast
qed

section \<open>Notification types\<close>

definition is_lower :: "char \<Rightarrow> bool" where
  "is_lower c \<longleftrightarrow> of_char c \<in> {97..122::nat}"

definition is_word :: "char \<Rightarrow> bool" where
  "is_word c \<longleftrightarrow> is_lower c \<or> is_dec_digit c \<or> c = CHR ''_''"

text \<open>\<open>^[a-z][a-z0-9_]*(\.[a-z][a-z0-9_]*)+$\<close>\<close>

definition notification_type_pattern :: rexp where
  "notification_type_pattern =
     (let name = Cat (Chars is_lower) (Star (Chars is_word)) in
      Cat name (plus (Cat (Chars (\<lambda>c. c = CHR ''.'')) name)))"

text \<open>What the comment above the pattern says: lowercase dotted namespaces, at least two.\<close>

fun is_name :: "string \<Rightarrow> bool" where
  "is_name [] = False"
| "is_name (c # s) = (is_lower c \<and> list_all is_word s)"

fun dotted :: "string list \<Rightarrow> string" where
  "dotted [] = []"
| "dotted [n] = n"
| "dotted (n # ns) = n @ ''.'' @ dotted ns"

lemma lang_name: "lang (Cat (Chars is_lower) (Star (Chars is_word))) = {s. is_name s}"
proof (rule set_eqI)
  fix s
  show "s \<in> lang (Cat (Chars is_lower) (Star (Chars is_word))) \<longleftrightarrow> s \<in> {s. is_name s}"
    unfolding lang.simps(4) lang_chars
    by (cases s) (auto, metis append_Cons append_Nil)
qed

lemma dotted_concat: "dotted (n # ns) = n @ concat (map (\<lambda>m. ''.'' @ m) ns)"
  by (induction ns arbitrary: n) auto

lemma lang_pattern:
  "lang notification_type_pattern = {dotted ns | ns. 2 \<le> length ns \<and> list_all is_name ns}"
proof (rule set_eqI)
  fix s
  let ?tail = "Cat (Chars (\<lambda>c. c = CHR ''.'')) (Cat (Chars is_lower) (Star (Chars is_word)))"
  have tail: "u \<in> lang ?tail \<longleftrightarrow> (\<exists>m. is_name m \<and> u = ''.'' @ m)" for u
    unfolding lang.simps(4) [of "Chars (\<lambda>c. c = CHR ''.'')"] lang_name by auto
  have tails: "set us \<subseteq> lang ?tail \<longleftrightarrow> (\<exists>ms. list_all is_name ms \<and> us = map (\<lambda>m. ''.'' @ m) ms)" for us
  proof (induction us)
    case (Cons u us)
    show ?case
    proof
      assume "set (u # us) \<subseteq> lang ?tail"
      with Cons tail obtain m ms where "is_name m" "u = ''.'' @ m" "list_all is_name ms" "us = map (\<lambda>m. ''.'' @ m) ms"
        by auto
      then show "\<exists>ms. list_all is_name ms \<and> u # us = map (\<lambda>m. ''.'' @ m) ms"
        by (intro exI [of _ "m # ms"]) simp
    next
      assume "\<exists>ms. list_all is_name ms \<and> u # us = map (\<lambda>m. ''.'' @ m) ms"
      with Cons tail show "set (u # us) \<subseteq> lang ?tail" by (auto simp: Cons_eq_map_conv)
    qed
  qed simp
  have "s \<in> lang notification_type_pattern \<longleftrightarrow>
      (\<exists>n u us. is_name n \<and> u \<in> lang ?tail \<and> set us \<subseteq> lang ?tail \<and> s = n @ u @ concat us)"
    unfolding notification_type_pattern_def plus_def Let_def
    unfolding lang.simps(4) [of "Cat (Chars is_lower) (Star (Chars is_word))"] lang_name
      lang.simps(4) [of ?tail] lang.simps(6) by blast
  also have "\<dots> \<longleftrightarrow> (\<exists>n us. is_name n \<and> us \<noteq> [] \<and> set us \<subseteq> lang ?tail \<and> s = n @ concat us)"
  proof (safe)
    fix n u us
    assume "is_name n" "u \<in> lang ?tail" "set us \<subseteq> lang ?tail"
    then show "\<exists>n' us'. is_name n' \<and> us' \<noteq> [] \<and> set us' \<subseteq> lang ?tail \<and> n @ u @ concat us = n' @ concat us'"
      by (intro exI [of _ n] exI [of _ "u # us"]) simp
  next
    fix n us
    assume "is_name n" "us \<noteq> []" "set us \<subseteq> lang ?tail"
    then show "\<exists>n' u us'. is_name n' \<and> u \<in> lang ?tail \<and> set us' \<subseteq> lang ?tail \<and>
        n @ concat us = n' @ u @ concat us'"
      by (intro exI [of _ n] exI [of _ "hd us"] exI [of _ "tl us"]) (cases us; simp)
  qed
  also have "\<dots> \<longleftrightarrow> (\<exists>n ms. is_name n \<and> ms \<noteq> [] \<and> list_all is_name ms \<and> s = dotted (n # ms))"
    unfolding tails dotted_concat by auto
  also have "\<dots> \<longleftrightarrow> (\<exists>ns. s = dotted ns \<and> 2 \<le> length ns \<and> list_all is_name ns)"
  proof safe
    fix n ms
    assume "is_name n" "ms \<noteq> []" "list_all is_name ms"
    then show "\<exists>ns. dotted (n # ms) = dotted ns \<and> 2 \<le> length ns \<and> list_all is_name ns"
      by (intro exI [of _ "n # ms"]) (cases ms; simp)
  next
    fix ns
    assume "2 \<le> length ns" "list_all is_name ns"
    then show "\<exists>n ms. is_name n \<and> ms \<noteq> [] \<and> list_all is_name ms \<and> dotted ns = dotted (n # ms)"
      by (intro exI [of _ "hd ns"] exI [of _ "tl ns"]) (cases ns; cases "tl ns"; simp)
  qed
  also have "\<dots> \<longleftrightarrow> s \<in> {dotted ns | ns. 2 \<le> length ns \<and> list_all is_name ns}" by simp
  finally show "s \<in> lang notification_type_pattern \<longleftrightarrow>
      s \<in> {dotted ns | ns. 2 \<le> length ns \<and> list_all is_name ns}" .
qed

section \<open>pydantic\<close>

text \<open>
  pydantic's parsing of a JSON value as a UUID and its JSON text of a datetime, of which only
  this is used: a UUID printed by \<open>str\<close> is read back.
\<close>

record pydantic =
  pd_uuid :: "json \<Rightarrow> uuid option"
  pd_datetime_text :: "datetime \<Rightarrow> string"

locale pydantic_service =
  fixes V :: pydantic
  assumes uuid_law: "pd_uuid V (JStr (uuid_str u)) = Some u"

definition std_pydantic :: pydantic where
  "std_pydantic =
     \<lparr>pd_uuid = (\<lambda>j. case j of JStr s \<Rightarrow> py_UUID s | _ \<Rightarrow> None), pd_datetime_text = isoformat\<rparr>"

interpretation std: pydantic_service std_pydantic
  by unfold_locales (simp add: std_pydantic_def)

section \<open>Requests and responses (notifications.py)\<close>

definition MAX_PAYLOAD_BYTES :: nat where
  "MAX_PAYLOAD_BYTES = 32 * 1024"

record notification_create =
  nc_notification_id :: uuid
  nc_user_id :: uuid
  nc_type :: string
  nc_payload :: json

text \<open>\<open>json.dumps\<close> writes ASCII only, so the UTF-8 encoding has a byte per character.\<close>

definition payload_within_size_limit :: "json \<Rightarrow> json option" where
  "payload_within_size_limit payload =
     (if length (dumps payload) > MAX_PAYLOAD_BYTES then None else Some payload)"

definition valid_type :: "string \<Rightarrow> bool" where
  "valid_type s \<longleftrightarrow> 1 \<le> length s \<and> length s \<le> 50 \<and> accepts notification_type_pattern s"

text \<open>The request body as a model; \<open>None\<close> is a validation error (422).\<close>

definition parse_payload :: "json option \<Rightarrow> json option" where
  "parse_payload v =
     (case v of
        None \<Rightarrow> Some (JObj [])
      | Some (JObj m) \<Rightarrow> payload_within_size_limit (JObj m)
      | Some _ \<Rightarrow> None)"

definition parse_NotificationCreate :: "pydantic \<Rightarrow> json \<Rightarrow> notification_create option" where
  "parse_NotificationCreate V body =
     (case (Option.bind (obj_get body ''notification_id'') (pd_uuid V),
            Option.bind (obj_get body ''user_id'') (pd_uuid V),
            obj_get body ''type'',
            parse_payload (obj_get body ''payload'')) of
        (Some i, Some u, Some (JStr t), Some p) \<Rightarrow>
          if valid_type t
          then Some \<lparr>nc_notification_id = i, nc_user_id = u, nc_type = t, nc_payload = p\<rparr>
          else None
      | _ \<Rightarrow> None)"

record notification_create_response =
  ncr_notification_id :: uuid
  ncr_persisted :: bool
  ncr_delivered_live :: bool

record notification_read =
  nr_notification_id :: uuid
  nr_user_id :: uuid
  nr_type :: string
  nr_payload :: json
  nr_created_at :: datetime
  nr_delivered_live :: bool
  nr_read_at :: "datetime option"

record history_page =
  hp_notifications :: "notification_read list"
  hp_next_cursor :: "datetime option"

record read_receipt_read =
  rrr_notification_id :: uuid
  rrr_user_id :: uuid
  rrr_read_at :: datetime

record presence_read =
  pr_user_id :: string
  pr_status :: string
  pr_last_seen :: "datetime option"

record health_check =
  hc_status :: string
  hc_instance_id :: string
  hc_redis :: string
  hc_database :: string
  hc_active_connections :: nat

text \<open>\<open>NotificationRead.model_validate(row)\<close> and \<open>ReadReceiptRead.model_validate(row)\<close>, from the
  attributes of a row.\<close>

definition read_of_row :: "notification \<Rightarrow> notification_read" where
  "read_of_row n =
     \<lparr>nr_notification_id = n_notification_id n, nr_user_id = n_user_id n, nr_type = n_type n,
      nr_payload = n_payload n, nr_created_at = n_created_at n,
      nr_delivered_live = n_delivered_live n, nr_read_at = n_read_at n\<rparr>"

definition receipt_of_row :: "read_receipt \<Rightarrow> read_receipt_read" where
  "receipt_of_row r =
     \<lparr>rrr_notification_id = rr_notification_id r, rrr_user_id = rr_user_id r, rrr_read_at = rr_read_at r\<rparr>"

section \<open>WebSocket messages (ws_messages.py)\<close>

text \<open>A \<open>type\<close> field that must be the given literal and may be missing.\<close>

definition type_is :: "string \<Rightarrow> json \<Rightarrow> bool" where
  "type_is t j \<longleftrightarrow> (case obj_get j ''type'' of None \<Rightarrow> True | Some v \<Rightarrow> v = JStr t)"

fun is_object :: "json \<Rightarrow> bool" where
  "is_object (JObj m) = True"
| "is_object _ = False"

definition parse_HeartbeatMessage :: "json \<Rightarrow> unit option" where
  "parse_HeartbeatMessage j = (if is_object j \<and> type_is ''heartbeat'' j then Some () else None)"

definition parse_PresenceUpdateMessage :: "json \<Rightarrow> string option" where
  "parse_PresenceUpdateMessage j =
     (if is_object j \<and> type_is ''presence_update'' j then
        (case obj_get j ''status'' of
           Some (JStr s) \<Rightarrow> if s = ''online'' \<or> s = ''away'' then Some s else None
         | _ \<Rightarrow> None)
      else None)"

definition parse_ReadReceiptMessage :: "pydantic \<Rightarrow> json \<Rightarrow> uuid option" where
  "parse_ReadReceiptMessage V j =
     (if is_object j \<and> type_is ''read_receipt'' j
      then Option.bind (obj_get j ''notification_id'') (pd_uuid V) else None)"

record notification_envelope =
  ne_notification_id :: uuid
  ne_user_id :: uuid
  ne_type :: string
  ne_payload :: json
  ne_created_at :: datetime

definition dump_envelope :: "pydantic \<Rightarrow> notification_envelope \<Rightarrow> json" where
  "dump_envelope V e =
     JObj [(''notification_id'', JStr (uuid_str (ne_notification_id e))),
           (''user_id'', JStr (uuid_str (ne_user_id e))),
           (''type'', JStr (ne_type e)),
           (''payload'', ne_payload e),
           (''created_at'', JStr (pd_datetime_text V (ne_created_at e)))]"

definition dump_BacklogMessage :: "pydantic \<Rightarrow> notification_envelope list \<Rightarrow> json" where
  "dump_BacklogMessage V es =
     JObj [(''type'', JStr ''backlog''), (''notifications'', JList (map (dump_envelope V) es))]"

definition dump_RateLimitedMessage :: json where
  "dump_RateLimitedMessage =
     JObj [(''type'', JStr ''rate_limited''),
           (''detail'', JStr ''Message rate limit exceeded, message dropped'')]"

definition dump_ErrorMessage :: "string \<Rightarrow> json" where
  "dump_ErrorMessage detail = JObj [(''type'', JStr ''error''), (''detail'', JStr detail)]"

section \<open>Properties\<close>

text \<open>
  C39. The pattern means what its comment says: a type matches exactly when it is at least two
  names joined by dots, a name being a lowercase letter and then lowercase letters, digits and
  underscores.
\<close>

theorem notification_type_language:
  "accepts notification_type_pattern s \<longleftrightarrow>
     (\<exists>names. 2 \<le> length names \<and> list_all is_name names \<and> s = dotted names)"
  unfolding accepts_lang lang_pattern by blast

lemma parse_NotificationCreate_cases:
  assumes "parse_NotificationCreate V body = Some nc"
  shows "valid_type (nc_type nc)" "\<exists>m. nc_payload nc = JObj m" "length (dumps (nc_payload nc)) \<le> MAX_PAYLOAD_BYTES"
    "Option.bind (obj_get body ''notification_id'') (pd_uuid V) = Some (nc_notification_id nc)"
    "Option.bind (obj_get body ''user_id'') (pd_uuid V) = Some (nc_user_id nc)"
  using assms
  by (auto simp: parse_NotificationCreate_def parse_payload_def payload_within_size_limit_def
      MAX_PAYLOAD_BYTES_def split: option.splits json.splits if_splits)

text \<open>What the row of an accepted request is made of.\<close>

definition acceptable :: "string \<Rightarrow> json \<Rightarrow> bool" where
  "acceptable ty payload \<longleftrightarrow> valid_type ty \<and> is_object payload \<and> length (dumps payload) \<le> MAX_PAYLOAD_BYTES"

lemma parse_acceptable: "parse_NotificationCreate V body = Some nc \<Longrightarrow> acceptable (nc_type nc) (nc_payload nc)"
  using parse_NotificationCreate_cases(1-3) [of V body nc] by (auto simp: acceptable_def)

text \<open>
  A request that is accepted names a type that fits the column of the table (at most 50
  characters, at least two names) and carries an object whose JSON text is within the limit.
\<close>

theorem notification_create_bounds:
  assumes "parse_NotificationCreate V body = Some nc"
  shows "length (nc_type nc) \<le> 50 \<and>
    (\<exists>names. 2 \<le> length names \<and> list_all is_name names \<and> nc_type nc = dotted names) \<and>
    (\<exists>m. nc_payload nc = JObj m) \<and> length (dumps (nc_payload nc)) \<le> 32768"
  using parse_NotificationCreate_cases [OF assms] accepts_lang [of notification_type_pattern "nc_type nc"]
  unfolding lang_pattern by (auto simp: valid_type_def MAX_PAYLOAD_BYTES_def)

definition sample_body :: json where
  "sample_body =
     JObj [(''notification_id'', JStr (uuid_str 5)), (''user_id'', JStr (uuid_str 7)),
           (''type'', JStr ''message.received''), (''payload'', JObj [(''n'', JInt 1)])]"

lemma sample_type: "valid_type ''message.received''"
proof -
  have "''message.received'' = dotted [''message'', ''received'']" by simp
  moreover have "list_all is_name [''message'', ''received'']"
    by (simp add: is_lower_def is_word_def)
  ultimately have "accepts notification_type_pattern ''message.received''"
    unfolding accepts_lang lang_pattern by fastforce
  then show ?thesis by (simp add: valid_type_def)
qed

lemma sample_parse:
  "parse_NotificationCreate std_pydantic sample_body =
     Some \<lparr>nc_notification_id = 5, nc_user_id = 7, nc_type = ''message.received'',
           nc_payload = JObj [(''n'', JInt 1)]\<rparr>"
  using sample_type std.uuid_law
  by (simp add: parse_NotificationCreate_def sample_body_def parse_payload_def
      payload_within_size_limit_def MAX_PAYLOAD_BYTES_def quote_def escape_char_def show_int_def show_nat.simps [of "Suc 0"])

theorem notification_create_bounds_witness:
  "length (nc_type (the (parse_NotificationCreate std_pydantic sample_body))) \<le> 50"
  using notification_create_bounds [OF sample_parse] by (simp only: sample_parse option.sel)

end
