(* ===== verification/Repository.thy ===== *)
theory Repository
  imports World
begin

text \<open>
  \<open>app/db/connection.py\<close> (the lazily built engine and session factory of a process, and the
  session scope) and \<open>app/db/repository.py\<close> (the statements of each operation and its commit).
\<close>

section \<open>Sessions\<close>

text \<open>An engine and a factory are known by a number; the factory of a process by its engine's.\<close>

definition get_engine :: "string \<Rightarrow> ('r, 'd, 'w, nat) task" where
  "get_engine i =
     await (read_state (\<lambda>w. engine (w_gateway w i))) (\<lambda>e.
       case e of
         None \<Rightarrow>
           await fresh (\<lambda>n.
           await (in_gateway i (\<lambda>g. g\<lparr>engine := Some n\<rparr>)) (\<lambda>_.
           Return n))
       | Some n \<Rightarrow> Return n)"

definition get_session_factory :: "string \<Rightarrow> ('r, 'd, 'w, nat) task" where
  "get_session_factory i =
     await (read_state (\<lambda>w. session_factory (w_gateway w i))) (\<lambda>f.
       case f of
         None \<Rightarrow>
           await (get_engine i) (\<lambda>n.
           await (in_gateway i (\<lambda>g. g\<lparr>session_factory := Some n\<rparr>)) (\<lambda>_.
           Return n))
       | Some n \<Rightarrow> Return n)"

text \<open>\<open>async with get_session() as session: body\<close>; leaving the block closes the session.\<close>

definition get_session ::
  "'d database \<Rightarrow> string \<Rightarrow> (nat \<Rightarrow> ('r, 'd, 'w, 'a) task) \<Rightarrow> ('r, 'd, 'w, 'a) task" where
  "get_session D i body =
     await (get_session_factory i) (\<lambda>factory.
     await fresh (\<lambda>session.
     try_finally (body session) (db_io (db_close D session))))"

definition dispose_engine :: "'d database \<Rightarrow> string \<Rightarrow> ('r, 'd, 'w, unit) task" where
  "dispose_engine D i =
     await (read_state (\<lambda>w. engine (w_gateway w i))) (\<lambda>e.
     await (case e of None \<Rightarrow> Return () | Some n \<Rightarrow> db_io (db_dispose D n)) (\<lambda>_.
     in_gateway i (\<lambda>g. g\<lparr>engine := None, session_factory := None\<rparr>)))"

section \<open>The repository\<close>

definition create ::
  "'d database \<Rightarrow> nat \<Rightarrow> uuid \<Rightarrow> uuid \<Rightarrow> string \<Rightarrow> json \<Rightarrow> ('r, 'd, 'w, notification option) task" where
  "create D session notification_id user_id type payload =
     await (db_io (db_insert_notification D session notification_id user_id type payload)) (\<lambda>result.
     await (db_io (db_commit D session)) (\<lambda>_.
     Return result))"

definition mark_delivered_live :: "'d database \<Rightarrow> nat \<Rightarrow> uuid \<Rightarrow> ('r, 'd, 'w, unit) task" where
  "mark_delivered_live D session notification_id =
     await (db_io (db_update_notifications D session [NotificationIdIs notification_id]
              (SetDeliveredLive True))) (\<lambda>_.
     await (db_io (db_commit D session)) (\<lambda>_.
     Return ()))"

definition mark_read :: "'d database \<Rightarrow> nat \<Rightarrow> uuid \<Rightarrow> uuid \<Rightarrow> datetime \<Rightarrow> ('r, 'd, 'w, bool) task" where
  "mark_read D session notification_id user_id read_at =
     await (db_io (db_update_notifications D session
              [NotificationIdIs notification_id, UserIdIs user_id] (SetReadAt read_at))) (\<lambda>rowcount.
       if rowcount = 0 then await (db_io (db_commit D session)) (\<lambda>_. Return False)
       else
         await (db_io (db_insert_receipt D session notification_id user_id read_at)) (\<lambda>_.
         await (db_io (db_commit D session)) (\<lambda>_.
         Return True)))"

definition get_unread_backlog ::
  "'d database \<Rightarrow> nat \<Rightarrow> uuid \<Rightarrow> int \<Rightarrow> ('r, 'd, 'w, notification list) task" where
  "get_unread_backlog D session user_id limit =
     await (db_io (db_select_notifications D session [UserIdIs user_id, ReadAtIsNull] CreatedAsc limit)) Return"

definition get_history ::
  "'d database \<Rightarrow> nat \<Rightarrow> uuid \<Rightarrow> int \<Rightarrow> datetime option \<Rightarrow> ('r, 'd, 'w, notification list) task" where
  "get_history D session user_id limit before =
     (let stmt = [UserIdIs user_id];
          stmt = (case before of None \<Rightarrow> stmt | Some t \<Rightarrow> stmt @ [CreatedBefore t]) in
      await (db_io (db_select_notifications D session stmt CreatedDesc limit)) Return)"

definition get_read_receipts :: "'d database \<Rightarrow> nat \<Rightarrow> uuid \<Rightarrow> ('r, 'd, 'w, read_receipt list) task" where
  "get_read_receipts D session notification_id =
     await (db_io (db_select_receipts D session notification_id)) Return"

section \<open>Tables that hold under any interleaving\<close>

text \<open>Rows a list of writes adds, and the tables those writes make of given ones.\<close>

definition added :: "db_write list \<Rightarrow> notification list" where
  "added ws = concat (map (\<lambda>wr. case wr of AddNotification n \<Rightarrow> [n] | _ \<Rightarrow> []) ws)"

lemma added_simps [simp]:
  "added [] = []" "added (ws @ ws') = added ws @ added ws'"
  "added [AddNotification n] = [n]" "added [AssignRows ids a] = []" "added [AddReceipt r] = []"
  by (simp_all add: added_def)

lemma in_added: "n \<in> set (added ws) \<longleftrightarrow> AddNotification n \<in> set ws"
  by (auto simp: added_def split: db_write.splits)

lemma foldl_writes:
  assumes "\<And>a n. f (assign a n) = f n"
  shows "map f (fst (foldl apply_write (ns, rs) ws)) = map f ns @ map f (added ws)"
proof (induction ws rule: rev_induct)
  case (snoc wr ws)
  then show ?case
    by (cases "foldl apply_write (ns, rs) ws"; cases wr) (auto simp: assms comp_def if_distrib cong: if_cong)
qed simp

lemma map_visible:
  "(\<And>a n. f (assign a n) = f n) \<Longrightarrow>
     map f (fst (visible s sid)) = map f (notifications s) @ map f (added (pending s sid))"
  unfolding visible_def by (rule foldl_writes)

text \<open>
  A key that tells rows apart: among the committed rows, among those a session sees, and among
  the rows two sessions have not committed yet.
\<close>

definition unique_by :: "(notification \<Rightarrow> 'k) \<Rightarrow> dbstate \<Rightarrow> bool" where
  "unique_by f s \<longleftrightarrow>
     (\<forall>sid. distinct (map f (notifications s) @ map f (added (pending s sid)))) \<and>
     (\<forall>sid sid'. sid \<noteq> sid' \<longrightarrow> f ` set (added (pending s sid)) \<inter> f ` set (added (pending s sid')) = {})"

definition ids_below :: "dbstate \<Rightarrow> bool" where
  "ids_below s \<longleftrightarrow>
     (\<forall>n\<in>set (notifications s). n_id n < next_row s) \<and>
     (\<forall>sid. \<forall>n\<in>set (added (pending s sid)). n_id n < next_row s)"

definition tables_ok :: "dbstate \<Rightarrow> bool" where
  "tables_ok s \<longleftrightarrow> unique_by n_id s \<and> unique_by n_notification_id s \<and> ids_below s"

lemma unique_by_committed: "unique_by f s \<Longrightarrow> distinct (map f (notifications s))"
  by (auto simp: unique_by_def)

text \<open>How the pending rows of each session change.\<close>

abbreviation pend :: "nat \<Rightarrow> db_write list \<Rightarrow> dbstate \<Rightarrow> dbstate" where
  "pend sid ws s \<equiv> s\<lparr>pending := (pending s)(sid := ws)\<rparr>"

lemma unique_by_same_rows:
  "unique_by f s \<Longrightarrow> added ws = added (pending s sid) \<or> ws = [] \<Longrightarrow> unique_by f (pend sid ws s)"
proof (elim disjE)
  assume u: "unique_by f s" and "added ws = added (pending s sid)"
  then have "added (((pending s)(sid := ws)) x) = added (pending s x)" for x by simp
  with u show ?thesis by (simp add: unique_by_def)
qed (auto simp: unique_by_def)

lemma unique_by_next [simp]: "unique_by f (s\<lparr>next_row := k\<rparr>) = unique_by f s"
  by (simp add: unique_by_def)

lemma unique_by_new_row:
  assumes "unique_by f s" "f n \<notin> f ` set (notifications s)" "\<And>sid. f n \<notin> f ` set (added (pending s sid))"
  shows "unique_by f (pend sid (pending s sid @ [AddNotification n]) s)"
  using assms unfolding unique_by_def by (auto simp: image_iff)

lemma unique_by_commit:
  assumes "unique_by f s" "\<And>a n. f (assign a n) = f n"
  shows "unique_by f (snd (doc_commit sid s))"
proof -
  note new = map_visible [of f s sid, OF assms(2)]
  from new have "f ` set (fst (visible s sid)) = f ` (set (notifications s) \<union> set (added (pending s sid)))"
    by (metis list.set_map set_append image_Un)
  with new assms(1) show ?thesis
    unfolding unique_by_def doc_commit_def by (auto simp: disjoint_iff) (metis imageI)+
qed

text \<open>Each statement, and the commit, keeps the tables in order.\<close>

lemma visible_ids: "ids_below s \<Longrightarrow> n \<in> set (fst (visible s sid)) \<Longrightarrow> n_id n < next_row s"
proof -
  assume below: "ids_below s" and n: "n \<in> set (fst (visible s sid))"
  from n have "n_id n \<in> set (map n_id (fst (visible s sid)))" by simp
  also have "\<dots> = n_id ` (set (notifications s) \<union> set (added (pending s sid)))"
    by (simp add: map_visible image_Un)
  finally show ?thesis using below by (auto simp: ids_below_def)
qed

lemma tables_ok_insert:
  assumes "tables_ok s" "\<not> claimed s sid i"
  shows "tables_ok (snd (doc_insert_notification sid i u ty pl s))"
proof (cases "list_ex (\<lambda>n. n_notification_id n = i) (fst (visible s sid))")
  case False
  let ?row = "\<lparr>n_id = next_row s, n_notification_id = i, n_user_id = u, n_type = ty, n_payload = pl,
    n_created_at = db_now s, n_delivered_live = False, n_read_at = None\<rparr>"
  let ?s = "pend sid (pending s sid @ [AddNotification ?row]) s"
  have "i \<notin> set (map n_notification_id (fst (visible s sid)))"
    using False by (auto simp: list_ex_iff)
  then have mine: "i \<notin> n_notification_id ` set (notifications s)"
      "i \<notin> n_notification_id ` set (added (pending s sid))"
    by (auto simp: map_visible)
  have "i \<notin> n_notification_id ` set (added (pending s x))" for x
  proof (cases "x = sid")
    case False
    with assms(2) have "\<forall>n. AddNotification n \<in> set (pending s x) \<longrightarrow> n_notification_id n \<noteq> i"
      unfolding claimed_def by blast
    then show ?thesis by (auto simp: in_added)
  qed (use mine(2) in simp)
  with mine assms(1) have "unique_by n_notification_id ?s"
    by (intro unique_by_new_row) (simp_all add: tables_ok_def)
  moreover have "n_id ?row \<notin> n_id ` set (notifications s)" "n_id ?row \<notin> n_id ` set (added (pending s x))" for x
    using assms(1) by (fastforce simp: tables_ok_def ids_below_def)+
  with assms(1) have "unique_by n_id ?s" by (intro unique_by_new_row) (simp_all add: tables_ok_def)
  moreover from assms(1) have "ids_below (?s\<lparr>next_row := Suc (next_row s)\<rparr>)"
    by (auto simp: tables_ok_def ids_below_def less_Suc_eq)
  moreover have "snd (doc_insert_notification sid i u ty pl s) = ?s\<lparr>next_row := Suc (next_row s)\<rparr>"
    using False by (simp add: doc_insert_notification_def add_pending_def Let_def)
  ultimately show ?thesis by (simp add: tables_ok_def)
qed (use assms in \<open>simp add: doc_insert_notification_def\<close>)

lemma tables_ok_pend:
  assumes "tables_ok s" "added ws = added (pending s sid) \<or> ws = []"
  shows "tables_ok (pend sid ws s)"
  using assms unique_by_same_rows [OF _ assms(2), of n_id] unique_by_same_rows [OF _ assms(2), of n_notification_id]
  by (auto simp: tables_ok_def ids_below_def)

lemma tables_ok_next: "tables_ok s \<Longrightarrow> tables_ok (s\<lparr>next_row := Suc (next_row s)\<rparr>)"
  by (auto simp: tables_ok_def ids_below_def less_Suc_eq)

lemma ids_below_commit:
  assumes "ids_below s"
  shows "ids_below (snd (doc_commit sid s))"
  unfolding ids_below_def
proof (intro conjI ballI allI)
  fix n
  assume "n \<in> set (notifications (snd (doc_commit sid s)))"
  then have "n \<in> set (fst (visible s sid))" by (simp add: doc_commit_def)
  then show "n_id n < next_row (snd (doc_commit sid s))"
    using visible_ids [OF assms] by (simp add: doc_commit_def)
next
  fix x n
  assume "n \<in> set (added (pending (snd (doc_commit sid s)) x))"
  then have "n \<in> set (added (pending s x))" by (simp add: doc_commit_def split: if_splits)
  then show "n_id n < next_row (snd (doc_commit sid s))"
    using assms by (simp add: ids_below_def doc_commit_def)
qed

lemma tables_ok_commit: "tables_ok s \<Longrightarrow> tables_ok (snd (doc_commit sid s))"
  unfolding tables_ok_def by (intro conjI unique_by_commit ids_below_commit) simp_all

lemma tables_ok_statements:
  assumes "tables_ok s"
  shows "tables_ok (snd (doc_update_notifications sid cs a s))"
    "tables_ok (snd (doc_insert_receipt sid i u t s))"
    "tables_ok (snd (doc_close_session sid s))"
  using tables_ok_pend [OF assms] tables_ok_pend [OF tables_ok_next [OF assms]]
  by (simp_all add: doc_update_notifications_def doc_insert_receipt_def doc_close_session_def
      add_pending_def Let_def)

subsection \<open>Rows are permanent\<close>

text \<open>What of a row never changes, and that a row that was read stays read.\<close>

definition evolves :: "notification \<Rightarrow> notification \<Rightarrow> bool" where
  "evolves n n' \<longleftrightarrow> n_id n' = n_id n \<and> n_notification_id n' = n_notification_id n \<and>
     n_user_id n' = n_user_id n \<and> n_type n' = n_type n \<and> n_payload n' = n_payload n \<and>
     n_created_at n' = n_created_at n \<and> (n_read_at n \<noteq> None \<longrightarrow> n_read_at n' \<noteq> None)"

lemma evolves_refl [simp]: "evolves n n"
  by (simp add: evolves_def)

lemma evolves_trans: "evolves n n' \<Longrightarrow> evolves n' n'' \<Longrightarrow> evolves n n''"
  by (simp add: evolves_def)

lemma evolves_assign [simp]: "evolves n (assign a n)"
  by (cases a) (simp_all add: evolves_def)

lemma writes_evolve:
  "n \<in> set ns \<Longrightarrow> \<exists>n'\<in>set (fst (foldl apply_write (ns, rs) ws)). evolves n n'"
proof (induction ws rule: rev_induct)
  case (snoc wr ws)
  obtain ns' rs' where foldl: "foldl apply_write (ns, rs) ws = (ns', rs')" by fastforce
  with snoc obtain n' where n': "n' \<in> set ns'" "evolves n n'" by auto
  have "\<exists>n''\<in>set (fst (apply_write (ns', rs') wr)). evolves n' n''"
  proof (cases wr)
    case (AssignRows ids a)
    let ?n = "if n_id n' \<in> set ids then assign a n' else n'"
    have "?n \<in> set (fst (apply_write (ns', rs') wr))" "evolves n' ?n"
      using n'(1) by (auto simp: AssignRows)
    then show ?thesis by blast
  qed (use n'(1) in \<open>auto intro!: bexI [of _ n']\<close>)
  with n'(2) foldl show ?case using evolves_trans by fastforce
qed (auto intro!: bexI [of _ n])

definition db_step :: "dbstate \<Rightarrow> dbstate \<Rightarrow> bool" where
  "db_step s s' \<longleftrightarrow> (tables_ok s \<longrightarrow> tables_ok s') \<and>
     (\<forall>n\<in>set (notifications s). \<exists>n'\<in>set (notifications s'). evolves n n')"

lemma db_step_refl [simp]: "db_step s s"
  unfolding db_step_def using evolves_refl by (metis (no_types))

lemma db_step_trans: "db_step s s' \<Longrightarrow> db_step s' s'' \<Longrightarrow> db_step s s''"
  unfolding db_step_def using evolves_trans by meson

lemma db_step_same: "(tables_ok s \<Longrightarrow> tables_ok s') \<Longrightarrow> notifications s' = notifications s \<Longrightarrow> db_step s s'"
  unfolding db_step_def using evolves_refl by (metis (no_types))

lemma db_step_docs:
  "\<not> claimed s sid i \<Longrightarrow> db_step s (snd (doc_insert_notification sid i u ty pl s))"
  "db_step s (snd (doc_update_notifications sid cs a s))"
  "db_step s (snd (doc_select_notifications sid cs ord lim s))"
  "db_step s (snd (doc_insert_receipt sid i u t s))"
  "db_step s (snd (doc_select_receipts sid i s))"
  "db_step s (snd (doc_select_one sid s))"
  "db_step s (snd (doc_commit sid s))"
  "db_step s (snd (doc_close_session sid s))"
  "db_step s (snd (doc_dispose eng s))"
proof -
  show "db_step s (snd (doc_commit sid s))"
    by (auto simp: db_step_def doc_commit_def visible_def tables_ok_commit [unfolded doc_commit_def visible_def, simplified]
        intro: writes_evolve)
qed (auto intro!: db_step_same tables_ok_insert tables_ok_statements,
    simp_all add: doc_insert_notification_def doc_update_notifications_def doc_select_notifications_def
      doc_insert_receipt_def doc_select_receipts_def doc_select_one_def doc_close_session_def
      doc_dispose_def add_pending_def Let_def)

abbreviation obeys_db :: "'d database \<Rightarrow> ('r, 'd, 'w, 'a) task \<Rightarrow> bool" where
  "obeys_db D p \<equiv> obeys (on_data D db_step) p"

context database_service
begin

lemma obeys_statement:
  assumes "realises (db_view D) up f g" "\<And>s. db_step s (snd (g s))"
  shows "obeys_db D (db_io f)"
  by (rule obeys_on_data_db) (metis realises_effect [OF assms(1)] assms(2) db_step_refl)

lemma obeys_insert: "obeys_db D (db_io (db_insert_notification D sid i u ty pl))"
proof (rule obeys_on_data_db)
  fix d
  show "db_step (db_view D d) (db_view D (snd (db_insert_notification D sid i u ty pl d)))"
    using insert_waits realises_effect [OF insert_law] db_step_docs(1) db_step_refl by metis
qed

lemmas obeys_statements = obeys_insert
  obeys_statement [OF update_law db_step_docs(2)] obeys_statement [OF select_law db_step_docs(3)]
  obeys_statement [OF receipt_law db_step_docs(4)] obeys_statement [OF receipts_law db_step_docs(5)]
  obeys_statement [OF one_law db_step_docs(6)] obeys_statement [OF commit_law db_step_docs(7)]
  obeys_statement [OF session_law db_step_docs(8)] obeys_statement [OF dispose_law db_step_docs(9)]

lemma obeys_repository:
  "obeys_db D (create D sid i u ty pl)" "obeys_db D (mark_delivered_live D sid i)"
  "obeys_db D (mark_read D sid i u t)" "obeys_db D (get_unread_backlog D sid u lim)"
  "obeys_db D (get_history D sid u lim before)" "obeys_db D (get_read_receipts D sid i)"
  by (auto simp: create_def mark_delivered_live_def mark_read_def get_unread_backlog_def
      get_history_def get_read_receipts_def Let_def intro!: obeys_rules obeys_statements)

lemma obeys_sessions:
  "obeys_db D (get_engine i)" "obeys_db D (get_session_factory i)" "obeys_db D (dispose_engine D i)"
  by (auto simp: get_engine_def get_session_factory_def dispose_engine_def intro!: obeys_rules obeys_statements)

lemma obeys_get_session [intro]: "(\<And>sid. obeys_db D (body sid)) \<Longrightarrow> obeys_db D (get_session D i body)"
  unfolding get_session_def by (intro obeys_rules obeys_statements obeys_sessions)

end

section \<open>What each operation does, one at a time\<close>

subsection \<open>Opening and closing a session\<close>

definition session_of :: "string \<Rightarrow> ('r, 'd, 'w) world \<Rightarrow> nat" where
  "session_of i w = w_fresh (snd (run (get_session_factory i) w))"

definition opened :: "string \<Rightarrow> ('r, 'd, 'w) world \<Rightarrow> ('r, 'd, 'w) world" where
  "opened i w = snd (run (await (get_session_factory i) (\<lambda>_. fresh)) w)"

lemma same_engine: "engine g = e \<Longrightarrow> g\<lparr>engine := e, session_factory := f\<rparr> = g\<lparr>session_factory := f\<rparr>"
  by (cases g) simp

lemma run_factory:
  obtains n e f k where "run (get_session_factory i) w =
    (Inr n, upd_gateway i (\<lambda>g. g\<lparr>engine := e, session_factory := f\<rparr>) (w\<lparr>w_fresh := k\<rparr>))" "w_fresh w \<le> k"
proof -
  let ?g = "w_gateway w i"
  have same: "upd_gateway i (\<lambda>g. g\<lparr>engine := engine ?g, session_factory := session_factory ?g\<rparr>)
      (w\<lparr>w_fresh := w_fresh w\<rparr>) = w"
    by (simp add: upd_gateway_def)
  show ?thesis
  proof (cases "session_factory ?g")
    case (Some n)
    then show ?thesis using that [where n = n and e = "engine ?g" and f = "session_factory ?g" and k = "w_fresh w"] same
      by (simp add: get_session_factory_def)
  next
    case None
    show ?thesis
    proof (cases "engine ?g")
      case (Some n)
      with None show ?thesis
        using that [where n = n and e = "engine ?g" and f = "Some n" and k = "w_fresh w"]
        by (simp add: get_session_factory_def get_engine_def upd_gateway_def same_engine)
    next
      case engine: None
      with None show ?thesis
        using that [where n = "w_fresh w" and e = "Some (w_fresh w)" and f = "Some (w_fresh w)" and k = "Suc (w_fresh w)"]
        by (simp add: get_session_factory_def get_engine_def upd_gateway_def)
    qed
  qed
qed

lemma opened_frame [simp]:
  "w_redis (opened i w) = w_redis w" "w_db (opened i w) = w_db w" "w_ws (opened i w) = w_ws w"
  "w_now (opened i w) = w_now w" "w_time (opened i w) = w_time w" "w_draws (opened i w) = w_draws w"
  "w_uuid4 (opened i w) = w_uuid4 w" "w_token (opened i w) = w_token w"
  "w_printed (opened i w) = w_printed w" "w_taken (opened i w) = w_taken w"
  "connections (w_gateway (opened i w) j) = connections (w_gateway w j)"
  "active_connections (w_gateway (opened i w) j) = active_connections (w_gateway w j)"
  "log (w_gateway (opened i w) j) = log (w_gateway w j)"
  "notifications_persisted_total (w_gateway (opened i w) j) = notifications_persisted_total (w_gateway w j)"
  "notifications_delivered_live_total (w_gateway (opened i w) j) = notifications_delivered_live_total (w_gateway w j)"
  "read_receipts_recorded_total (w_gateway (opened i w) j) = read_receipts_recorded_total (w_gateway w j)"
  by (cases rule: run_factory [of i w]; cases "j = i"; simp add: opened_def)+

lemma run_get_session:
  "run (get_session D i body) w =
     (case run (body (session_of i w)) (opened i w) of
        (r, w') \<Rightarrow>
          ((case fst (db_close D (session_of i w) (w_db w')) of None \<Rightarrow> Inl DbError | Some _ \<Rightarrow> r),
           w'\<lparr>w_db := snd (db_close D (session_of i w) (w_db w'))\<rparr>))"
  by (cases rule: run_factory [of i w])
    (simp add: get_session_def session_of_def opened_def split: prod.splits option.splits)

subsection \<open>The statements\<close>

text \<open>No session has anything uncommitted.\<close>

definition idle :: "dbstate \<Rightarrow> bool" where
  "idle s \<longleftrightarrow> pending s = (\<lambda>_. [])"

lemma idle_simps [simp]: "idle s \<Longrightarrow> pending s sid = []" "idle s \<Longrightarrow> \<not> claimed s sid i"
  by (simp_all add: idle_def claimed_def)

definition new_row :: "dbstate \<Rightarrow> uuid \<Rightarrow> uuid \<Rightarrow> string \<Rightarrow> json \<Rightarrow> notification" where
  "new_row s i u ty pl =
     \<lparr>n_id = next_row s, n_notification_id = i, n_user_id = u, n_type = ty, n_payload = pl,
      n_created_at = db_now s, n_delivered_live = False, n_read_at = None\<rparr>"

abbreviation stored :: "dbstate \<Rightarrow> uuid \<Rightarrow> bool" where
  "stored s i \<equiv> i \<in> n_notification_id ` set (notifications s)"

definition with_row :: "uuid \<Rightarrow> uuid \<Rightarrow> string \<Rightarrow> json \<Rightarrow> dbstate \<Rightarrow> dbstate" where
  "with_row i u ty pl s =
     (if stored s i then s
      else s\<lparr>notifications := notifications s @ [new_row s i u ty pl], next_row := Suc (next_row s)\<rparr>)"

definition with_assigned :: "condition list \<Rightarrow> assignment \<Rightarrow> dbstate \<Rightarrow> dbstate" where
  "with_assigned cs a s =
     s\<lparr>notifications := map (\<lambda>n. if matches cs n then assign a n else n) (notifications s)\<rparr>"

definition with_receipt :: "uuid \<Rightarrow> uuid \<Rightarrow> datetime \<Rightarrow> dbstate \<Rightarrow> dbstate" where
  "with_receipt i u t s =
     s\<lparr>receipts := receipts s @
         [\<lparr>rr_id = next_row s, rr_notification_id = i, rr_user_id = u, rr_read_at = t\<rparr>],
       next_row := Suc (next_row s)\<rparr>"

abbreviation owned :: "dbstate \<Rightarrow> uuid \<Rightarrow> uuid \<Rightarrow> bool" where
  "owned s i u \<equiv> \<exists>n\<in>set (notifications s). n_notification_id n = i \<and> n_user_id n = u"

text \<open>Rows found by their ids are the rows that match, when ids are distinct.\<close>

lemma assign_by_id:
  assumes "distinct (map n_id ns)"
  shows "map (\<lambda>n. if n_id n \<in> set (map n_id (filter p ns)) then f n else n) ns
    = map (\<lambda>n. if p n then f n else n) ns"
proof (rule map_cong [OF HOL.refl])
  fix n assume "n \<in> set ns"
  with assms have "n_id n \<in> n_id ` set (filter p ns) \<longleftrightarrow> p n"
    by (auto simp: distinct_map dest: inj_onD)
  then show "(if n_id n \<in> set (map n_id (filter p ns)) then f n else n) = (if p n then f n else n)"
    by simp
qed

lemma pend_idle [simp]: "pending s sid = [] \<Longrightarrow> (pending s)(sid := []) = pending s"
  by (simp add: fun_upd_idem)

text \<open>\<open>p\<close> returns \<open>r\<close>, touches only the database, and leaves it as \<open>s'\<close>.\<close>

definition db_does ::
  "'d database \<Rightarrow> ('r, 'd, 'w, 'a) task \<Rightarrow> ('r, 'd, 'w) world \<Rightarrow> 'a \<Rightarrow> dbstate \<Rightarrow> bool" where
  "db_does D p w r s' \<longleftrightarrow>
     (\<exists>d. run p w = (Inr r, w\<lparr>w_db := d\<rparr>) \<and> db_view D d = s' \<and> db_up D d)"

lemma db_doesE:
  assumes "db_does D p w r s'"
  obtains d where "run p w = (Inr r, w\<lparr>w_db := d\<rparr>)" "db_view D d = s'" "db_up D d"
  using assms by (auto simp: db_does_def)

lemma db_doesI:
  "run p w = (Inr r, w\<lparr>w_db := d\<rparr>) \<Longrightarrow> db_view D d = s' \<Longrightarrow> db_up D d \<Longrightarrow> db_does D p w r s'"
  by (auto simp: db_does_def)

lemma doc_outcomes [simp]:
  "fst (doc_commit sid s) = Some ()" "fst (doc_insert_receipt sid i u t s) = Some ()"
  "fst (doc_close_session sid s) = Some ()" "fst (doc_select_one sid s) = Some ()"
  "fst (doc_dispose eng s) = Some ()" "snd (doc_select_one sid s) = s" "snd (doc_dispose eng s) = s"
  by (simp_all add: doc_commit_def doc_insert_receipt_def doc_close_session_def doc_select_one_def
      doc_dispose_def)

lemma idle_keeps [simp]:
  "idle s \<Longrightarrow> idle (with_row i u ty pl s)" "idle s \<Longrightarrow> idle (with_assigned cs a s)"
  "idle s \<Longrightarrow> idle (with_receipt i u t s)"
  by (simp_all add: idle_def with_row_def with_assigned_def with_receipt_def)

text \<open>The effect of a statement and the commit after it, with nothing else uncommitted.\<close>

lemma commit_insert:
  assumes "idle s"
  shows "fst (doc_insert_notification sid i u ty pl s) = Some (if stored s i then None else Some (new_row s i u ty pl))"
    "snd (doc_commit sid (snd (doc_insert_notification sid i u ty pl s))) = with_row i u ty pl s"
  using assms
  by (auto simp: doc_insert_notification_def doc_commit_def with_row_def new_row_def list_ex_iff
      visible_def add_pending_def fun_upd_idem Let_def)

lemma doc_commit_idle: "idle s \<Longrightarrow> snd (doc_commit sid s) = s"
  by (simp add: doc_commit_def)

lemma commit_update:
  assumes "idle s" "tables_ok s"
  shows "fst (doc_update_notifications sid cs a s) = Some (length (filter (matches cs) (notifications s)))"
    "snd (doc_commit sid (snd (doc_update_notifications sid cs a s))) = with_assigned cs a s"
    "snd (doc_commit sid (snd (doc_insert_receipt sid i u t (snd (doc_update_notifications sid cs a s)))))
       = with_receipt i u t (with_assigned cs a s)"
  using assms assign_by_id [of "notifications s" "matches cs" "assign a"]
    unique_by_committed [of n_id s]
  by (simp_all add: doc_update_notifications_def doc_commit_def with_assigned_def visible_def
      add_pending_def doc_insert_receipt_def with_receipt_def fun_upd_idem tables_ok_def Let_def)

lemma tables_ok_keeps [simp]:
  assumes "idle s" "tables_ok s"
  shows "tables_ok (with_row i u ty pl s)" "tables_ok (with_assigned cs a s)"
    "tables_ok (with_receipt i u t (with_assigned cs a s))"
  using assms commit_insert(2) [OF assms(1), of 0] commit_update(2,3) [OF assms, of 0]
    tables_ok_commit tables_ok_insert tables_ok_statements idle_simps(2)
  by metis+

lemma with_assigned_none: "\<not> (\<exists>n\<in>set (notifications s). matches cs n) \<Longrightarrow> with_assigned cs a s = s"
  by (simp add: with_assigned_def map_idI)

context database_service
begin

lemma create_does:
  assumes "db_up D (w_db w)" "idle (data D w)"
  shows "db_does D (create D sid i u ty pl) w
    (if stored (data D w) i then None else Some (new_row (data D w) i u ty pl))
    (with_row i u ty pl (data D w))"
  by (rule db_doesI [where d = "snd (db_commit D sid (snd (db_insert_notification D sid i u ty pl (w_db w))))"])
    (use assms insert_up [OF assms(1), of sid i u ty pl] commit_insert [OF assms(2), of sid i u ty pl]
      in \<open>simp_all add: create_def db_up_simps\<close>)

lemma mark_delivered_live_does:
  assumes "db_up D (w_db w)" "idle (data D w)" "tables_ok (data D w)"
  shows "db_does D (mark_delivered_live D sid i) w ()
    (with_assigned [NotificationIdIs i] (SetDeliveredLive True) (data D w))"
  by (rule db_doesI [where d = "snd (db_commit D sid
        (snd (db_update_notifications D sid [NotificationIdIs i] (SetDeliveredLive True) (w_db w))))"])
    (use assms commit_update [OF assms(2,3), where sid = sid]
      in \<open>simp_all add: mark_delivered_live_def db_up_simps\<close>)

lemma mark_read_does:
  assumes "db_up D (w_db w)" "idle (data D w)" "tables_ok (data D w)"
  shows "db_does D (mark_read D sid i u t) w (owned (data D w) i u)
    (if owned (data D w) i u
     then with_receipt i u t (with_assigned [NotificationIdIs i, UserIdIs u] (SetReadAt t) (data D w))
     else data D w)"
proof -
  let ?cs = "[NotificationIdIs i, UserIdIs u]"
  let ?d = "snd (db_update_notifications D sid ?cs (SetReadAt t) (w_db w))"
  have none: "filter (matches ?cs) (notifications (data D w)) = [] \<longleftrightarrow> \<not> owned (data D w) i u"
    by (auto simp: filter_empty_conv)
  note effect = commit_update [OF assms(2,3), where sid = sid and cs = ?cs]
  show ?thesis
  proof (cases "owned (data D w) i u")
    case True
    with none have "filter (matches ?cs) (notifications (data D w)) \<noteq> []" by blast
    then show ?thesis
      by (intro db_doesI [where d = "snd (db_commit D sid (snd (db_insert_receipt D sid i u t ?d)))"])
        (use assms True effect in \<open>simp_all add: mark_read_def db_up_simps\<close>)
  next
    case False
    with none have "filter (matches ?cs) (notifications (data D w)) = []" by blast
    moreover have "with_assigned ?cs (SetReadAt t) (data D w) = data D w"
      using False by (intro with_assigned_none) auto
    ultimately show ?thesis
      by (intro db_doesI [where d = "snd (db_commit D sid ?d)"])
        (use assms False effect in \<open>auto simp: mark_read_def db_up_simps\<close>)
  qed
qed

lemma select_does:
  assumes "db_up D (w_db w)" "idle (data D w)" "0 \<le> lim"
  shows "db_does D (get_unread_backlog D sid u lim) w
      (take (nat lim) (sort_rows CreatedAsc (scan (data D w)
         (filter (matches [UserIdIs u, ReadAtIsNull]) (notifications (data D w)))))) (data D w)"
    "db_does D (get_history D sid u lim before) w
      (take (nat lim) (sort_rows CreatedDesc (scan (data D w)
         (filter (matches (UserIdIs u # (case before of None \<Rightarrow> [] | Some t \<Rightarrow> [CreatedBefore t])))
            (notifications (data D w)))))) (data D w)"
    "db_does D (get_read_receipts D sid i) w
      (sort_key rr_read_at (scan_receipts (data D w)
         (filter (\<lambda>r. rr_notification_id r = i) (receipts (data D w))))) (data D w)"
proof -
  let ?select = "\<lambda>cs ord. snd (db_select_notifications D sid cs ord lim (w_db w))"
  show "db_does D (get_unread_backlog D sid u lim) w
      (take (nat lim) (sort_rows CreatedAsc (scan (data D w)
         (filter (matches [UserIdIs u, ReadAtIsNull]) (notifications (data D w)))))) (data D w)"
    by (rule db_doesI [where d = "?select [UserIdIs u, ReadAtIsNull] CreatedAsc"])
      (use assms in \<open>simp_all add: get_unread_backlog_def db_up_simps doc_select_notifications_def\<close>)
  show "db_does D (get_history D sid u lim before) w
      (take (nat lim) (sort_rows CreatedDesc (scan (data D w)
         (filter (matches (UserIdIs u # (case before of None \<Rightarrow> [] | Some t \<Rightarrow> [CreatedBefore t])))
            (notifications (data D w)))))) (data D w)"
    by (rule db_doesI [where d =
          "?select (UserIdIs u # (case before of None \<Rightarrow> [] | Some t \<Rightarrow> [CreatedBefore t])) CreatedDesc"];
        cases before)
      (use assms in \<open>simp_all add: get_history_def db_up_simps doc_select_notifications_def\<close>)
  show "db_does D (get_read_receipts D sid i) w
      (sort_key rr_read_at (scan_receipts (data D w)
         (filter (\<lambda>r. rr_notification_id r = i) (receipts (data D w))))) (data D w)"
    by (rule db_doesI [where d = "snd (db_select_receipts D sid i (w_db w))"])
      (use assms in \<open>simp_all add: get_read_receipts_def db_up_simps doc_select_receipts_def\<close>)
qed

lemma session_does:
  assumes "db_does D (body (session_of i w)) (opened i w) r s'" "idle s'"
  obtains d where "run (get_session D i body) w = (Inr r, (opened i w)\<lparr>w_db := d\<rparr>)" "db_view D d = s'" "db_up D d"
proof -
  from assms(1) obtain d where d: "run (body (session_of i w)) (opened i w) = (Inr r, (opened i w)\<lparr>w_db := d\<rparr>)"
    "db_view D d = s'" "db_up D d" by (rule db_doesE)
  from d assms(2) show ?thesis
    by (intro that [of "snd (db_close D (session_of i w) d)"])
      (simp_all add: run_get_session db_up_simps, simp_all add: doc_close_session_def)
qed

end

end
