(* ===== verification/Durable_Store.thy ===== *)
theory Durable_Store
  imports Repository
begin

text \<open>
  What the repository of \<open>app/db/repository.py\<close>, used through a session of its own, promises its
  callers: inserts by id happen once, reads are recorded for the owner only and all or nothing,
  and the backlog is the oldest unread notifications of the user.
\<close>

section \<open>All or nothing\<close>

abbreviation committed :: "dbstate \<Rightarrow> tables" where
  "committed s \<equiv> (notifications s, receipts s)"

lemma committed_docs:
  "committed (snd (doc_update_notifications sid cs a s)) = committed s"
  "committed (snd (doc_insert_receipt sid i u t s)) = committed s"
  "committed (snd (doc_close_session sid s)) = committed s"
  "committed (snd (doc_commit sid s)) = visible s sid"
  by (simp_all add: doc_update_notifications_def doc_insert_receipt_def doc_close_session_def
      doc_commit_def add_pending_def Let_def)

text \<open>What a completed \<open>mark_read\<close> makes of the tables.\<close>

definition marked :: "uuid \<Rightarrow> uuid \<Rightarrow> datetime \<Rightarrow> read_receipt \<Rightarrow> tables \<Rightarrow> tables" where
  "marked i u t r = (\<lambda>(ns, rs).
     (map (\<lambda>n. if n_notification_id n = i \<and> n_user_id n = u then n\<lparr>n_read_at := Some t\<rparr> else n) ns,
      rs @ [r]))"

lemma visible_marked:
  assumes "pending s sid = []" "tables_ok s"
  shows "\<exists>r. rr_notification_id r = i \<and> rr_user_id r = u \<and> rr_read_at r = t \<and>
    visible (snd (doc_insert_receipt sid i u t
      (snd (doc_update_notifications sid [NotificationIdIs i, UserIdIs u] (SetReadAt t) s)))) sid =
    marked i u t r (committed s)"
proof -
  let ?cs = "[NotificationIdIs i, UserIdIs u]"
  have "distinct (map n_id (notifications s))"
    using assms(2) unique_by_committed by (auto simp: tables_ok_def)
  from assign_by_id [OF this, of "matches ?cs" "assign (SetReadAt t)"] assms(1) show ?thesis
    by (simp add: doc_insert_receipt_def doc_update_notifications_def visible_def add_pending_def
        marked_def Let_def)
qed

context database_service
begin

lemma committed_commit:
  "committed (db_view D (snd (db_commit D sid d))) = committed (db_view D d) \<or>
   committed (db_view D (snd (db_commit D sid d))) = visible (db_view D d) sid"
  using realises_effect [OF commit_law, of sid d] committed_docs(4) by metis

lemma committed_same:
  "committed (db_view D (snd (db_update_notifications D sid cs a d))) = committed (db_view D d)"
  "committed (db_view D (snd (db_insert_receipt D sid i u t d))) = committed (db_view D d)"
  "committed (db_view D (snd (db_close D sid d))) = committed (db_view D d)"
  using realises_effect [OF update_law] realises_effect [OF receipt_law] realises_effect [OF session_law]
    committed_docs(1-3) by metis+

lemma mark_read_tables:
  fixes w :: "('r, 'd, 'w) world" and t :: datetime and u i :: uuid
  assumes "pending (data D w) sid = []" "tables_ok (data D w)"
  defines "after \<equiv> committed (data D (snd (run (mark_read D sid i u t) w)))"
  shows "after = committed (data D w) \<or>
    owned (data D w) i u \<and>
      (\<exists>r. rr_notification_id r = i \<and> rr_user_id r = u \<and> rr_read_at r = t \<and>
         after = marked i u t r (committed (data D w)))"
proof -
  let ?cs = "[NotificationIdIs i, UserIdIs u]" and ?s = "data D w"
  let ?d1 = "snd (db_update_notifications D sid ?cs (SetReadAt t) (w_db w))"
  let ?d2 = "snd (db_insert_receipt D sid i u t ?d1)"
  have matching: "owned ?s i u" if "0 < length (filter (matches ?cs) (notifications ?s))"
    using that by (fastforce simp: filter_empty_conv)
  show ?thesis
  proof (cases "fst (db_update_notifications D sid ?cs (SetReadAt t) (w_db w))")
    case None
    then show ?thesis by (simp add: after_def mark_read_def committed_same)
  next
    case (Some k)
    from realises_Some [OF update_law Some] assms(1)
    have k: "k = length (filter (matches ?cs) (notifications ?s))"
      and d1: "db_view D ?d1 = snd (doc_update_notifications sid ?cs (SetReadAt t) ?s)"
      by (simp_all add: doc_update_notifications_def Let_def)
    show ?thesis
    proof (cases "k = 0")
      case True
      with k have none: "filter (matches ?cs) (notifications ?s) = []" by simp
      then have seen: "visible (db_view D ?d1) sid = committed ?s"
        using assms(1) unfolding d1
        by (simp add: doc_update_notifications_def visible_def add_pending_def Let_def map_idI)
      have "after = committed (db_view D (snd (db_commit D sid ?d1)))"
        using Some True by (simp add: after_def mark_read_def split: option.splits)
      moreover have "committed (db_view D ?d1) = committed ?s" by (simp only: committed_same)
      ultimately have "after = committed ?s" using committed_commit [of sid ?d1] seen by metis
      then show ?thesis ..
    next
      case False
      show ?thesis
      proof (cases "fst (db_insert_receipt D sid i u t ?d1)")
        case None
        with Some False show ?thesis by (simp add: after_def mark_read_def committed_same)
      next
        case receipt: (Some _)
        have "db_view D ?d2 = snd (doc_insert_receipt sid i u t (db_view D ?d1))"
          using realises_Some(2) [OF receipt_law receipt] .
        with visible_marked [OF assms(1,2), of i u t] d1 obtain r where
          r: "rr_notification_id r = i" "rr_user_id r = u" "rr_read_at r = t"
             "visible (db_view D ?d2) sid = marked i u t r (committed ?s)"
          by auto
        have "after = committed (db_view D (snd (db_commit D sid ?d2)))"
          using Some False receipt by (simp add: after_def mark_read_def split: option.splits)
        moreover have "committed (db_view D ?d2) = committed ?s" by (simp only: committed_same)
        ultimately have "after = committed ?s \<or> after = visible (db_view D ?d2) sid"
          using committed_commit [of sid ?d2] by metis
        with r False k matching show ?thesis by (metis gr0I)
      qed
    qed
  qed
qed

end

section \<open>Pages\<close>

text \<open>The first rows of a sorted arrangement of \<open>xs\<close>: how many, which, and in what order.\<close>

lemma first_rows:
  fixes key :: "'a \<Rightarrow> 'k :: linorder"
  assumes "mset ys = mset xs" "sorted (map key ys)"
  shows "sorted (map key (take k ys))" "length (take k ys) = min k (length xs)"
    "mset (take k ys) \<subseteq># mset xs"
    "m \<in> set xs \<Longrightarrow> m \<notin> set (take k ys) \<Longrightarrow> n \<in> set (take k ys) \<Longrightarrow> key n \<le> key m"
proof -
  show "sorted (map key (take k ys))" using assms(2) by (simp flip: take_map add: sorted_wrt_take)
  show "length (take k ys) = min k (length xs)" using mset_eq_length [OF assms(1)] by simp
  show "mset (take k ys) \<subseteq># mset xs"
    unfolding assms(1) [symmetric] by (metis append_take_drop_id mset_append mset_subset_eq_add_left)
  assume m: "m \<in> set xs" "m \<notin> set (take k ys)" and n: "n \<in> set (take k ys)"
  have "set ys = set (take k ys) \<union> set (drop k ys)" by (metis append_take_drop_id set_append)
  moreover have "m \<in> set ys" using m(1) assms(1) by (metis set_mset_mset)
  ultimately have "m \<in> set (drop k ys)" using m(2) by blast
  moreover have "sorted (map key (take k ys) @ map key (drop k ys))"
    using assms(2) by (metis append_take_drop_id map_append)
  ultimately show "key n \<le> key m" using n by (auto simp: sorted_append)
qed

section \<open>Each operation in a session of its own\<close>

context database_service
begin

lemma session_create:
  assumes "db_up D (w_db w)" "idle (data D w)"
  obtains d where "run (get_session D g (\<lambda>s. create D s i u ty pl)) w =
      (Inr (if stored (data D w) i then None else Some (new_row (data D w) i u ty pl)), (opened g w)\<lparr>w_db := d\<rparr>)"
    "db_view D d = with_row i u ty pl (data D w)" "db_up D d"
proof (rule session_does [where body = "\<lambda>s. create D s i u ty pl" and i = g and w = w])
  show "db_does D (create D (session_of g w) i u ty pl) (opened g w)
      (if stored (data D w) i then None else Some (new_row (data D w) i u ty pl)) (with_row i u ty pl (data D w))"
    using create_does [of "opened g w" "session_of g w" i u ty pl] assms unfolding opened_frame by blast
qed (use assms that in auto)

lemma session_mark_read:
  assumes "db_up D (w_db w)" "idle (data D w)" "tables_ok (data D w)"
  obtains d where "run (get_session D g (\<lambda>s. mark_read D s i u t)) w =
      (Inr (owned (data D w) i u), (opened g w)\<lparr>w_db := d\<rparr>)"
    "db_view D d = (if owned (data D w) i u
       then with_receipt i u t (with_assigned [NotificationIdIs i, UserIdIs u] (SetReadAt t) (data D w))
       else data D w)" "db_up D d"
proof (rule session_does [where body = "\<lambda>s. mark_read D s i u t" and i = g and w = w])
  show "db_does D (mark_read D (session_of g w) i u t) (opened g w) (owned (data D w) i u)
    (if owned (data D w) i u
     then with_receipt i u t (with_assigned [NotificationIdIs i, UserIdIs u] (SetReadAt t) (data D w))
     else data D w)"
    using mark_read_does [of "opened g w" "session_of g w" i u t] assms unfolding opened_frame by blast
qed (use assms that in auto)

lemma session_backlog:
  assumes "db_up D (w_db w)" "idle (data D w)" "0 \<le> lim"
  obtains d where "run (get_session D g (\<lambda>s. get_unread_backlog D s u lim)) w =
      (Inr (take (nat lim) (sort_rows CreatedAsc (scan (data D w)
         (filter (matches [UserIdIs u, ReadAtIsNull]) (notifications (data D w)))))), (opened g w)\<lparr>w_db := d\<rparr>)"
    "db_view D d = data D w" "db_up D d"
proof (rule session_does [where body = "\<lambda>s. get_unread_backlog D s u lim" and i = g and w = w])
  show "db_does D (get_unread_backlog D (session_of g w) u lim) (opened g w)
      (take (nat lim) (sort_rows CreatedAsc (scan (data D w)
         (filter (matches [UserIdIs u, ReadAtIsNull]) (notifications (data D w)))))) (data D w)"
    using select_does(1) [of "opened g w" lim "session_of g w" u] assms unfolding opened_frame by blast
qed (use assms that in auto)

lemma session_mark_read_tables:
  fixes w :: "('r, 'd, 'w) world" and t :: datetime and u i :: uuid and g :: string
  assumes "idle (data D w)" "tables_ok (data D w)"
  defines "after \<equiv> committed (data D (snd (run (get_session D g (\<lambda>s. mark_read D s i u t)) w)))"
  shows "after = committed (data D w) \<or>
    owned (data D w) i u \<and>
      (\<exists>r. rr_notification_id r = i \<and> rr_user_id r = u \<and> rr_read_at r = t \<and>
         after = marked i u t r (committed (data D w)))"
proof -
  let ?w = "snd (run (mark_read D (session_of g w) i u t) (opened g w))"
  have "after = committed (data D ?w)"
    by (simp add: after_def run_get_session case_prod_unfold committed_same del: prod.inject)
  with mark_read_tables [of "opened g w" "session_of g w" i u t] assms(1,2) show ?thesis by simp
qed

end

section \<open>A world with some rows\<close>

definition sample_row :: "nat \<Rightarrow> uuid \<Rightarrow> uuid \<Rightarrow> nat \<Rightarrow> datetime option \<Rightarrow> notification" where
  "sample_row k i u minutes r =
     \<lparr>n_id = k, n_notification_id = i, n_user_id = u, n_type = ''message.received'', n_payload = JObj [],
      n_created_at = Datetime 2026 1 1 0 minutes 0 0, n_delivered_live = False, n_read_at = r\<rparr>"

definition sample_db :: dbstate where
  "sample_db = (empty_db start_time)\<lparr>notifications :=
     [sample_row 1 101 7 3 None, sample_row 2 102 7 1 None, sample_row 3 103 7 2 (Some start_time),
      sample_row 4 104 8 0 None], next_row := 5\<rparr>"

abbreviation sample_world :: "(rstate, dbstate, wstate \<times> nat list) world" where
  "sample_world \<equiv> start_world\<lparr>w_db := sample_db\<rparr>"

lemma mem_database_simps [simp]: "db_up mem_database d" "db_view mem_database = mem_view"
  by (simp_all add: mem_database_def)

lemma mem_view_idle [simp]: "idle (mem_view s) = idle s" "tables_ok (mem_view s) = tables_ok s"
  "notifications (mem_view s) = notifications s" "receipts (mem_view s) = receipts s"
  by (simp_all add: mem_view_def idle_def tables_ok_def unique_by_def ids_below_def)

lemma empty_db_ok [simp]: "idle (empty_db t)" "tables_ok (empty_db t)"
  "notifications (empty_db t) = []" "receipts (empty_db t) = []"
  by (simp_all add: empty_db_def idle_def tables_ok_def unique_by_def ids_below_def)

lemma sample_db_ok [simp]: "idle sample_db" "tables_ok sample_db"
  by (simp_all add: sample_db_def sample_row_def empty_db_def idle_def tables_ok_def unique_by_def ids_below_def)

lemma sample_row_simps [simp]:
  "n_id (sample_row k i u m r) = k" "n_notification_id (sample_row k i u m r) = i"
  "n_user_id (sample_row k i u m r) = u" "n_read_at (sample_row k i u m r) = r"
  "n_created_at (sample_row k i u m r) = Datetime 2026 1 1 0 m 0 0"
  by (simp_all add: sample_row_def)

lemma sample_db_simps [simp]:
  "notifications sample_db = [sample_row 1 101 7 3 None, sample_row 2 102 7 1 None,
     sample_row 3 103 7 2 (Some start_time), sample_row 4 104 8 0 None]"
  "receipts sample_db = []"
  by (simp_all add: sample_db_def empty_db_def)

section \<open>Properties\<close>

text \<open>
  C15. Marking as read is all or nothing: whichever statement fails, and wherever the reply is
  lost, the committed tables are either untouched, or the owner's row has its time and the receipt
  is there.
\<close>

theorem mark_read_atomic:
  assumes "database_service D" "idle (data D w)" "tables_ok (data D w)"
    and "after = committed (data D (snd (run (get_session D g (\<lambda>s. mark_read D s i u t)) w)))"
  shows "after = committed (data D w) \<or>
    owned (data D w) i u \<and>
      (\<exists>r. rr_notification_id r = i \<and> rr_user_id r = u \<and> rr_read_at r = t \<and>
         after = marked i u t r (committed (data D w)))"
  using database_service.session_mark_read_tables [OF assms(1-3), of g i u t] assms(4) by simp

theorem mark_read_atomic_witness:
  "committed (data mem_database (snd (run (get_session mem_database ''i1''
     (\<lambda>s. mark_read mem_database s 101 8 start_time)) sample_world))) = committed (data mem_database sample_world)"
  using mark_read_atomic [OF memdb.database_service_axioms _ _ HOL.refl, where w = sample_world and g = "''i1''" and i = 101 and u = 8 and t = start_time]
  by auto

end
