(* ===== verification/Live_Delivery.thy ===== *)
theory Live_Delivery
  imports Connection_Manager Instance_Registry Schemas Durable_Store
begin

text \<open>
  \<open>app/pubsub/publisher.py\<close>, \<open>app/pubsub/subscriber.py\<close> and the delivery handler of \<open>app/main.py\<close>:
  how a notification travels from the instance that stored it to the socket of its user.
\<close>

section \<open>Publisher\<close>

definition instance_channel :: "string \<Rightarrow> string" where
  "instance_channel inst = ''channel:instance-'' @ inst"

definition publish_to_instance :: "'r redis \<Rightarrow> string \<Rightarrow> json \<Rightarrow> ('r, 'd, 'w, unit) task" where
  "publish_to_instance R inst message =
     (let channel = instance_channel inst in
      await (redis_io (rd_publish R channel (dumps message))) (\<lambda>_. Return ()))"

section \<open>Subscriber\<close>

text \<open>A message of \<open>PubSub.listen()\<close>: its type, and its data, a number for a confirmation.\<close>

datatype pubsub_data = Text string | Count int

record pubsub_message =
  pm_type :: string
  pm_data :: pubsub_data

type_synonym ('r, 'd, 'w) message_handler = "json \<Rightarrow> ('r, 'd, 'w, unit) task"

definition subscriber_start :: "'r redis \<Rightarrow> string \<Rightarrow> ('r, 'd, 'w, nat) task" where
  "subscriber_start R i =
     await fresh (\<lambda>pubsub.
     await (redis_io (rd_subscribe R pubsub (instance_channel i))) (\<lambda>_.
     Return pubsub))"

text \<open>The body of the loop of \<open>_listen\<close>, and the loop over the messages until it is cancelled.\<close>

definition on_message ::
  "string \<Rightarrow> ('r, 'd, 'w) message_handler \<Rightarrow> pubsub_message \<Rightarrow> ('r, 'd, 'w, unit) task" where
  "on_message i handler message =
     (if pm_type message \<noteq> ''message'' then Return ()
      else
        (case (case pm_data message of Text s \<Rightarrow> loads s | Count _ \<Rightarrow> None) of
           None \<Rightarrow> log_line i MalformedMessage
         | Some payload \<Rightarrow> try_except (handler payload) (except_Exception (log_line i HandlerFailed))))"

primrec listen ::
  "string \<Rightarrow> ('r, 'd, 'w) message_handler \<Rightarrow> pubsub_message list \<Rightarrow> ('r, 'd, 'w, unit) task" where
  "listen i handler [] = Raise CancelledError"
| "listen i handler (message # messages) =
     await suspend (\<lambda>_. await (on_message i handler message) (\<lambda>_. listen i handler messages))"

text \<open>\<open>listening\<close> is the task, cancelled and awaited; then the handle is closed.\<close>

definition subscriber_stop ::
  "'r redis \<Rightarrow> ('r, 'd, 'w, unit) task \<Rightarrow> nat option \<Rightarrow> ('r, 'd, 'w, unit) task" where
  "subscriber_stop R listening pubsub =
     await (try_except listening (except_only CancelledError (Return ()))) (\<lambda>_.
       case pubsub of None \<Rightarrow> Return () | Some h \<Rightarrow> redis_io (rd_close R h))"

section \<open>The handler\<close>

definition py_index :: "json \<Rightarrow> string \<Rightarrow> ('r, 'd, 'w, json) task" where
  "py_index j k =
     (case j of
        JObj m \<Rightarrow> (case map_of m k of None \<Rightarrow> Raise KeyError | Some v \<Rightarrow> Return v)
      | _ \<Rightarrow> Raise TypeError)"

text \<open>\<open>time.time() - published_at\<close>, with the clock in microseconds; \<open>None\<close> is a \<open>TypeError\<close>.\<close>

fun latency :: "int \<Rightarrow> json \<Rightarrow> json option" where
  "latency now (JFloat n k) = Some (make_float (now * 10 ^ k - n * 10 ^ 6) (k + 6))"
| "latency now (JInt n) = Some (make_float (now - n * 10 ^ 6) 6)"
| "latency now (JBool b) = Some (make_float (now - (if b then 10 ^ 6 else 0)) 6)"
| "latency now JNaN = Some JNaN"
| "latency now (JInfinity neg) = Some (JInfinity (\<not> neg))"
| "latency now _ = None"

text \<open>The lookup of a user in the dictionary: a key that is no string is not found, or unhashable.\<close>

fun send_to :: "'w websockets \<Rightarrow> string \<Rightarrow> json \<Rightarrow> json \<Rightarrow> ('r, 'd, 'w, bool) task" where
  "send_to W i (JStr user_id) message = send_json W i user_id message"
| "send_to W i (JList _) message = Raise TypeError"
| "send_to W i (JObj _) message = Raise TypeError"
| "send_to W i _ message = Return False"

definition deliver :: "'w websockets \<Rightarrow> string \<Rightarrow> ('r, 'd, 'w) message_handler" where
  "deliver W i payload =
     await (py_index payload ''user_id'') (\<lambda>user_id.
     await (py_index payload ''notification'') (\<lambda>n.
     await (send_to W i user_id (JObj [(''type'', JStr ''notification''), (''notification'', n)])) (\<lambda>delivered.
       let published_at = obj_get payload ''published_at'' in
       if delivered \<and> published_at \<noteq> None \<and> published_at \<noteq> Some JNull then
         await (read_state w_time) (\<lambda>now.
           case latency now (the published_at) of
             None \<Rightarrow> Raise TypeError
           | Some l \<Rightarrow> in_gateway i (\<lambda>g. g\<lparr>delivery_latency_seconds := delivery_latency_seconds g @ [l]\<rparr>))
       else Return ())))"

text \<open>What \<open>create_notification\<close> publishes of a row.\<close>

definition live_notification :: "notification \<Rightarrow> json" where
  "live_notification row =
     JObj [(''notification_id'', JStr (uuid_str (n_notification_id row))),
           (''user_id'', JStr (uuid_str (n_user_id row))),
           (''type'', JStr (n_type row)),
           (''payload'', n_payload row),
           (''created_at'', JStr (isoformat (n_created_at row)))]"

definition live_message :: "uuid \<Rightarrow> int \<Rightarrow> notification \<Rightarrow> json" where
  "live_message user_id now row =
     JObj [(''user_id'', JStr (uuid_str user_id)),
           (''published_at'', make_float now 6),
           (''notification'', live_notification row)]"

definition live_frame :: "notification \<Rightarrow> json" where
  "live_frame row = JObj [(''type'', JStr ''notification''), (''notification'', live_notification row)]"

section \<open>What they do\<close>

lemma instance_channel_inj [simp]: "instance_channel i = instance_channel j \<longleftrightarrow> i = j"
  by (simp add: instance_channel_def)

lemma make_float_norm_form: "\<exists>n k. make_float a (Suc b) = JFloat n k \<and> norm_float n k"
proof (induction b arbitrary: a)
  case (Suc b)
  show ?case
  proof (cases "a mod 10 = 0")
    case True
    then have "make_float a (Suc (Suc b)) = make_float (a div 10) (Suc b)" by simp
    with Suc [of "a div 10"] show ?thesis by metis
  next
    case False
    then have "make_float a (Suc (Suc b)) = JFloat a (Suc (Suc b))" by simp
    moreover have "norm_float a (Suc (Suc b))" using False by (simp add: norm_float_def)
    ultimately show ?thesis by blast
  qed
qed (simp add: norm_float_def)

lemma wf_live_message: "wf_json (n_payload row) \<Longrightarrow> wf_json (live_message u now row)"
proof -
  have "make_float now 6 = make_float now (Suc 5)" by simp
  then obtain n k where "make_float now 6 = JFloat n k" "norm_float n k"
    using make_float_norm_form [of now 5] by metis
  moreover assume "wf_json (n_payload row)"
  ultimately show ?thesis by (simp add: live_message_def live_notification_def)
qed

lemma deliver_fails: "fst (run (deliver W i payload) w) = Inl e \<Longrightarrow> e = KeyError \<or> e = TypeError"
proof -
  have index: "fst (run (py_index j k) v) = Inl e \<Longrightarrow> e = KeyError \<or> e = TypeError" for j k v e
    by (auto simp: py_index_def split: json.splits option.splits)
  have send: "fst (run (send_to W i u m) v) = Inl e \<Longrightarrow> e = TypeError" for u m v e
    by (cases u) (auto simp: run_send_json split: option.splits)
  show "fst (run (deliver W i payload) w) = Inl e \<Longrightarrow> e = KeyError \<or> e = TypeError"
    by (auto simp: deliver_def Let_def dest!: index send split: sum.splits prod.splits if_splits option.splits)
      (metis index send fst_conv)+
qed

lemma on_message_returns: "fst (run (on_message i (deliver W i) m) w) = Inr ()"
proof -
  have "is_Exception e" if "run (deliver W i payload) v = (Inl e, v')" for payload v v' e
    using deliver_fails [of W i payload v e] that by auto
  then show ?thesis
    by (auto simp: on_message_def except_Exception_def split: option.splits sum.splits prod.splits)
qed

lemma listen_ends: "fst (run (listen i (deliver W i) ms) w) = Inl CancelledError"
proof (induction ms arbitrary: w)
  case (Cons m ms)
  then show ?case
    using on_message_returns [of i W m w] by (auto split: sum.splits prod.splits)
qed simp

lemma latency_make_float: "\<exists>l. latency t (make_float a (Suc b)) = Some l"
  using make_float_norm_form [of a b] by (metis latency.simps(1))

context websocket_service
begin

lemma run_deliver:
  assumes "socket_of w i (uuid_str u) = Some x" "ws_up W (w_ws w) x"
  shows "\<exists>w'. run (deliver W i (live_message u t row)) w = (Inr (), w') \<and>
    wires W w' = snd (doc_send x (live_frame row) (wires W w)) \<and>
    w_redis w' = w_redis w \<and> w_db w' = w_db w \<and>
    connections (w_gateway w' i) = connections (w_gateway w i)"
proof -
  have "make_float t 6 = make_float t (Suc 5)" by simp
  then obtain n k where float: "make_float t 6 = JFloat n k"
    using make_float_norm_form [of t 5] by metis
  show ?thesis
    using assms
    by (auto simp: deliver_def py_index_def live_message_def live_frame_def run_send_json ws_up_simps
        Let_def float doc_send_def)
qed

lemma run_on_message:
  assumes "socket_of w i (uuid_str u) = Some x" "ws_up W (w_ws w) x" "wf_json (n_payload row)"
    and "pm_type m = ''message''" "pm_data m = Text (dumps (live_message u t row))"
  shows "\<exists>w'. run (on_message i (deliver W i) m) w = (Inr (), w') \<and>
    wires W w' = snd (doc_send x (live_frame row) (wires W w)) \<and>
    w_redis w' = w_redis w \<and> w_db w' = w_db w \<and>
    connections (w_gateway w' i) = connections (w_gateway w i)"
proof -
  have "loads (dumps (live_message u t row)) = Some (live_message u t row)"
    by (rule loads_dumps) (rule wf_live_message [OF assms(3)])
  moreover obtain w' where "run (deliver W i (live_message u t row)) w = (Inr (), w')"
    "wires W w' = snd (doc_send x (live_frame row) (wires W w))" "w_redis w' = w_redis w"
    "w_db w' = w_db w" "connections (w_gateway w' i) = connections (w_gateway w i)"
    using run_deliver [OF assms(1,2)] by metis
  ultimately show ?thesis using assms(4,5) by (simp add: on_message_def)
qed

end

context redis_service
begin

lemma run_publish:
  assumes "redis_up R w"
  shows "run (publish_to_instance R i m) w =
      (Inr (), w\<lparr>w_redis := snd (rd_publish R (instance_channel i) (dumps m) (w_redis w))\<rparr>)"
    "rd_view R (snd (rd_publish R (instance_channel i) (dumps m) (w_redis w))) =
       snd (doc_publish (instance_channel i) (dumps m) (store R w))"
    "rd_up R (snd (rd_publish R (instance_channel i) (dumps m) (w_redis w)))"
  using assms by (simp_all add: publish_to_instance_def up_simps redis_docs)

end

section \<open>Properties\<close>

text \<open>
  The subscriber outlives every message: whatever arrives (a subscription notice, text that
  is no JSON, JSON of any shape, a user who is not here, a socket that fails), the loop handles
  it and goes on; only its cancellation ends it.
\<close>

theorem subscriber_survives_messages:
  "fst (run (listen i (deliver W i) messages) w) = Inl CancelledError"
  by (rule listen_ends)

end
