(* ===== verification/Rate_Limiter.thy ===== *)
theory Rate_Limiter
  imports World
begin

text \<open>
  \<open>app/core/rate_limiter.py\<close>: the Lua script and the object that runs it. What it computes is a
  counter per fixed window, said below as a small state machine that the script refines.
\<close>

section \<open>The code\<close>

text \<open>The script of the file: an error reply of \<open>INCR\<close> aborts it.\<close>

definition token_bucket_script :: "string \<Rightarrow> int \<Rightarrow> int \<Rightarrow> script" where
  "token_bucket_script key limit window s =
     (case doc_incr key s of
        (None, s') \<Rightarrow> (None, s')
      | (Some n, s') \<Rightarrow>
          (let s'' = (if n = 1 then snd (doc_expire key window s') else s') in
           (Some (if n > limit then 0 else 1), s'')))"

definition rate_limit_key :: "string \<Rightarrow> string" where
  "rate_limit_key connection_id = ''rate_limit:'' @ connection_id"

definition allow :: "'r redis \<Rightarrow> int \<Rightarrow> int \<Rightarrow> string \<Rightarrow> ('r, 'd, 'w, bool) task" where
  "allow R limit window connection_id =
     await (redis_io (rd_eval R (token_bucket_script (rate_limit_key connection_id) limit window)))
       (\<lambda>result. Return (result \<noteq> 0))"

lemma rate_limit_key_inj [simp]: "rate_limit_key c = rate_limit_key d \<longleftrightarrow> c = d"
  by (simp add: rate_limit_key_def)

section \<open>The window counter\<close>

text \<open>
  What is promised: the first call opens a window of \<open>window\<close> seconds, calls are counted until it
  is over, and a call is admitted while the count is within the limit. The state is the count
  and the milliseconds left, or nothing between windows.
\<close>

type_synonym counter = "(int \<times> nat) option"

fun tick :: "nat \<Rightarrow> counter \<Rightarrow> counter" where
  "tick d None = None"
| "tick d (Some (n, m)) = (if m \<le> d then None else Some (n, m - d))"

fun hit :: "int \<Rightarrow> counter \<Rightarrow> counter" where
  "hit window None = Some (1, 1000 * nat window)"
| "hit window (Some (n, m)) = Some (n + 1, m)"

fun count_of :: "counter \<Rightarrow> int" where
  "count_of None = 0"
| "count_of (Some (n, m)) = n"

text \<open>A counter that exists has counted a call.\<close>

definition wf_counter :: "counter \<Rightarrow> bool" where
  "wf_counter c \<longleftrightarrow> c = None \<or> 1 \<le> count_of c"

lemma wf_counter_simps [simp]:
  "wf_counter None" "wf_counter (Some (n, m)) \<longleftrightarrow> 1 \<le> n"
  by (simp_all add: wf_counter_def)

lemma wf_counter_step [simp]: "wf_counter c \<Longrightarrow> wf_counter (tick d c)" "wf_counter c \<Longrightarrow> wf_counter (hit window c)"
  by (cases c; auto)+

definition admits :: "int \<Rightarrow> counter \<Rightarrow> bool" where
  "admits limit c \<longleftrightarrow> count_of c < limit"

text \<open>Calls made after the given pauses: which are admitted, and the counter then.\<close>

fun hits :: "int \<Rightarrow> int \<Rightarrow> nat list \<Rightarrow> counter \<Rightarrow> bool list \<times> counter" where
  "hits limit window [] c = ([], c)"
| "hits limit window (d # ds) c =
     (let c' = tick d c; (bs, c'') = hits limit window ds (hit window c') in
      (admits limit c' # bs, c''))"

abbreviation admitted :: "bool list \<Rightarrow> nat" where
  "admitted bs \<equiv> length (filter (\<lambda>b. b) bs)"

lemma hits_Some:
  assumes "sum_list ds < m" "0 \<le> n"
  shows "hits limit window ds (Some (n, m)) =
    (map (\<lambda>i. n + int i < limit) [0..<length ds], Some (n + int (length ds), m - sum_list ds))"
  using assms
proof (induction ds arbitrary: n m)
  case (Cons d ds)
  then have "hits limit window ds (Some (n + 1, m - d)) =
    (map (\<lambda>i. n + 1 + int i < limit) [0..<length ds], Some (n + 1 + int (length ds), m - d - sum_list ds))"
    by (intro Cons.IH) auto
  moreover have "[0..<length (d # ds)] = 0 # map Suc [0..<length ds]"
    by (simp only: list.size upt_conv_Cons map_Suc_upt) simp
  ultimately show ?case using Cons.prems by (simp add: admits_def comp_def ac_simps del: upt_Suc)
qed simp

lemma filter_below: "length (filter (\<lambda>i. n + int i < limit) [0..<k]) \<le> nat (limit - n)"
proof -
  have "set (filter (\<lambda>i. n + int i < limit) [0..<k]) \<subseteq> {0..<nat (limit - n)}" by auto
  then have "card (set (filter (\<lambda>i. n + int i < limit) [0..<k])) \<le> card {0..<nat (limit - n)}"
    by (intro card_mono) auto
  moreover have "distinct (filter (\<lambda>i. n + int i < limit) [0..<k])" by simp
  ultimately show ?thesis by (metis card_atLeastLessThan diff_zero distinct_card)
qed

text \<open>Within one window no more than the limit is admitted.\<close>

lemma window_admits:
  assumes "sum_list ds < m" "0 \<le> n"
  shows "admitted (fst (hits limit window ds (Some (n, m)))) \<le> nat (limit - n)"
  using filter_below [of n limit "length ds"] hits_Some [OF assms, of limit window]
  by (simp add: filter_map comp_def)

lemma fresh_window_admits:
  assumes "sum_list ds < 1000 * nat window" "0 \<le> limit"
  shows "admitted (fst (hits limit window (d # ds) None)) \<le> nat limit"
proof -
  have "hits limit window (d # ds) None =
      (admits limit None # fst (hits limit window ds (Some (1, 1000 * nat window))),
       snd (hits limit window ds (Some (1, 1000 * nat window))))"
    by (simp add: case_prod_unfold Let_def)
  with window_admits [of ds "1000 * nat window" 1 limit window] assms
  show ?thesis by (auto simp: admits_def)
qed

section \<open>The script refines the counter\<close>

text \<open>What the key holds, as a counter; the code keeps it a volatile 64-bit integer.\<close>

abbreviation limit_entry :: "'r redis \<Rightarrow> ('r, 'd, 'w) world \<Rightarrow> string \<Rightarrow> (string \<times> nat option) option" where
  "limit_entry R w c \<equiv> entries (store R w) (rate_limit_key c)"

definition counts :: "'r redis \<Rightarrow> string \<Rightarrow> ('r, 'd, 'w) world \<Rightarrow> counter \<Rightarrow> bool" where
  "counts R c w k \<longleftrightarrow>
     limit_entry R w c = map_option (\<lambda>(n, m). (show_int n, Some m)) k \<and> wf_counter k"

lemma counts_elapse:
  assumes "redis_service R" "counts R c w k"
  shows "counts R c (elapse R d w) (tick d k)"
  using assms(2) redis_service.wait_law [OF assms(1)]
  by (cases k) (auto simp: counts_def elapse_def redis_docs)

lemma script_hit:
  assumes "entries s key = map_option (\<lambda>(n, m). (show_int n, Some m)) k"
    and "wf_counter k" "count_of k < 2 ^ 63 - 1" "0 < window"
  shows "fst (token_bucket_script key limit window s) = Some (if admits limit k then 1 else 0)"
    "entries (snd (token_bucket_script key limit window s)) =
       (entries s)(key := map_option (\<lambda>(n, m). (show_int n, Some m)) (hit window k))"
proof -
  consider "k = None" | n m where "k = Some (n, m)" by (cases k) auto
  then have "fst (token_bucket_script key limit window s) = Some (if admits limit k then 1 else 0) \<and>
    entries (snd (token_bucket_script key limit window s)) =
       (entries s)(key := map_option (\<lambda>(n, m). (show_int n, Some m)) (hit window k))"
  proof cases
    case 1
    then show ?thesis using assms
      by (auto simp: token_bucket_script_def doc_incr_def doc_expire_def admits_def)
  next
    case (2 n m)
    with assms show ?thesis
      by (auto simp: token_bucket_script_def doc_incr_def doc_expire_def admits_def Let_def)
  qed
  then show "fst (token_bucket_script key limit window s) = Some (if admits limit k then 1 else 0)"
    "entries (snd (token_bucket_script key limit window s)) =
       (entries s)(key := map_option (\<lambda>(n, m). (show_int n, Some m)) (hit window k))"
    by blast+
qed

text \<open>Calls of \<open>allow\<close> on one connection after the given pauses, and their outcomes.\<close>

fun calls :: "'r redis \<Rightarrow> int \<Rightarrow> int \<Rightarrow> string \<Rightarrow> nat list \<Rightarrow> ('r, 'd, 'w) world
    \<Rightarrow> (exn + bool) list \<times> ('r, 'd, 'w) world" where
  "calls R limit window c [] w = ([], w)"
| "calls R limit window c (d # ds) w =
     (let (r, w') = run (allow R limit window c) (elapse R d w);
          (rs, w'') = calls R limit window c ds w' in
      (r # rs, w''))"

context redis_service
begin

lemma run_allow:
  assumes "redis_up R w" "counts R c w k" "count_of k < 2 ^ 63 - 1" "0 < window"
  shows "run (allow R limit window c) w = (Inr (admits limit k),
      w\<lparr>w_redis := snd (rd_eval R (token_bucket_script (rate_limit_key c) limit window) (w_redis w))\<rparr>)"
    "entries (store R (snd (run (allow R limit window c) w))) =
       (entries (store R w))(rate_limit_key c := map_option (\<lambda>(n, m). (show_int n, Some m)) (hit window k))"
    "redis_up R (snd (run (allow R limit window c) w))"
    "counts R c (snd (run (allow R limit window c) w)) (hit window k)"
  using assms script_hit [of "store R w" "rate_limit_key c" k window limit]
  by (auto simp: allow_def up_simps counts_def)

lemma calls_hits:
  assumes "redis_up R w" "counts R c w k" "count_of k + int (length ds) < 2 ^ 63" "0 < window" "0 \<le> count_of k"
  shows "fst (calls R limit window c ds w) = map Inr (fst (hits limit window ds k)) \<and>
    counts R c (snd (calls R limit window c ds w)) (snd (hits limit window ds k)) \<and>
    redis_up R (snd (calls R limit window c ds w))"
  using assms
proof (induction ds arbitrary: w k)
  case (Cons d ds)
  let ?w = "elapse R d w" and ?k = "tick d k"
  have up: "redis_up R ?w" using Cons.prems(1) by (simp add: elapse_def up_simps)
  have cs: "counts R c ?w ?k" using redis_service_axioms Cons.prems(2) by (rule counts_elapse)
  have le: "count_of ?k \<le> count_of k" "0 \<le> count_of ?k" using Cons.prems(5) by (cases k; auto)+
  have lt: "count_of ?k < 2 ^ 63 - 1" using le Cons.prems(3) by simp
  have hit: "count_of (hit window ?k) = count_of ?k + 1" by (cases ?k) auto
  note one = run_allow [OF up cs lt Cons.prems(4), of limit]
  have "fst (calls R limit window c ds (snd (run (allow R limit window c) ?w)))
        = map Inr (fst (hits limit window ds (hit window ?k))) \<and>
      counts R c (snd (calls R limit window c ds (snd (run (allow R limit window c) ?w))))
        (snd (hits limit window ds (hit window ?k))) \<and>
      redis_up R (snd (calls R limit window c ds (snd (run (allow R limit window c) ?w))))"
    using Cons.prems le hit by (intro Cons.IH one(3,4)) simp_all
  with one(1) show ?case by (simp add: case_prod_unfold Let_def)
qed (simp add: counts_def)

text \<open>However a call ends, it leaves no counter without an expiry.\<close>

lemma allow_volatile:
  assumes "\<And>v. limit_entry R w c \<noteq> Some (v, None)"
  shows "limit_entry R (snd (run (allow R limit window c) w)) c \<noteq> Some (v, None)"
proof -
  let ?p = "token_bucket_script (rate_limit_key c) limit window"
  let ?s = "store R w"
  have script: "entries (snd (?p ?s)) (rate_limit_key c) \<noteq> Some (v, None)"
    using assms
    by (auto simp: token_bucket_script_def doc_incr_def doc_expire_def Let_def
        split: option.splits prod.splits if_splits)
  have "store R (snd (run (allow R limit window c) w)) \<in> {?s, snd (?p ?s)}"
    using realises_effect [OF eval_law [of ?p], of "w_redis w"]
    by (auto simp: allow_def split: option.splits)
  with script assms show ?thesis by auto
qed

end

section \<open>Properties\<close>

text \<open>A span shorter than the window meets at most two windows.\<close>

lemma span_admits:
  assumes "sum_list ds < 1000 * nat window" "1 \<le> n" "0 \<le> limit"
  shows "admitted (fst (hits limit window ds (Some (n, m)))) \<le> nat (limit - n) + nat limit"
  using assms
proof (induction ds arbitrary: n m)
  case (Cons d ds)
  show ?case
  proof (cases "m \<le> d")
    case True
    then have "hits limit window (d # ds) (Some (n, m)) = hits limit window (d # ds) None" by simp
    with fresh_window_admits [of ds window limit d] Cons.prems show ?thesis
      by (simp del: hits.simps)
  next
    case False
    with Cons.IH [of "n + 1" "m - d"] Cons.prems show ?thesis
      by (auto simp: admits_def case_prod_unfold Let_def)
  qed
qed simp

abbreviation allowed :: "(exn + bool) list \<Rightarrow> nat" where
  "allowed rs \<equiv> length (filter (\<lambda>r. r = Inr True) rs)"

text \<open>
  C12. The script implements the window counter: run on a connection after any pauses, it
  answers as the counter does and leaves the counter's state in Redis.
\<close>

theorem rate_limiter_refines_counter:
  assumes "redis_service R" "redis_up R w" "counts R c w k" "0 < window"
    and "count_of k + int (length ds) < 2 ^ 63" "0 \<le> count_of k"
  shows "fst (calls R limit window c ds w) = map Inr (fst (hits limit window ds k)) \<and>
    counts R c (snd (calls R limit window c ds w)) (snd (hits limit window ds k))"
  using redis_service.calls_hits [OF assms(1-3,5,4,6)] by blast

lemma start_counts: "counts mem_redis c start_world None"
  by (simp add: counts_def mem_world_def empty_redis_def)

theorem rate_limiter_refines_counter_witness:
  "fst (calls mem_redis 2 10 ''c'' [0, 1, 1, 9999] start_world) = map Inr [True, True, False, True]"
proof -
  have "fst (hits 2 10 [0, 1, 1, 9999] None) = [True, True, False, True]" by (simp add: admits_def)
  with rate_limiter_refines_counter [OF mem.redis_service_axioms _ start_counts,
      where ds = "[0, 1, 1, 9999]" and c = "''c''" and limit = 2 and window = 10]
  show ?thesis by simp
qed

context redis_service
begin

lemma allowed_calls:
  assumes "redis_up R w" "counts R c w k" "count_of k + int (length ds) < 2 ^ 63" "0 < window" "0 \<le> count_of k"
  shows "allowed (fst (calls R limit window c ds w)) = admitted (fst (hits limit window ds k))"
  using calls_hits [OF assms, of limit] by (simp add: comp_def)

lemma span_allowed:
  assumes "redis_up R w" "counts R c w k" "0 < window" "0 \<le> limit"
    and "count_of k + int (length ds) < 2 ^ 63 - 1" "sum_list ds < 1000 * nat window"
  shows "allowed (fst (calls R limit window c (d # ds) w)) \<le> 2 * nat limit"
proof -
  have pos: "0 \<le> count_of k" using assms(2) by (cases k) (auto simp: counts_def)
  have "admitted (fst (hits limit window (d # ds) k)) \<le> 2 * nat limit"
  proof (cases "tick d k")
    case None
    then have "hits limit window (d # ds) k = hits limit window (d # ds) None" by simp
    with fresh_window_admits [of ds window limit d] assms(4,6) show ?thesis by (simp del: hits.simps)
  next
    case (Some p)
    moreover from this assms(2) have "1 \<le> fst p" by (cases k; auto simp: counts_def split: if_splits)
    ultimately show ?thesis
      using span_admits [of ds window "fst p + 1" limit "snd p"] assms(4,6)
      by (cases p) (auto simp: admits_def case_prod_unfold Let_def)
  qed
  with allowed_calls [OF assms(1,2) _ assms(3) pos, of "d # ds" limit] assms(5)
  show ?thesis by (simp del: hits.simps calls.simps)
qed

end

text \<open>
  C13. In any span shorter than the window, wherever it lies, at most twice the limit is
  admitted.
\<close>

theorem rate_limiter_bound:
  assumes "redis_service R" "redis_up R w" "counts R c w k" "0 < window" "0 \<le> limit"
    and "count_of k + int (length ds) < 2 ^ 63 - 1" "sum_list ds < 1000 * nat window"
  shows "allowed (fst (calls R limit window c (d # ds) w)) \<le> 2 * nat limit"
  using assms by (rule redis_service.span_allowed)

theorem rate_limiter_bound_witness:
  "allowed (fst (calls mem_redis 2 10 ''c'' [0, 9998, 1, 0] start_world)) \<le> 2 * nat 2"
  by (rule rate_limiter_bound [OF mem.redis_service_axioms _ start_counts]) simp_all

text \<open>
  The window is fixed, not sliding, and not a token bucket: the limit is no bound on a
  span as short as a millisecond. With a limit of two in ten seconds, three calls of the last
  millisecond of a window and the first of the next one all pass.
\<close>

theorem rate_limiter_burst:
  "fst (calls mem_redis 2 10 ''c'' [0, 9999, 1, 0] start_world) = map Inr [True, True, True, True]"
proof -
  have "fst (hits 2 10 [0, 9999, 1, 0] None) = [True, True, True, True]" by (simp add: admits_def)
  with mem.calls_hits [OF _ start_counts,
      where ds = "[0, 9999, 1, 0]" and c = "''c''" and limit = 2 and window = 10] show ?thesis by simp
qed

end
