(* ===== verification/Idempotency.thy ===== *)
theory Idempotency
  imports Lease
begin

text \<open>
  \<open>app/core/idempotency.py\<close>: the quick check for a notification id handled a short while ago.
  A lease store whose entries are only ever written.
\<close>

definition dedup_key :: "uuid \<Rightarrow> string" where
  "dedup_key i = ''notification_dedup:'' @ uuid_str i"

definition has_seen :: "'r redis \<Rightarrow> uuid \<Rightarrow> ('r, 'd, 'w, bool) task" where
  "has_seen R i = await (redis_io (rd_get R (dedup_key i))) (\<lambda>v. Return (v \<noteq> None))"

definition mark_seen :: "'r redis \<Rightarrow> int \<Rightarrow> uuid \<Rightarrow> ('r, 'd, 'w, unit) task" where
  "mark_seen R ttl i = redis_io (rd_set R (dedup_key i) ''1'' (Some ttl))"

lemma dedup_key_inj [simp]: "dedup_key i = dedup_key j \<longleftrightarrow> i = j"
  by (simp add: dedup_key_def)

abbreviation seen :: "'r redis \<Rightarrow> ('r, 'd, 'w) world \<Rightarrow> uuid \<Rightarrow> bool" where
  "seen R w i \<equiv> entries (store R w) (dedup_key i) \<noteq> None"

context redis_service
begin

lemma run_has_seen:
  "redis_up R w \<Longrightarrow> run (has_seen R i) w =
     (Inr (seen R w i), w\<lparr>w_redis := snd (rd_get R (dedup_key i) (w_redis w))\<rparr>)"
  by (simp add: has_seen_def up_simps redis_docs)

lemma run_mark_seen:
  "redis_up R w \<Longrightarrow> 0 < ttl \<Longrightarrow> run (mark_seen R ttl i) w =
     (Inr (), w\<lparr>w_redis := snd (rd_set R (dedup_key i) ''1'' (Some ttl) (w_redis w))\<rparr>)"
  by (simp add: mark_seen_def up_simps redis_docs)

end

sublocale redis_service \<subseteq> dedup: lease_store
  "\<lambda>i v t w. snd (run (mark_seen R t i) w)" "elapse R"
  "\<lambda>w i. map_option (\<lambda>(_, m). ((), m)) (entries (store R w) (dedup_key i))" "redis_up R" "\<lambda>_. True"
  by unfold_locales
    (simp_all add: run_mark_seen up_simps redis_docs elapse_def age_map [of _ "\<lambda>_. ()"])

end
