(* ===== verification/Presence.thy ===== *)
theory Presence
  imports Lease
begin

text \<open>
  \<open>app/presence/presence_store.py\<close> and \<open>presence_manager.py\<close>: who is online, away or offline. The
  status lives in Redis under a lifetime, the time last seen without one. A small state machine
  says what is promised, and the code refines it.
\<close>

section \<open>The store\<close>

definition presence_key :: "string \<Rightarrow> string" where
  "presence_key user_id = ''presence:'' @ user_id"

definition last_seen_key :: "string \<Rightarrow> string" where
  "last_seen_key user_id = ''presence:last_seen:'' @ user_id"

definition touch_last_seen :: "'r redis \<Rightarrow> string \<Rightarrow> ('r, 'd, 'w, unit) task" where
  "touch_last_seen R user_id =
     await (read_state w_now) (\<lambda>now. redis_io (rd_set R (last_seen_key user_id) (isoformat now) None))"

definition set_online :: "'r redis \<Rightarrow> string \<Rightarrow> int \<Rightarrow> ('r, 'd, 'w, unit) task" where
  "set_online R user_id ttl =
     await (redis_io (rd_set R (presence_key user_id) ''online'' (Some ttl))) (\<lambda>_.
     touch_last_seen R user_id)"

definition set_away :: "'r redis \<Rightarrow> string \<Rightarrow> int \<Rightarrow> ('r, 'd, 'w, unit) task" where
  "set_away R user_id ttl =
     await (redis_io (rd_set R (presence_key user_id) ''away'' (Some ttl))) (\<lambda>_.
     touch_last_seen R user_id)"

definition refresh_presence :: "'r redis \<Rightarrow> string \<Rightarrow> int \<Rightarrow> ('r, 'd, 'w, unit) task" where
  "refresh_presence R user_id ttl =
     await (redis_io (rd_expire R (presence_key user_id) ttl)) (\<lambda>_. touch_last_seen R user_id)"

definition clear_presence :: "'r redis \<Rightarrow> string \<Rightarrow> ('r, 'd, 'w, unit) task" where
  "clear_presence R user_id =
     await (redis_io (rd_delete R (presence_key user_id))) (\<lambda>_. Return ())"

definition get_status :: "'r redis \<Rightarrow> string \<Rightarrow> ('r, 'd, 'w, string) task" where
  "get_status R user_id =
     await (redis_io (rd_get R (presence_key user_id))) (\<lambda>v.
       case v of None \<Rightarrow> Return ''offline'' | Some x \<Rightarrow> Return x)"

definition get_last_seen :: "'r redis \<Rightarrow> string \<Rightarrow> ('r, 'd, 'w, datetime option) task" where
  "get_last_seen R user_id =
     await (redis_io (rd_get R (last_seen_key user_id))) (\<lambda>v.
       case v of
         None \<Rightarrow> Return None
       | Some raw \<Rightarrow>
           (case fromisoformat raw of None \<Rightarrow> Raise ValueError | Some d \<Rightarrow> Return (Some d)))"

section \<open>The manager\<close>

datatype presence_status = ONLINE | AWAY | OFFLINE

fun status_value :: "presence_status \<Rightarrow> string" where
  "status_value ONLINE = ''online''"
| "status_value AWAY = ''away''"
| "status_value OFFLINE = ''offline''"

text \<open>\<open>PresenceStatus(value)\<close>, which raises on any other text.\<close>

definition presence_status_of :: "string \<Rightarrow> presence_status option" where
  "presence_status_of v =
     (if v = ''online'' then Some ONLINE else if v = ''away'' then Some AWAY
      else if v = ''offline'' then Some OFFLINE else None)"

record presence_info =
  pi_user_id :: string
  pi_status :: presence_status
  pi_last_seen :: "datetime option"

definition mark_online :: "'r redis \<Rightarrow> int \<Rightarrow> string \<Rightarrow> ('r, 'd, 'w, unit) task" where
  "mark_online R ttl user_id = set_online R user_id ttl"

definition mark_away :: "'r redis \<Rightarrow> int \<Rightarrow> string \<Rightarrow> ('r, 'd, 'w, unit) task" where
  "mark_away R ttl user_id = set_away R user_id ttl"

definition heartbeat :: "'r redis \<Rightarrow> int \<Rightarrow> string \<Rightarrow> ('r, 'd, 'w, unit) task" where
  "heartbeat R ttl user_id = refresh_presence R user_id ttl"

definition mark_offline :: "'r redis \<Rightarrow> string \<Rightarrow> ('r, 'd, 'w, unit) task" where
  "mark_offline R user_id = clear_presence R user_id"

definition get_presence_info :: "'r redis \<Rightarrow> string \<Rightarrow> ('r, 'd, 'w, presence_info) task" where
  "get_presence_info R user_id =
     await (get_status R user_id) (\<lambda>status.
     await (get_last_seen R user_id) (\<lambda>last_seen.
       case presence_status_of status of
         None \<Rightarrow> Raise ValueError
       | Some st \<Rightarrow> Return \<lparr>pi_user_id = user_id, pi_status = st, pi_last_seen = last_seen\<rparr>))"

section \<open>Keys\<close>

text \<open>A user id is a string \<open>uuid.UUID\<close> accepts; the ticket endpoint lets nothing else through.\<close>

definition is_user_id :: "string \<Rightarrow> bool" where
  "is_user_id s \<longleftrightarrow> py_UUID s \<noteq> None"

lemma is_user_id_str [simp]: "is_user_id (uuid_str u)"
  by (simp add: is_user_id_def)

lemma presence_key_inj [simp]: "presence_key u = presence_key v \<longleftrightarrow> u = v"
  by (simp add: presence_key_def)

lemma last_seen_key_inj [simp]: "last_seen_key u = last_seen_key v \<longleftrightarrow> u = v"
  by (simp add: last_seen_key_def)

lemma last_seen_is_presence: "last_seen_key u = presence_key (''last_seen:'' @ u)"
  by (simp add: presence_key_def last_seen_key_def)

lemma presence_last_seen_distinct [simp]:
  assumes "is_user_id u"
  shows "presence_key u \<noteq> last_seen_key v" "last_seen_key v \<noteq> presence_key u"
  using assms by (auto simp: last_seen_is_presence is_user_id_def)

section \<open>What each operation does\<close>

abbreviation presence_entry :: "'r redis \<Rightarrow> ('r, 'd, 'w) world \<Rightarrow> string \<Rightarrow> (string \<times> nat option) option" where
  "presence_entry R w u \<equiv> entries (store R w) (presence_key u)"

lemma status_of_value [simp]: "presence_status_of (status_value st) = Some st"
  by (cases st) (simp_all add: presence_status_of_def)

text \<open>The one shape of a state change here: a change of the status key, then the time last seen.\<close>

definition touched :: "'r redis \<Rightarrow> string \<Rightarrow> 'r \<Rightarrow> ('r, 'd, 'w) world \<Rightarrow> ('r, 'd, 'w) world" where
  "touched R u r w = w\<lparr>w_redis := snd (rd_set R (last_seen_key u) (isoformat (w_now w)) None r)\<rparr>"

lemma touched_frame [simp]:
  "w_db (touched R u r w) = w_db w" "w_ws (touched R u r w) = w_ws w"
  "w_gateway (touched R u r w) = w_gateway w" "w_now (touched R u r w) = w_now w"
  "w_time (touched R u r w) = w_time w" "w_fresh (touched R u r w) = w_fresh w"
  "w_draws (touched R u r w) = w_draws w" "w_uuid4 (touched R u r w) = w_uuid4 w"
  "w_token (touched R u r w) = w_token w"
  by (simp_all add: touched_def)

context redis_service
begin

lemma store_touched:
  "rd_up R r \<Longrightarrow> entries (store R (touched R u r w)) =
     (entries (rd_view R r))(last_seen_key u \<mapsto> (isoformat (w_now w), None))"
  "rd_up R r \<Longrightarrow> redis_up R (touched R u r w)"
  by (simp_all add: touched_def up_simps redis_docs)

lemma run_set_status:
  "redis_up R w \<Longrightarrow> 0 < ttl \<Longrightarrow> run (set_online R u ttl) w =
     (Inr (), touched R u (snd (rd_set R (presence_key u) ''online'' (Some ttl) (w_redis w))) w)"
  "redis_up R w \<Longrightarrow> 0 < ttl \<Longrightarrow> run (set_away R u ttl) w =
     (Inr (), touched R u (snd (rd_set R (presence_key u) ''away'' (Some ttl) (w_redis w))) w)"
  by (simp_all add: set_online_def set_away_def touch_last_seen_def touched_def up_simps redis_docs)

lemma run_refresh_presence:
  "redis_up R w \<Longrightarrow> run (refresh_presence R u ttl) w =
     (Inr (), touched R u (snd (rd_expire R (presence_key u) ttl (w_redis w))) w)"
  by (simp add: refresh_presence_def touch_last_seen_def touched_def up_simps redis_docs)

lemma run_clear_presence:
  "redis_up R w \<Longrightarrow> run (clear_presence R u) w =
     (Inr (), w\<lparr>w_redis := snd (rd_delete R (presence_key u) (w_redis w))\<rparr>)"
  by (simp add: clear_presence_def up_simps redis_docs)

lemmas presence_runs = run_set_status run_refresh_presence run_clear_presence

end

section \<open>The status is a lease, for user ids\<close>

text \<open>Writing a status by its value; offline is never written.\<close>

fun set_status :: "'r redis \<Rightarrow> string \<Rightarrow> presence_status \<Rightarrow> int \<Rightarrow> ('r, 'd, 'w, unit) task" where
  "set_status R u AWAY ttl = set_away R u ttl"
| "set_status R u _ ttl = set_online R u ttl"

definition held_status ::
  "'r redis \<Rightarrow> ('r, 'd, 'w) world \<Rightarrow> string \<Rightarrow> (bool \<times> nat option) option" where
  "held_status R w u = map_option (\<lambda>(v, m). (v = ''away'', m)) (presence_entry R w u)"

abbreviation away_status :: "bool \<Rightarrow> presence_status" where
  "away_status b \<equiv> if b then AWAY else ONLINE"

sublocale redis_service \<subseteq> status: lease
  "\<lambda>u away t w. snd (run (set_status R u (away_status away) t) w)" "elapse R" "held_status R"
  "redis_up R" is_user_id
  "\<lambda>u t w. snd (run (refresh_presence R u t) w)" "\<lambda>u w. snd (run (clear_presence R u) w)"
  by unfold_locales
    (simp_all add: presence_runs store_touched up_simps redis_docs elapse_def held_status_def
      age_map(2) [of _ "\<lambda>v. v = ''away''"] case_prod_unfold option.map_comp comp_def)

section \<open>The presence state machine\<close>

text \<open>
  What is promised: a user is online or away for as long as something was heard within the
  lifetime; a heartbeat prolongs the state it finds and revives nothing; the time last seen
  survives going offline.
\<close>

datatype presence_event = Connect | GoAway | Beat | Leave | Pause nat | Clock datetime

record presence_state =
  ps_status :: "(presence_status \<times> nat) option"
  ps_last_seen :: "datetime option"
  ps_clock :: datetime

fun presence_step :: "int \<Rightarrow> presence_event \<Rightarrow> presence_state \<Rightarrow> presence_state" where
  "presence_step ttl Connect s =
     s\<lparr>ps_status := Some (ONLINE, 1000 * nat ttl), ps_last_seen := Some (ps_clock s)\<rparr>"
| "presence_step ttl GoAway s =
     s\<lparr>ps_status := Some (AWAY, 1000 * nat ttl), ps_last_seen := Some (ps_clock s)\<rparr>"
| "presence_step ttl Beat s =
     s\<lparr>ps_status := map_option (\<lambda>(st, _). (st, 1000 * nat ttl)) (ps_status s),
       ps_last_seen := Some (ps_clock s)\<rparr>"
| "presence_step ttl Leave s = s\<lparr>ps_status := None\<rparr>"
| "presence_step ttl (Pause d) s =
     s\<lparr>ps_status := (case ps_status s of None \<Rightarrow> None
        | Some (st, m) \<Rightarrow> if m \<le> d then None else Some (st, m - d))\<rparr>"
| "presence_step ttl (Clock t) s = s\<lparr>ps_clock := t\<rparr>"

fun perform :: "'r redis \<Rightarrow> int \<Rightarrow> string \<Rightarrow> presence_event \<Rightarrow> ('r, 'd, 'w) world \<Rightarrow> ('r, 'd, 'w) world" where
  "perform R ttl u Connect w = snd (run (mark_online R ttl u) w)"
| "perform R ttl u GoAway w = snd (run (mark_away R ttl u) w)"
| "perform R ttl u Beat w = snd (run (heartbeat R ttl u) w)"
| "perform R ttl u Leave w = snd (run (mark_offline R u) w)"
| "perform R ttl u (Pause d) w = elapse R d w"
| "perform R ttl u (Clock t) w = w\<lparr>w_now := t\<rparr>"

fun valid_event :: "presence_event \<Rightarrow> bool" where
  "valid_event (Clock t) = valid_date t"
| "valid_event _ = True"

text \<open>What Redis holds for a user, read as a state of the machine, and what it never holds.\<close>

definition abs_presence :: "'r redis \<Rightarrow> string \<Rightarrow> ('r, 'd, 'w) world \<Rightarrow> presence_state" where
  "abs_presence R u w =
     \<lparr>ps_status =
        (case presence_entry R w u of
           Some (v, Some m) \<Rightarrow> map_option (\<lambda>st. (st, m)) (presence_status_of v)
         | _ \<Rightarrow> None),
      ps_last_seen =
        (case entries (store R w) (last_seen_key u) of
           None \<Rightarrow> None | Some (raw, _) \<Rightarrow> fromisoformat raw),
      ps_clock = w_now w\<rparr>"

definition presence_ok :: "'r redis \<Rightarrow> string \<Rightarrow> ('r, 'd, 'w) world \<Rightarrow> bool" where
  "presence_ok R u w \<longleftrightarrow>
     (case presence_entry R w u of
        None \<Rightarrow> True | Some (v, m) \<Rightarrow> (v = ''online'' \<or> v = ''away'') \<and> m \<noteq> None) \<and>
     (case entries (store R w) (last_seen_key u) of
        None \<Rightarrow> True | Some (raw, m) \<Rightarrow> m = None \<and> fromisoformat raw \<noteq> None) \<and>
     valid_date (w_now w)"

context redis_service
begin

lemmas manager_runs = mark_online_def mark_away_def heartbeat_def mark_offline_def presence_runs

lemma perform_store:
  assumes "redis_up R w" "0 < ttl" "is_user_id u"
  shows "redis_up R (perform R ttl u e w)"
    "presence_entry R (perform R ttl u e w) u =
       (case e of Connect \<Rightarrow> Some (''online'', Some (1000 * nat ttl))
        | GoAway \<Rightarrow> Some (''away'', Some (1000 * nat ttl))
        | Beat \<Rightarrow> renewed ttl (presence_entry R w u) | Leave \<Rightarrow> None
        | Pause d \<Rightarrow> age d (presence_entry R w u) | Clock t \<Rightarrow> presence_entry R w u)"
    "entries (store R (perform R ttl u e w)) (last_seen_key u) =
       (if e \<in> {Connect, GoAway, Beat} then Some (isoformat (w_now w), None)
        else (case e of Pause d \<Rightarrow> age d (entries (store R w) (last_seen_key u))
              | _ \<Rightarrow> entries (store R w) (last_seen_key u)))"
    "w_now (perform R ttl u e w) = (case e of Clock t \<Rightarrow> t | _ \<Rightarrow> w_now w)"
  using assms
  by (cases e; simp add: manager_runs store_touched up_simps redis_docs elapse_def)+

lemma presence_ok_cases:
  assumes "presence_ok R u w"
  obtains "presence_entry R w u = None"
  | v m where "presence_entry R w u = Some (v, Some m)" "v = ''online'' \<or> v = ''away''"
  using assms by (auto simp: presence_ok_def split: option.splits)

lemma perform_step:
  assumes "redis_up R w" "0 < ttl" "is_user_id u" "presence_ok R u w" "valid_event e"
  shows "redis_up R (perform R ttl u e w) \<and> presence_ok R u (perform R ttl u e w) \<and>
    abs_presence R u (perform R ttl u e w) = presence_step ttl e (abs_presence R u w)"
proof -
  note new = perform_store [OF assms(1-3), of e]
  have date: "valid_date (w_now w)" using assms(4) by (simp add: presence_ok_def)
  consider "entries (store R w) (last_seen_key u) = None"
    | raw d where "entries (store R w) (last_seen_key u) = Some (raw, None)" "fromisoformat raw = Some d"
    using assms(4) by (auto simp: presence_ok_def split: option.splits)
  note last = this
  show ?thesis
    using assms(4)
  proof (cases rule: presence_ok_cases)
    case 1
    then show ?thesis
      using new date assms(5)
      by (cases rule: last; cases e; simp add: presence_ok_def abs_presence_def presence_status_of_def)
  next
    case (2 v m)
    then show ?thesis
      using new date assms(5)
      by (cases rule: last; cases e; elim disjE;
          simp add: presence_ok_def abs_presence_def presence_status_of_def)
  qed
qed

lemma performs:
  assumes "redis_up R w" "0 < ttl" "is_user_id u" "presence_ok R u w" "list_all valid_event es"
  shows "redis_up R (fold (perform R ttl u) es w) \<and> presence_ok R u (fold (perform R ttl u) es w) \<and>
    abs_presence R u (fold (perform R ttl u) es w) = fold (presence_step ttl) es (abs_presence R u w)"
  using assms
proof (induction es arbitrary: w)
  case (Cons e es)
  with perform_step [of w ttl u e] show ?case by simp
qed simp

lemma run_get_presence_info:
  assumes "redis_up R w" "presence_ok R u w"
  shows "fst (run (get_presence_info R u) w) =
    Inr \<lparr>pi_user_id = u,
         pi_status = (case ps_status (abs_presence R u w) of None \<Rightarrow> OFFLINE | Some (st, _) \<Rightarrow> st),
         pi_last_seen = ps_last_seen (abs_presence R u w)\<rparr>"
  using assms
  by (auto simp: get_presence_info_def get_status_def get_last_seen_def up_simps redis_docs
      presence_ok_def abs_presence_def presence_status_of_def split: option.splits)

text \<open>
  The status and the time last seen share a name space: the status of the text
  \<open>last_seen:\<close> followed by a user id is that user's time last seen, which is no status.
\<close>

lemma run_get_presence_info_confused:
  assumes "redis_up R w" "presence_key x = last_seen_key u"
    and "entries (store R w) (last_seen_key u) = Some (v, m)" "presence_status_of v = None"
    and "entries (store R w) (last_seen_key x) = None"
  shows "fst (run (get_presence_info R x) w) = Inl ValueError"
  using assms
  by (simp add: get_presence_info_def get_status_def get_last_seen_def up_simps redis_docs)

lemma isoformat_no_status: "presence_status_of (isoformat d) = None"
proof -
  have "25 \<le> length (isoformat d)" by (simp add: isoformat_def)
  then show ?thesis by (auto simp: presence_status_of_def)
qed

lemma confused_after_online:
  assumes "redis_up R w" "0 < ttl"
    and "entries (store R w) (last_seen_key (''last_seen:'' @ u)) = None"
  shows "fst (run (get_presence_info R (''last_seen:'' @ u)) (snd (run (mark_online R ttl u) w))) = Inl ValueError"
proof -
  define x where "x = ''last_seen:'' @ u"
  have key: "presence_key x = last_seen_key u" unfolding x_def by (simp only: last_seen_is_presence)
  have "presence_key u \<noteq> last_seen_key x" "last_seen_key x \<noteq> presence_key u" "x \<noteq> u"
    by (auto simp: x_def presence_key_def last_seen_key_def dest: arg_cong [of _ _ length])
  moreover have "entries (store R w) (last_seen_key x) = None" using assms(3) unfolding x_def .
  ultimately have "fst (run (get_presence_info R x) (snd (run (mark_online R ttl u) w))) = Inl ValueError"
    using assms(1,2) key
    by (intro run_get_presence_info_confused [where u = u and v = "isoformat (w_now w)" and m = None])
      (simp_all add: manager_runs store_touched up_simps redis_docs isoformat_no_status)
  then show ?thesis unfolding x_def .
qed

end

section \<open>Properties\<close>

definition presence_view :: "string \<Rightarrow> presence_state \<Rightarrow> presence_info" where
  "presence_view u s =
     \<lparr>pi_user_id = u, pi_status = (case ps_status s of None \<Rightarrow> OFFLINE | Some (st, _) \<Rightarrow> st),
      pi_last_seen = ps_last_seen s\<rparr>"

text \<open>
  C14. The presence of a user is the state of the presence machine: after any sequence of
  connects, changes to away, heartbeats, disconnects and pauses, a query returns what the
  machine says.
\<close>

theorem presence_refinement:
  assumes "redis_service R" "redis_up R w" "0 < ttl" "is_user_id u" "presence_ok R u w"
    and "list_all valid_event es"
  shows "fst (run (get_presence_info R u) (fold (perform R ttl u) es w)) =
    Inr (presence_view u (fold (presence_step ttl) es (abs_presence R u w)))"
  using redis_service.performs [OF assms]
    redis_service.run_get_presence_info [OF assms(1), of "fold (perform R ttl u) es w" u]
  by (simp add: presence_view_def)

lemma start_presence: "presence_ok mem_redis u start_world"
  "abs_presence mem_redis u start_world =
     \<lparr>ps_status = None, ps_last_seen = None, ps_clock = start_time\<rparr>"
  by (simp_all add: presence_ok_def abs_presence_def mem_world_def empty_redis_def)

theorem presence_refinement_witness:
  "fst (run (get_presence_info mem_redis (uuid_str 7))
     (fold (perform mem_redis 30 (uuid_str 7)) [Connect, Pause 20000, Beat, Pause 20000, GoAway, Pause 30000]
       start_world)) =
   Inr \<lparr>pi_user_id = uuid_str 7, pi_status = OFFLINE, pi_last_seen = Some start_time\<rparr>"
  by (subst presence_refinement [OF mem.redis_service_axioms])
    (simp_all add: start_presence presence_view_def)

text \<open>A connected client that sends a heartbeat after each of the pauses \<open>ds\<close>.\<close>

definition connect_and_beat :: "nat list \<Rightarrow> presence_event list" where
  "connect_and_beat ds = Connect # concat (map (\<lambda>d. [Pause d, Beat]) ds)"

lemma beat_steps_lost:
  "ps_status s = None \<Longrightarrow>
     ps_status (fold (presence_step ttl) (concat (map (\<lambda>d. [Pause d, Beat]) ds)) s) = None"
  by (induction ds arbitrary: s) simp_all

lemma beat_steps:
  "ps_status s = Some (st, 1000 * nat ttl) \<Longrightarrow>
     ps_status (fold (presence_step ttl) (concat (map (\<lambda>d. [Pause d, Beat]) ds)) s) =
       (if \<forall>d\<in>set ds. d < 1000 * nat ttl then Some (st, 1000 * nat ttl) else None)"
  by (induction ds arbitrary: s) (auto simp: beat_steps_lost)

text \<open>
  C30. Heartbeats keep a user online exactly as long as none of them is late by the whole
  lifetime: after one late heartbeat the user stays offline, whatever heartbeats follow, although
  the connection is still open.
\<close>

theorem heartbeats_keep_online:
  assumes "redis_service R" "redis_up R w" "0 < ttl" "is_user_id u" "presence_ok R u w"
  shows "map_sum id pi_status (fst (run (get_presence_info R u) (fold (perform R ttl u) (connect_and_beat ds) w)))
    = Inr (if \<forall>d\<in>set ds. d < 1000 * nat ttl then ONLINE else OFFLINE)"
proof -
  have "list_all valid_event (connect_and_beat ds)"
    by (simp add: connect_and_beat_def list_all_iff)
  then have "fst (run (get_presence_info R u) (fold (perform R ttl u) (connect_and_beat ds) w)) =
    Inr (presence_view u (fold (presence_step ttl) (connect_and_beat ds) (abs_presence R u w)))"
    using redis_service.performs [OF assms, of "connect_and_beat ds"]
      redis_service.run_get_presence_info [OF assms(1), of "fold (perform R ttl u) (connect_and_beat ds) w" u]
    by (simp add: presence_view_def)
  then show ?thesis by (simp add: presence_view_def connect_and_beat_def beat_steps)
qed

theorem heartbeats_keep_online_witness:
  "map_sum id pi_status (fst (run (get_presence_info mem_redis (uuid_str 7))
     (fold (perform mem_redis 30 (uuid_str 7)) (connect_and_beat [15000, 29999]) start_world))) = Inr ONLINE \<and>
   map_sum id pi_status (fst (run (get_presence_info mem_redis (uuid_str 7))
     (fold (perform mem_redis 30 (uuid_str 7)) (connect_and_beat [15000, 30000, 1, 1]) start_world))) = Inr OFFLINE"
  by (intro conjI; subst heartbeats_keep_online [OF mem.redis_service_axioms]; simp add: start_presence)

text \<open>
  The keys of the two kinds of entry are not kept apart: for a user who has been seen, asking
  for the presence of \<open>last_seen:\<close> followed by that user's id raises.
\<close>

theorem presence_key_confusion:
  assumes "redis_service R" "redis_up R w" "0 < ttl"
    and "entries (store R w) (last_seen_key (''last_seen:'' @ u)) = None"
  shows "fst (run (get_presence_info R (''last_seen:'' @ u)) (snd (run (mark_online R ttl u) w))) = Inl ValueError"
  using assms by (rule redis_service.confused_after_online)

theorem presence_key_confusion_witness:
  "fst (run (get_presence_info mem_redis (''last_seen:'' @ uuid_str 7))
     (snd (run (mark_online mem_redis 30 (uuid_str 7)) start_world))) = Inl ValueError"
  by (rule presence_key_confusion [OF mem.redis_service_axioms])
    (simp_all add: mem_world_def empty_redis_def)

end
