(* ===== verification/Heartbeat.thy ===== *)
theory Heartbeat
  imports Connection_Manager Instance_Registry Presence
begin

text \<open>
  \<open>app/websocket/heartbeat.py\<close>: the handler that refreshes presence and registry on a client's
  heartbeat, the loop that compares the registry with the sockets held, and the loop that keeps
  the instance's liveness key fresh.
\<close>

section \<open>The code\<close>

definition handle_heartbeat :: "'r redis \<Rightarrow> int \<Rightarrow> string \<Rightarrow> ('r, 'd, 'w, unit) task" where
  "handle_heartbeat R ttl user_id =
     await (heartbeat R ttl user_id) (\<lambda>_. refresh R user_id ttl)"

text \<open>\<open>_reconcile\<close>, the loop body per user, in the order of the snapshot of the users.\<close>

primrec reconcile_each :: "'r redis \<Rightarrow> string \<Rightarrow> string list \<Rightarrow> ('r, 'd, 'w, unit) task" where
  "reconcile_each R i [] = Return ()"
| "reconcile_each R i (user_id # user_ids) =
     await (lookup R user_id) (\<lambda>owner.
     await (if owner \<noteq> Some i then log_line i (RegistryDrift user_id i owner) else Return ()) (\<lambda>_.
     reconcile_each R i user_ids))"

definition reconcile :: "'r redis \<Rightarrow> string \<Rightarrow> ('r, 'd, 'w, unit) task" where
  "reconcile R i = await (connected_user_ids i) (reconcile_each R i)"

text \<open>
  \<open>asyncio.sleep\<close>: time passes. The infinite loops are cut after \<open>n\<close> rounds, when they are
  cancelled in their sleep.
\<close>

definition sleep :: "'r redis \<Rightarrow> int \<Rightarrow> ('r, 'd, 'w, unit) task" where
  "sleep R seconds = Await (\<lambda>w. (Return (), elapse R (1000 * nat seconds) w)) (Raise CancelledError)"

primrec reconciliation_run :: "'r redis \<Rightarrow> string \<Rightarrow> int \<Rightarrow> nat \<Rightarrow> ('r, 'd, 'w, unit) task" where
  "reconciliation_run R i interval 0 = Raise CancelledError"
| "reconciliation_run R i interval (Suc n) =
     await (sleep R interval) (\<lambda>_.
     await (try_except (reconcile R i) (except_Exception (log_line i ReconciliationFailed))) (\<lambda>_.
     reconciliation_run R i interval n))"

definition liveness_interval :: "int \<Rightarrow> int" where
  "liveness_interval ttl = max 1 (ttl div 3)"

definition liveness_start :: "'r redis \<Rightarrow> string \<Rightarrow> int \<Rightarrow> ('r, 'd, 'w, unit) task" where
  "liveness_start R i ttl = mark_alive R i ttl"

primrec liveness_run :: "'r redis \<Rightarrow> string \<Rightarrow> int \<Rightarrow> nat \<Rightarrow> ('r, 'd, 'w, unit) task" where
  "liveness_run R i ttl 0 = Raise CancelledError"
| "liveness_run R i ttl (Suc n) =
     await (sleep R (liveness_interval ttl)) (\<lambda>_.
     await (try_except (mark_alive R i ttl) (except_Exception (log_line i LivenessRefreshFailed))) (\<lambda>_.
     liveness_run R i ttl n))"

text \<open>\<open>stop\<close> of either loop: cancel the task, await it, swallow \<open>CancelledError\<close>.\<close>

definition stop_loop :: "('r, 'd, 'w, unit) task \<Rightarrow> ('r, 'd, 'w, unit) task" where
  "stop_loop cancelled = try_except cancelled (except_only CancelledError (Return ()))"

section \<open>What they do\<close>

lemma run_sleep [simp, coro_simps]: "run (sleep R t) w = (Inr (), elapse R (1000 * nat t) w)"
  by (simp add: sleep_def)

context redis_service
begin

lemma run_handle_heartbeat:
  assumes "redis_up R w" "0 < ttl" "is_user_id u"
  shows "fst (run (handle_heartbeat R ttl u) w) = Inr ()"
    "redis_up R (snd (run (handle_heartbeat R ttl u) w))"
    "presence_entry R (snd (run (handle_heartbeat R ttl u) w)) u = renewed ttl (presence_entry R w u)"
    "registered R (snd (run (handle_heartbeat R ttl u) w)) u = renewed ttl (registered R w u)"
  using assms
  by (simp_all add: handle_heartbeat_def heartbeat_def run_refresh_presence run_refresh store_touched
      up_simps redis_docs) (simp_all add: registry_key_def presence_key_def last_seen_key_def)

text \<open>The log lines of one pass: one per user whom the registry does not place here.\<close>

definition drifts :: "rstate \<Rightarrow> string \<Rightarrow> string list \<Rightarrow> log_event list" where
  "drifts s i us = map (\<lambda>u. RegistryDrift u i (value_of s (registry_key u)))
     (filter (\<lambda>u. value_of s (registry_key u) \<noteq> Some i) us)"

lemma run_reconcile_each:
  assumes "redis_up R w"
  shows "\<exists>r. run (reconcile_each R i us) w =
      (Inr (), upd_gateway i (\<lambda>g. g\<lparr>log := log g @ drifts (store R w) i us\<rparr>) (w\<lparr>w_redis := r\<rparr>)) \<and>
    rd_view R r = store R w \<and> rd_up R r"
  using assms
proof (induction us arbitrary: w)
  case Nil
  then show ?case by (intro exI [of _ "w_redis w"]) (simp add: drifts_def upd_gateway_def)
next
  case (Cons u us)
  let ?r = "snd (rd_get R (registry_key u) (w_redis w))"
  let ?drift = "value_of (store R w) (registry_key u) \<noteq> Some i"
  let ?w = "if ?drift then upd_gateway i (\<lambda>g. g\<lparr>log := log g @ [RegistryDrift u i (value_of (store R w) (registry_key u))]\<rparr>)
      (w\<lparr>w_redis := ?r\<rparr>) else w\<lparr>w_redis := ?r\<rparr>"
  have r: "rd_view R ?r = store R w" "rd_up R ?r"
    using Cons.prems by (simp_all add: up_simps redis_docs)
  then have "redis_up R ?w" "store R ?w = store R w" by simp_all
  with Cons.IH [of ?w] obtain r' where
    "run (reconcile_each R i us) ?w =
      (Inr (), upd_gateway i (\<lambda>g. g\<lparr>log := log g @ drifts (store R w) i us\<rparr>) (?w\<lparr>w_redis := r'\<rparr>))"
    "rd_view R r' = store R w" "rd_up R r'"
    by (auto split: if_splits)
  moreover have "run (reconcile_each R i (u # us)) w = run (reconcile_each R i us) ?w"
    using Cons.prems by (simp add: run_lookup)
  ultimately show ?case
    by (intro exI [of _ r']) (auto simp: drifts_def upd_gateway_def)
qed

lemma run_reconcile:
  assumes "redis_up R w"
  shows "\<exists>r. run (reconcile R i) w =
      (Inr (), upd_gateway i (\<lambda>g. g\<lparr>log := log g @
          drifts (store R w) i (map fst (connections (w_gateway w i)))\<rparr>) (w\<lparr>w_redis := r\<rparr>)) \<and>
    rd_view R r = store R w \<and> rd_up R r"
  using run_reconcile_each [OF assms] by (simp add: reconcile_def)

lemma run_liveness_rounds:
  assumes "redis_up R w" "0 < ttl" "alive R w i = Some (''1'', Some (1000 * nat ttl))"
  shows "alive R (snd (run (liveness_run R i ttl n) w)) i = Some (''1'', Some (1000 * nat ttl)) \<and>
    redis_up R (snd (run (liveness_run R i ttl n) w))"
  using assms
proof (induction n arbitrary: w)
  case (Suc n)
  let ?w = "elapse R (1000 * nat (liveness_interval ttl)) w"
  have up: "redis_up R ?w" using Suc.prems by (simp add: elapse_def up_simps)
  then have "run (liveness_run R i ttl (Suc n)) w =
      run (liveness_run R i ttl n) (snd (run (mark_alive R i ttl) ?w))"
    using Suc.prems by (simp add: run_mark_alive)
  moreover have "alive R (snd (run (mark_alive R i ttl) ?w)) i = Some (''1'', Some (1000 * nat ttl))"
      "redis_up R (snd (run (mark_alive R i ttl) ?w))"
    using up Suc.prems(2) by (simp_all add: run_mark_alive up_simps redis_docs)
  ultimately show ?case using Suc.IH Suc.prems(2) by simp
qed simp

lemma run_is_alive_later:
  assumes "redis_up R w" "0 < ttl"
  shows "fst (run (is_alive R i) (elapse R d
      (snd (run (liveness_run R i ttl n) (snd (run (liveness_start R i ttl) w)))))) =
    Inr (d < 1000 * nat ttl)"
proof -
  let ?w = "snd (run (liveness_start R i ttl) w)"
  have "redis_up R ?w" "alive R ?w i = Some (''1'', Some (1000 * nat ttl))"
    using assms by (simp_all add: liveness_start_def run_mark_alive up_simps redis_docs)
  from run_liveness_rounds [OF this(1) assms(2) this(2), of n] show ?thesis
    by (simp add: run_is_alive elapse_def up_simps redis_docs)
qed

end

text \<open>The loops outlive every failure of Redis; only their cancellation ends them.\<close>

lemma lookup_fails: "fst (run (lookup R u) w) = Inl e \<Longrightarrow> e = RedisError"
  by (auto simp: lookup_def split: option.splits)

lemma reconcile_fails: "fst (run (reconcile_each R i us) w) = Inl e \<Longrightarrow> e = RedisError"
proof (induction us arbitrary: w)
  case (Cons u us)
  then show ?case
    using lookup_fails [of R u w] by (auto split: sum.splits prod.splits if_splits)
qed simp

lemma reconciliation_run_ends: "fst (run (reconciliation_run R i interval n) w) = Inl CancelledError"
proof (induction n arbitrary: w)
  case (Suc n)
  have "e = RedisError" if "fst (run (reconcile R i) v) = Inl e" for v e
    using that reconcile_fails by (simp add: reconcile_def)
  note fails = this
  obtain r v where run: "run (reconcile R i) (elapse R (1000 * nat interval) w) = (r, v)" by fastforce
  show ?case
  proof (cases r)
    case (Inl e)
    with run fails [of "elapse R (1000 * nat interval) w" e] Suc show ?thesis
      by (simp add: except_Exception_def)
  next
    case (Inr a)
    with run Suc show ?thesis by simp
  qed
qed simp

lemma liveness_run_ends: "fst (run (liveness_run R i ttl n) w) = Inl CancelledError"
  by (induction n arbitrary: w) (auto simp: mark_alive_def except_Exception_def split: option.splits)

section \<open>Properties\<close>

text \<open>
  A reconciliation pass only reports: it logs one line for every user held here whom the
  registry places elsewhere or nowhere, and changes neither Redis nor the connections.
\<close>

theorem reconcile_only_reports:
  assumes "redis_service R" "redis_up R w"
  shows "\<exists>w'. run (reconcile R i) w = (Inr (), w') \<and> store R w' = store R w \<and>
    connections (w_gateway w' i) = connections (w_gateway w i) \<and>
    log (w_gateway w' i) = log (w_gateway w i) @
      map (\<lambda>u. RegistryDrift u i (value_of (store R w) (registry_key u)))
        (filter (\<lambda>u. value_of (store R w) (registry_key u) \<noteq> Some i) (map fst (connections (w_gateway w i))))"
  using redis_service.run_reconcile [OF assms, of i]
  by (auto simp: redis_service.drifts_def [OF assms(1)])

theorem reconcile_only_reports_witness:
  "\<exists>w'. run (reconcile mem_redis ''i1'') (snd (run (add ''i1'' ''u'' 3) start_world)) = (Inr (), w') \<and>
     log (w_gateway w' ''i1'') = [RegistryDrift ''u'' ''i1'' None] \<and>
     connections (w_gateway w' ''i1'') = [(''u'', 3)]"
  using reconcile_only_reports [OF mem.redis_service_axioms, of "snd (run (add ''i1'' ''u'' 3) start_world)" "''i1''"]
  by (auto simp: set_connections_def)

text \<open>
  Neither loop is stopped by a failing Redis, in any number of rounds: each ends by its
  cancellation alone, and \<open>stop\<close> returns.
\<close>

theorem loops_survive_failures:
  "fst (run (reconciliation_run R i interval n) w) = Inl CancelledError \<and>
   fst (run (liveness_run R i ttl n) w) = Inl CancelledError \<and>
   fst (run (stop_loop (reconciliation_run R i interval n)) w) = Inr () \<and>
   fst (run (stop_loop (liveness_run R i ttl n)) w) = Inr ()"
  using reconciliation_run_ends [of R i interval n w] liveness_run_ends [of R i ttl n w]
  by (auto simp: stop_loop_def except_only_def split: prod.splits sum.splits)

text \<open>
  C29. A crashed instance is seen dead once its last refresh is older than the lifetime of the liveness key:
  \<open>d\<close> milliseconds after the last round of the loop, whichever it was, the instance counts as alive exactly if \<open>d\<close> is below the
  lifetime. A running instance is seen alive up to its next round exactly if the lifetime is two seconds or
  more: with one second, which the settings allow, the interval is the whole lifetime, and the key lapses before every
  refresh.
\<close>

theorem liveness_loop_keeps_alive:
  assumes "redis_service R" "redis_up R w" "0 < ttl"
    and "w' = snd (run (liveness_run R i ttl n) (snd (run (liveness_start R i ttl) w)))"
  shows "fst (run (is_alive R i) (elapse R d w')) = Inr (d < 1000 * nat ttl) \<and>
    ((\<forall>d. d \<le> 1000 * nat (liveness_interval ttl) \<longrightarrow> fst (run (is_alive R i) (elapse R d w')) = Inr True) \<longleftrightarrow> 2 \<le> ttl)"
proof -
  have alive: "fst (run (is_alive R i) (elapse R d w')) = Inr (d < 1000 * nat ttl)" for d
    using redis_service.run_is_alive_later [OF assms(1-3)] assms(4) by simp
  have "(\<forall>d. d \<le> 1000 * nat (liveness_interval ttl) \<longrightarrow> d < 1000 * nat ttl) \<longleftrightarrow> liveness_interval ttl < ttl"
    using assms(3) by (auto simp: nat_less_iff)
  also have "\<dots> \<longleftrightarrow> 2 \<le> ttl" using assms(3) by (auto simp: liveness_interval_def max_def)
  finally show ?thesis using alive by simp
qed

theorem liveness_loop_keeps_alive_witness:
  "fst (run (is_alive mem_redis ''i1'') (elapse mem_redis 5000
      (snd (run (liveness_run mem_redis ''i1'' 15 7) (snd (run (liveness_start mem_redis ''i1'' 15) start_world)))))) = Inr True \<and>
   fst (run (is_alive mem_redis ''i1'') (elapse mem_redis 1000
      (snd (run (liveness_run mem_redis ''i1'' 1 7) (snd (run (liveness_start mem_redis ''i1'' 1) start_world)))))) = Inr False"
  using liveness_loop_keeps_alive [OF mem.redis_service_axioms _ _ HOL.refl, of start_world 15 "''i1''" 5000 7]
    liveness_loop_keeps_alive [OF mem.redis_service_axioms _ _ HOL.refl, of start_world 1 "''i1''" 1000 7]
  by simp

end
