(* ===== verification/Message_Router.thy ===== *)
theory Message_Router
  imports Heartbeat Rate_Limiter Schemas
begin

text \<open>
  \<open>app/websocket/message_router.py\<close>: what is done with a client's message, by its \<open>type\<close>.
\<close>

section \<open>Python's \<open>str\<close> of a JSON value\<close>

definition repr_char :: "char \<Rightarrow> char \<Rightarrow> string" where
  "repr_char q c =
     (let n = of_char c :: nat in
      if c = q \<or> c = CHR 0x5C then [CHR 0x5C, c]
      else if c = CHR 0x09 then [CHR 0x5C, CHR ''t'']
      else if c = CHR 0x0A then [CHR 0x5C, CHR ''n'']
      else if c = CHR 0x0D then [CHR 0x5C, CHR ''r'']
      else if n < 32 \<or> (127 \<le> n \<and> n \<le> 160) \<or> n = 173 then [CHR 0x5C, CHR ''x''] @ hex_string 2 n
      else [c])"

definition repr_str :: "string \<Rightarrow> string" where
  "repr_str s =
     (let q = (if CHR 0x27 \<in> set s \<and> CHR 0x22 \<notin> set s then CHR 0x22 else CHR 0x27) in
      q # concat (map (repr_char q) s) @ [q])"

fun py_repr :: "json \<Rightarrow> string"
  and repr_tail :: "json list \<Rightarrow> string"
  and repr_members :: "(string \<times> json) list \<Rightarrow> string" where
  "py_repr JNull = ''None''"
| "py_repr (JBool b) = (if b then ''True'' else ''False'')"
| "py_repr (JInt i) = show_int i"
| "py_repr (JFloat n k) = show_float n k"
| "py_repr JNaN = ''nan''"
| "py_repr (JInfinity neg) = (if neg then ''-inf'' else ''inf'')"
| "py_repr (JStr s) = repr_str s"
| "py_repr (JList []) = ''[]''"
| "py_repr (JList (x # xs)) = ''['' @ py_repr x @ repr_tail xs"
| "py_repr (JObj []) = ''{}''"
| "py_repr (JObj ((k, v) # m)) = ''{'' @ repr_str k @ '': '' @ py_repr v @ repr_members m"
| "repr_tail [] = '']''"
| "repr_tail (x # xs) = '', '' @ py_repr x @ repr_tail xs"
| "repr_members [] = ''}''"
| "repr_members ((k, v) # m) = '', '' @ repr_str k @ '': '' @ py_repr v @ repr_members m"

fun py_str :: "json \<Rightarrow> string" where
  "py_str (JStr s) = s"
| "py_str v = py_repr v"

section \<open>The code\<close>

text \<open>\<open>on_read_receipt\<close> is the callback the router is built with.\<close>

type_synonym ('r, 'd, 'w) receipt_callback = "uuid \<Rightarrow> string \<Rightarrow> datetime \<Rightarrow> ('r, 'd, 'w, unit) task"

definition message_type_of :: "json \<Rightarrow> json" where
  "message_type_of raw = (case obj_get raw ''type'' of None \<Rightarrow> JStr ''unknown'' | Some v \<Rightarrow> v)"

definition count_message :: "string \<Rightarrow> json \<Rightarrow> ('r, 'd, 'w, unit) task" where
  "count_message i t = in_gateway i (\<lambda>g.
     g\<lparr>ws_messages_received_total :=
         (ws_messages_received_total g)(py_str t := Suc (ws_messages_received_total g (py_str t)))\<rparr>)"

text \<open>The body of the \<open>try\<close> statement.\<close>

definition dispatch ::
  "'r redis \<Rightarrow> pydantic \<Rightarrow> settings \<Rightarrow> ('r, 'd, 'w) receipt_callback \<Rightarrow> string \<Rightarrow> json \<Rightarrow>
    ('r, 'd, 'w, json option) task" where
  "dispatch R V cfg on_read_receipt user_id raw =
     (let message_type = message_type_of raw; ttl = presence_ttl_seconds cfg in
      if message_type = JStr ''heartbeat'' then
        (case parse_HeartbeatMessage raw of
           None \<Rightarrow> Raise ValidationError
         | Some _ \<Rightarrow> await (handle_heartbeat R ttl user_id) (\<lambda>_. Return None))
      else if message_type = JStr ''presence_update'' then
        (case parse_PresenceUpdateMessage raw of
           None \<Rightarrow> Raise ValidationError
         | Some status \<Rightarrow>
             await (if status = ''online'' then mark_online R ttl user_id else mark_away R ttl user_id)
               (\<lambda>_. Return None))
      else if message_type = JStr ''read_receipt'' then
        (case parse_ReadReceiptMessage V raw of
           None \<Rightarrow> Raise ValidationError
         | Some notification_id \<Rightarrow>
             await (read_state w_now) (\<lambda>now.
             await (on_read_receipt notification_id user_id now) (\<lambda>_. Return None)))
      else Return (Some (dump_ErrorMessage (''Unknown message type: '' @ py_str message_type))))"

definition route ::
  "'r redis \<Rightarrow> pydantic \<Rightarrow> settings \<Rightarrow> ('r, 'd, 'w) receipt_callback \<Rightarrow> string \<Rightarrow> string \<Rightarrow> json \<Rightarrow>
    ('r, 'd, 'w, json option) task" where
  "route R V cfg on_read_receipt user_id connection_id raw =
     (let i = instance_id cfg in
      if \<not> is_object raw then Raise AttributeError
      else
        await (count_message i (message_type_of raw)) (\<lambda>_.
        await (allow R (rate_limit_messages cfg) (rate_limit_window_seconds cfg) connection_id) (\<lambda>ok.
          if \<not> ok then
            await (in_gateway i (\<lambda>g. g\<lparr>rate_limited_total := Suc (rate_limited_total g)\<rparr>)) (\<lambda>_.
            Return (Some dump_RateLimitedMessage))
          else
            try_except (dispatch R V cfg on_read_receipt user_id raw)
              (except_only ValidationError
                (await (log_line i (RejectedMessage user_id)) (\<lambda>_.
                 Return (Some (dump_ErrorMessage ''Malformed message payload''))))))))"

section \<open>What a message means for the presence of its sender\<close>

definition presence_event_of :: "json \<Rightarrow> presence_event option" where
  "presence_event_of raw =
     (if message_type_of raw = JStr ''heartbeat'' then Some Beat
      else if message_type_of raw = JStr ''presence_update'' then
        (case obj_get raw ''status'' of
           Some (JStr s) \<Rightarrow> if s = ''online'' then Some Connect else if s = ''away'' then Some GoAway else None
         | _ \<Rightarrow> None)
      else None)"

lemma rate_limit_distinct [simp]:
  "rate_limit_key c \<noteq> presence_key u" "rate_limit_key c \<noteq> last_seen_key u"
  "rate_limit_key c \<noteq> registry_key u" "rate_limit_key c \<noteq> liveness_key i"
  "presence_key u \<noteq> rate_limit_key c" "last_seen_key u \<noteq> rate_limit_key c"
  "registry_key u \<noteq> rate_limit_key c" "liveness_key i \<noteq> rate_limit_key c"
  by (simp_all add: rate_limit_key_def presence_key_def last_seen_key_def registry_key_def liveness_key_def)

lemma registry_presence_distinct [simp]:
  "registry_key u \<noteq> presence_key v" "presence_key v \<noteq> registry_key u"
  "registry_key u \<noteq> last_seen_key v" "last_seen_key v \<noteq> registry_key u"
  by (simp_all add: presence_key_def last_seen_key_def registry_key_def)

lemma type_cases:
  "message_type_of raw = JStr t \<Longrightarrow> t \<noteq> ''unknown'' \<Longrightarrow> type_is t raw"
  by (auto simp: message_type_of_def type_is_def split: option.splits)

context redis_service
begin

text \<open>The messages other than well-formed read receipts, with Redis up: outcome and effect.\<close>

lemma run_dispatch:
  assumes "redis_up R w" "valid_settings cfg" "is_object raw"
    and "message_type_of raw = JStr ''read_receipt'' \<Longrightarrow> parse_ReadReceiptMessage V raw = None"
  shows "run (dispatch R V cfg cb u raw) w =
    (case presence_event_of raw of
       Some Beat \<Rightarrow> (Inr None, snd (run (handle_heartbeat R (presence_ttl_seconds cfg) u) w))
     | Some e \<Rightarrow> (Inr None, perform R (presence_ttl_seconds cfg) u e w)
     | None \<Rightarrow>
         (if message_type_of raw \<in> {JStr ''presence_update'', JStr ''read_receipt''} then Inl ValidationError
          else Inr (Some (dump_ErrorMessage (''Unknown message type: '' @ py_str (message_type_of raw)))), w))"
proof -
  let ?ttl = "presence_ttl_seconds cfg"
  have ttl: "0 < ?ttl" using assms(2) by (simp add: valid_settings_def)
  have beat: "fst (run (handle_heartbeat R ?ttl u) w) = Inr ()"
    using assms(1) ttl
    by (simp add: handle_heartbeat_def heartbeat_def run_refresh_presence run_refresh store_touched up_simps)
  show ?thesis
  proof (cases "message_type_of raw = JStr ''heartbeat''")
    case True
    with beat assms(3) type_cases [OF True] show ?thesis
      by (cases "run (handle_heartbeat R ?ttl u) w")
        (simp add: dispatch_def Let_def parse_HeartbeatMessage_def presence_event_of_def)
  next
    case no_beat: False
    show ?thesis
    proof (cases "message_type_of raw = JStr ''presence_update''")
      case True
      with assms(1,3) ttl type_cases [OF True] show ?thesis
        by (auto simp: dispatch_def Let_def parse_PresenceUpdateMessage_def presence_event_of_def
            manager_runs split: option.splits json.splits)
    next
      case False
      with no_beat assms(4) show ?thesis
        by (cases "message_type_of raw = JStr ''read_receipt''") (simp_all add: dispatch_def Let_def presence_event_of_def)
    qed
  qed
qed

lemma presence_cong:
  assumes "presence_entry R w' u = presence_entry R w u"
    and "entries (store R w') (last_seen_key u) = entries (store R w) (last_seen_key u)" "w_now w' = w_now w"
  shows "abs_presence R u w' = abs_presence R u w" "presence_ok R u w' = presence_ok R u w"
  using assms by (simp_all add: abs_presence_def presence_ok_def)

lemma heartbeat_presence:
  assumes "redis_up R w" "0 < ttl" "is_user_id u" "presence_ok R u w"
  shows "abs_presence R u (snd (run (handle_heartbeat R ttl u) w)) = presence_step ttl Beat (abs_presence R u w)"
proof -
  let ?w = "snd (run (heartbeat R ttl u) w)"
  have up: "redis_up R ?w" and step: "abs_presence R u ?w = presence_step ttl Beat (abs_presence R u w)"
    using perform_step [OF assms, of Beat] by simp_all
  have "run (heartbeat R ttl u) w = (Inr (), ?w)"
    using assms(1) by (simp add: heartbeat_def run_refresh_presence)
  then have "snd (run (handle_heartbeat R ttl u) w) = snd (run (refresh R u ttl) ?w)"
    by (cases "run (heartbeat R ttl u) w") (simp add: handle_heartbeat_def)
  moreover have "abs_presence R u (snd (run (refresh R u ttl) ?w)) = abs_presence R u ?w"
    using up assms(2) by (intro presence_cong(1)) (simp_all add: run_refresh up_simps redis_docs)
  ultimately show ?thesis using step by simp
qed

text \<open>Counting and limiting come first; the rest of the state is as it was.\<close>

definition counted :: "settings \<Rightarrow> string \<Rightarrow> json \<Rightarrow> ('r, 'd, 'w) world \<Rightarrow> ('r, 'd, 'w) world" where
  "counted cfg conn raw w =
     snd (run (allow R (rate_limit_messages cfg) (rate_limit_window_seconds cfg) conn)
       (snd (run (count_message (instance_id cfg) (message_type_of raw)) w)))"

lemma counted_facts:
  assumes "redis_up R w" "valid_settings cfg" "counts R conn w k" "count_of k < 2 ^ 63 - 1"
  shows "redis_up R (counted cfg conn raw w)" "w_now (counted cfg conn raw w) = w_now w"
    "w_db (counted cfg conn raw w) = w_db w" "w_ws (counted cfg conn raw w) = w_ws w"
    "key \<noteq> rate_limit_key conn \<Longrightarrow> entries (store R (counted cfg conn raw w)) key = entries (store R w) key"
    "connections (w_gateway (counted cfg conn raw w) j) = connections (w_gateway w j)"
    "rate_limited_total (w_gateway (counted cfg conn raw w) j) = rate_limited_total (w_gateway w j)"
    "run (route R V cfg cb u conn raw) w =
       (if \<not> is_object raw then (Inl AttributeError, w)
        else if admits (rate_limit_messages cfg) k
        then run (try_except (dispatch R V cfg cb u raw)
              (except_only ValidationError
                (await (log_line (instance_id cfg) (RejectedMessage u)) (\<lambda>_.
                 Return (Some (dump_ErrorMessage ''Malformed message payload'')))))) (counted cfg conn raw w)
        else (Inr (Some dump_RateLimitedMessage),
              upd_gateway (instance_id cfg) (\<lambda>g. g\<lparr>rate_limited_total := Suc (rate_limited_total g)\<rparr>)
                (counted cfg conn raw w)))"
proof -
  let ?w = "snd (run (count_message (instance_id cfg) (message_type_of raw)) w)"
  have k: "redis_up R ?w" "counts R conn ?w k" "0 < rate_limit_window_seconds cfg"
    using assms by (simp_all add: count_message_def counts_def valid_settings_def)
  note one = run_allow [OF k(1,2) assms(4) k(3), of "rate_limit_messages cfg"]
  have conn: "connections (w_gateway ?w j) = connections (w_gateway w j)"
    "rate_limited_total (w_gateway ?w j) = rate_limited_total (w_gateway w j)"
    by (cases "j = instance_id cfg"; simp add: count_message_def)+
  show "redis_up R (counted cfg conn raw w)" unfolding counted_def by (rule one(3))
  show "w_now (counted cfg conn raw w) = w_now w" "w_db (counted cfg conn raw w) = w_db w"
    "w_ws (counted cfg conn raw w) = w_ws w"
    "connections (w_gateway (counted cfg conn raw w) j) = connections (w_gateway w j)"
    "rate_limited_total (w_gateway (counted cfg conn raw w) j) = rate_limited_total (w_gateway w j)"
    using one(1) conn by (simp_all add: counted_def) (simp_all add: count_message_def)
  show "entries (store R (counted cfg conn raw w)) key = entries (store R w) key"
    if "key \<noteq> rate_limit_key conn"
    using one(2) that by (simp add: counted_def) (simp add: count_message_def)
  show "run (route R V cfg cb u conn raw) w =
       (if \<not> is_object raw then (Inl AttributeError, w)
        else if admits (rate_limit_messages cfg) k
        then run (try_except (dispatch R V cfg cb u raw)
              (except_only ValidationError
                (await (log_line (instance_id cfg) (RejectedMessage u)) (\<lambda>_.
                 Return (Some (dump_ErrorMessage ''Malformed message payload'')))))) (counted cfg conn raw w)
        else (Inr (Some dump_RateLimitedMessage),
              upd_gateway (instance_id cfg) (\<lambda>g. g\<lparr>rate_limited_total := Suc (rate_limited_total g)\<rparr>)
                (counted cfg conn raw w)))"
    using one(1) by (simp add: route_def counted_def Let_def count_message_def)
qed

lemma route_presence:
  assumes "redis_up R w" "valid_settings cfg" "is_user_id u" "presence_ok R u w"
    and "counts R conn w k" "count_of k < 2 ^ 63 - 1" "admits (rate_limit_messages cfg) k"
    and "is_object raw" "message_type_of raw = JStr ''read_receipt'' \<longrightarrow> parse_ReadReceiptMessage V raw = None"
  shows "\<exists>r w'. run (route R V cfg cb u conn raw) w = (Inr r, w') \<and>
    (r = None \<longleftrightarrow> presence_event_of raw \<noteq> None) \<and>
    abs_presence R u w' =
      (case presence_event_of raw of
         None \<Rightarrow> abs_presence R u w
       | Some e \<Rightarrow> presence_step (presence_ttl_seconds cfg) e (abs_presence R u w))"
proof -
  let ?w = "counted cfg conn raw w" and ?ttl = "presence_ttl_seconds cfg"
  note c = counted_facts [OF assms(1,2,5,6)]
  have same: "abs_presence R u ?w = abs_presence R u w" "presence_ok R u ?w"
    using c(2,5) assms(4) presence_cong [of ?w u w] by simp_all
  have ttl: "0 < ?ttl" using assms(2) by (simp add: valid_settings_def)
  have route: "run (route R V cfg cb u conn raw) w =
      run (try_except (dispatch R V cfg cb u raw)
        (except_only ValidationError
          (await (log_line (instance_id cfg) (RejectedMessage u)) (\<lambda>_.
           Return (Some (dump_ErrorMessage ''Malformed message payload'')))))) ?w"
    using c(8) assms(7,8) by simp
  note dispatch = run_dispatch [OF c(1) assms(2,8) assms(9) [rule_format], of cb u]
  show ?thesis
  proof (cases "presence_event_of raw")
    case None
    then show ?thesis
      using dispatch same(1)
      by (simp add: route except_only_def dump_ErrorMessage_def)
        (simp add: abs_presence_def)
  next
    case (Some e)
    have step: "abs_presence R u (perform R ?ttl u e ?w) = presence_step ?ttl e (abs_presence R u w)"
      using perform_step [OF c(1) ttl assms(3) same(2), of e] Some same(1)
      by (auto simp: presence_event_of_def split: option.splits json.splits if_splits)
    have beat: "abs_presence R u (snd (run (handle_heartbeat R ?ttl u) ?w)) = presence_step ?ttl Beat (abs_presence R u w)"
      using heartbeat_presence [OF c(1) ttl assms(3) same(2)] same(1) by simp
    show ?thesis
      using Some dispatch step beat by (cases e) (simp_all add: route)
  qed
qed

end

section \<open>Properties\<close>

text \<open>
  C20. Messages drive the presence machine: within the rate limit, with Redis up, a heartbeat or a well-formed
  presence update is the corresponding event of the machine and gets no answer; every other
  object (a malformed update, a malformed read receipt, an unknown type) leaves the presence alone and is answered. A
  well-formed read receipt is no matter of presence: what it does is stated in \<open>Gateway\<close>.
\<close>

theorem router_drives_presence:
  assumes "redis_service R" "redis_up R w" "valid_settings cfg" "is_user_id u" "presence_ok R u w"
    and "counts R conn w k" "count_of k < 2 ^ 63 - 1" "admits (rate_limit_messages cfg) k"
    and "is_object raw" "message_type_of raw = JStr ''read_receipt'' \<longrightarrow> parse_ReadReceiptMessage V raw = None"
  shows "\<exists>r w'. run (route R V cfg cb u conn raw) w = (Inr r, w') \<and>
    (r = None \<longleftrightarrow> presence_event_of raw \<noteq> None) \<and>
    abs_presence R u w' =
      (case presence_event_of raw of
         None \<Rightarrow> abs_presence R u w
       | Some e \<Rightarrow> presence_step (presence_ttl_seconds cfg) e (abs_presence R u w))"
  using assms by (rule redis_service.route_presence)

theorem router_drives_presence_witness:
  "\<exists>w'. run (route mem_redis std_pydantic default_settings (\<lambda>_ _ _. Return ()) (uuid_str 7) ''c''
       (JObj [(''type'', JStr ''presence_update''), (''status'', JStr ''away'')])) start_world = (Inr None, w') \<and>
     ps_status (abs_presence mem_redis (uuid_str 7) w') = Some (AWAY, 30000)"
proof -
  let ?raw = "JObj [(''type'', JStr ''presence_update''), (''status'', JStr ''away'')]"
  have raw: "is_object ?raw" "message_type_of ?raw = JStr ''read_receipt'' \<longrightarrow> parse_ReadReceiptMessage std_pydantic ?raw = None" "presence_event_of ?raw = Some GoAway"
    by (simp_all add: presence_event_of_def message_type_of_def)
  have cfg: "admits (rate_limit_messages default_settings) None" "presence_ttl_seconds default_settings = 30"
    by (simp_all add: admits_def default_settings_def)
  have lt: "count_of None < 2 ^ 63 - 1" and up: "redis_up mem_redis start_world" by simp_all
  obtain r w' where "run (route mem_redis std_pydantic default_settings (\<lambda>_ _ _. Return ()) (uuid_str 7) ''c'' ?raw)
      start_world = (Inr r, w')" "r = None"
    "abs_presence mem_redis (uuid_str 7) w' = presence_step 30 GoAway (abs_presence mem_redis (uuid_str 7) start_world)"
    using router_drives_presence [OF mem.redis_service_axioms up valid_default_settings is_user_id_str [of 7]
      start_presence(1) start_counts [of "''c''"] lt cfg(1) raw(1,2), of "\<lambda>_ _ _. Return ()"]
    unfolding raw(3) cfg(2) by auto
  then show ?thesis by (intro exI [of _ w']) simp
qed

text \<open>
  A message beyond the limit is dropped, whatever it is: it is answered with a rate_limited
  frame and counted, the connection stays, and nothing else that Redis holds, no row and no socket
  is touched.
\<close>

theorem router_drops_limited:
  assumes "redis_service R" "redis_up R w" "valid_settings cfg"
    and "counts R conn w k" "count_of k < 2 ^ 63 - 1" "\<not> admits (rate_limit_messages cfg) k" "is_object raw"
  shows "\<exists>w'. run (route R V cfg cb u conn raw) w = (Inr (Some dump_RateLimitedMessage), w') \<and>
    (\<forall>key. key \<noteq> rate_limit_key conn \<longrightarrow> entries (store R w') key = entries (store R w) key) \<and>
    w_db w' = w_db w \<and> w_ws w' = w_ws w \<and>
    connections (w_gateway w' (instance_id cfg)) = connections (w_gateway w (instance_id cfg)) \<and>
    rate_limited_total (w_gateway w' (instance_id cfg)) = Suc (rate_limited_total (w_gateway w (instance_id cfg)))"
  using redis_service.counted_facts [OF assms(1-5)] assms(6,7) by simp

theorem router_drops_limited_witness:
  "\<exists>w'. run (route mem_redis std_pydantic (default_settings\<lparr>rate_limit_messages := 0\<rparr>) (\<lambda>_ _ _. Return ()) ''u'' ''c''
       (JObj [])) start_world = (Inr (Some dump_RateLimitedMessage), w') \<and>
     rate_limited_total (w_gateway w' ''instance-1'') = 1"
  using router_drops_limited [OF mem.redis_service_axioms _ _ start_counts [of "''c''"], where u = "''u''"
      and V = std_pydantic and cb = "\<lambda>_ _ _. Return ()" and raw = "JObj []"
      and cfg = "default_settings\<lparr>rate_limit_messages := 0\<rparr>"]
  by (auto simp: admits_def default_settings_def valid_settings_def mem_world_def new_gateway_def)

end
