(* ===== verification/Notifications_Api.thy ===== *)
theory Notifications_Api
  imports Live_Delivery Rate_Limiter Idempotency Message_Router
begin

text \<open>
  \<open>app/api/routes/notifications.py\<close>: the endpoint that stores a notification and, when the user is
  connected to a live instance, has it delivered there.
\<close>

section \<open>The code\<close>

definition response :: "notification_create \<Rightarrow> bool \<Rightarrow> bool \<Rightarrow> notification_create_response" where
  "response body persisted delivered_live =
     \<lparr>ncr_notification_id = nc_notification_id body, ncr_persisted = persisted,
      ncr_delivered_live = delivered_live\<rparr>"

text \<open>The owning instance, unless its liveness key has lapsed.\<close>

definition live_owner :: "'r redis \<Rightarrow> uuid \<Rightarrow> ('r, 'd, 'w, string option) task" where
  "live_owner R user_id =
     await (lookup R (uuid_str user_id)) (\<lambda>owning_instance.
       case owning_instance of
         None \<Rightarrow> Return None
       | Some inst \<Rightarrow>
           await (is_alive R inst) (\<lambda>alive.
             if \<not> alive then Return None else Return (Some inst)))"

definition deliver_live ::
  "'r redis \<Rightarrow> 'd database \<Rightarrow> string \<Rightarrow> nat \<Rightarrow> notification_create \<Rightarrow> notification \<Rightarrow>
    ('r, 'd, 'w, bool) task" where
  "deliver_live R D i session body row =
     await (live_owner R (nc_user_id body)) (\<lambda>owning_instance.
       case owning_instance of
         None \<Rightarrow> Return False
       | Some inst \<Rightarrow>
           await (read_state w_time) (\<lambda>now.
           await (publish_to_instance R inst (live_message (nc_user_id body) now row)) (\<lambda>_.
           await (mark_delivered_live D session (n_notification_id row)) (\<lambda>_.
           await (in_gateway i (\<lambda>g. g\<lparr>notifications_delivered_live_total :=
                                       Suc (notifications_delivered_live_total g)\<rparr>)) (\<lambda>_.
           Return True)))))"

definition store_and_deliver ::
  "'r redis \<Rightarrow> 'd database \<Rightarrow> settings \<Rightarrow> notification_create \<Rightarrow> nat \<Rightarrow>
    ('r, 'd, 'w, notification_create_response) task" where
  "store_and_deliver R D cfg body session =
     await (create D session (nc_notification_id body) (nc_user_id body) (nc_type body) (nc_payload body)) (\<lambda>row.
     await (mark_seen R (idempotency_ttl_seconds cfg) (nc_notification_id body)) (\<lambda>_.
       case row of
         None \<Rightarrow> Return (response body False False)
       | Some row \<Rightarrow>
           await (in_gateway (instance_id cfg) (\<lambda>g. g\<lparr>notifications_persisted_total :=
                                       Suc (notifications_persisted_total g)\<rparr>)) (\<lambda>_.
           await (deliver_live R D (instance_id cfg) session body row) (\<lambda>delivered_live.
           Return (response body True delivered_live)))))"

text \<open>The key the caller is limited by.\<close>

definition caller_key :: "string option \<Rightarrow> string" where
  "caller_key client = (case client of None \<Rightarrow> ''unknown'' | Some host \<Rightarrow> host)"

definition create_notification ::
  "'r redis \<Rightarrow> 'd database \<Rightarrow> settings \<Rightarrow> string option \<Rightarrow> notification_create \<Rightarrow>
    ('r, 'd, 'w, notification_create_response) task" where
  "create_notification R D cfg client body =
     await (allow R (api_rate_limit_requests cfg) (api_rate_limit_window_seconds cfg) (caller_key client)) (\<lambda>ok.
       if \<not> ok then
         Raise (HTTPException 429 ''Rate limit exceeded for notification triggers from this caller'')
       else
         await (has_seen R (nc_notification_id body)) (\<lambda>seen.
           if seen then Return (response body False False)
           else get_session D (instance_id cfg) (store_and_deliver R D cfg body)))"

section \<open>Keys\<close>

lemma dedup_distinct [simp]:
  "dedup_key n \<noteq> rate_limit_key c" "rate_limit_key c \<noteq> dedup_key n"
  "dedup_key n \<noteq> registry_key u" "registry_key u \<noteq> dedup_key n"
  "dedup_key n \<noteq> liveness_key i" "liveness_key i \<noteq> dedup_key n"
  "dedup_key n \<noteq> presence_key u" "presence_key u \<noteq> dedup_key n"
  "dedup_key n \<noteq> last_seen_key u" "last_seen_key u \<noteq> dedup_key n"
  by (simp_all add: dedup_key_def rate_limit_key_def registry_key_def liveness_key_def
      presence_key_def last_seen_key_def)

section \<open>Marked only when stored\<close>

lemma steps_db: "steps (on_data D db_step)"
  by (intro steps_on_data) (rule db_step_trans)

text \<open>The rows only grow under any task that obeys \<open>db_step\<close>.\<close>

lemma stored_kept:
  assumes "on_data D db_step w w'" "stored (data D w) i"
  shows "stored (data D w') i"
proof (cases "w_db w' = w_db w")
  case False
  with assms(1) have "db_step (data D w) (data D w')" by (simp add: on_data_def)
  moreover obtain n where "n \<in> set (notifications (data D w))" "n_notification_id n = i"
    using assms(2) by auto
  ultimately obtain n' where "n' \<in> set (notifications (data D w'))" "evolves n n'"
    unfolding db_step_def by blast
  moreover from this have "n_notification_id n' = i" using \<open>n_notification_id n = i\<close> by (simp add: evolves_def)
  ultimately show ?thesis by blast
qed (use assms in simp)

context database_service
begin

text \<open>If \<open>create\<close> returns, with a row or without, the id is in the table.\<close>

lemma create_confirms:
  assumes "run (create D sid i u ty pl) w = (Inr row, w')" "pending (data D w) sid = []"
  shows "stored (data D w') i"
proof -
  let ?d = "snd (db_insert_notification D sid i u ty pl (w_db w))"
  from assms(1) obtain r where r: "fst (db_insert_notification D sid i u ty pl (w_db w)) = Some r"
    and commit: "fst (db_commit D sid ?d) = Some ()" and w': "w' = w\<lparr>w_db := snd (db_commit D sid ?d)\<rparr>"
    by (auto simp: create_def split: option.splits)
  have "db_view D ?d = snd (doc_insert_notification sid i u ty pl (data D w))"
    using realises_Some(2) [OF insert_law r] by simp
  moreover have "data D w' = snd (doc_commit sid (db_view D ?d))"
    using realises_Some(2) [OF commit_law commit] w' by simp
  ultimately show ?thesis
    using assms(2)
    by (auto simp: doc_insert_notification_def doc_commit_def visible_def add_pending_def list_ex_iff Let_def)
qed

end

text \<open>A task that marks at most the ids of \<open>N\<close>.\<close>

definition marks_only :: "'r redis \<Rightarrow> uuid set \<Rightarrow> ('r, 'd, 'w) world \<Rightarrow> ('r, 'd, 'w) world \<Rightarrow> bool" where
  "marks_only R N w w' \<longleftrightarrow> (\<forall>n. seen R w' n \<longrightarrow> seen R w n \<or> n \<in> N)"

lemma steps_marks_only: "steps (marks_only R N)"
  unfolding marks_only_def by unfold_locales blast+

lemma marks_only_simps [obeys_rules]:
  "obeys (marks_only R N) (db_io f)" "obeys (marks_only R N) (ws_io g)" "obeys (marks_only R N) (in_gateway i h)"
  "obeys (marks_only R N) fresh" "obeys (marks_only R N) (read_state q)"
  by (auto simp: marks_only_def in_gateway_def fresh_def intro!: obeys_db_io obeys_ws_io obeys_sync)

lemma marks_only_db:
  "obeys (marks_only R N) (create D sid i u ty pl)" "obeys (marks_only R N) (mark_delivered_live D sid i)"
  "obeys (marks_only R N) (get_session_factory g)"
  by (auto simp: create_def mark_delivered_live_def get_session_factory_def get_engine_def
      intro!: obeys_rules)

lemma script_others:
  "key \<noteq> key' \<Longrightarrow> entries (snd (token_bucket_script key limit window s)) key' = entries s key'"
  "subscribers (snd (token_bucket_script key limit window s)) = subscribers s"
  "deliveries (snd (token_bucket_script key limit window s)) = deliveries s"
  by (auto simp: token_bucket_script_def doc_incr_def doc_expire_def Let_def split: option.splits prod.splits)

context redis_service
begin

lemma obeys_marks_only:
  assumes "realises (rd_view R) up f g"
    and "\<And>s n. n \<notin> N \<Longrightarrow> entries s (dedup_key n) = None \<Longrightarrow> entries (snd (g s)) (dedup_key n) = None"
  shows "obeys (marks_only R N) (redis_io f)"
proof (rule obeys_redis_io)
  fix w :: "('r, 'd, 'w) world"
  show "marks_only R N w (w\<lparr>w_redis := snd (f (w_redis w))\<rparr>)"
    unfolding marks_only_def using realises_effect [OF assms(1), of "w_redis w"] assms(2)
    by (cases "up (w_redis w)") fastforce+
qed

lemma marks_only_tasks:
  "obeys (marks_only R N) (allow R limit window c)" "obeys (marks_only R N) (has_seen R n)"
  "obeys (marks_only R N) (lookup R u)" "obeys (marks_only R N) (is_alive R i)"
  "obeys (marks_only R N) (publish_to_instance R i m)" "n \<in> N \<Longrightarrow> obeys (marks_only R N) (mark_seen R ttl n)"
proof -
  have "obeys (marks_only R N) (redis_io (rd_eval R (token_bucket_script (rate_limit_key c) limit window)))"
    by (rule obeys_marks_only [OF eval_law]) (simp add: script_others)
  moreover have "obeys (marks_only R N) (redis_io (rd_get R k))" for k
    by (rule obeys_marks_only [OF get_law]) (simp add: redis_docs)
  moreover have "obeys (marks_only R N) (redis_io (rd_exists R k))" for k
    by (rule obeys_marks_only [OF exists_law]) (simp add: redis_docs)
  moreover have "obeys (marks_only R N) (redis_io (rd_publish R k v))" for k v
    by (rule obeys_marks_only [OF publish_law]) (simp add: redis_docs)
  moreover have "obeys (marks_only R N) (redis_io (rd_set R (dedup_key n) v (Some t)))" if "n \<in> N" for v t
    by (rule obeys_marks_only [OF set_law]) (use that in \<open>auto split: if_splits\<close>)
  ultimately show "obeys (marks_only R N) (allow R limit window c)" "obeys (marks_only R N) (has_seen R n)"
    "obeys (marks_only R N) (lookup R u)" "obeys (marks_only R N) (is_alive R i)"
    "obeys (marks_only R N) (publish_to_instance R i m)" "n \<in> N \<Longrightarrow> obeys (marks_only R N) (mark_seen R ttl n)"
    by (auto simp: allow_def has_seen_def lookup_def is_alive_def publish_to_instance_def mark_seen_def Let_def
        intro!: obeys_rules)
qed

lemma marks_only_deliver: "obeys (marks_only R N) (deliver_live R D i sid body row)"
  unfolding deliver_live_def live_owner_def
  by (auto intro!: obeys_rules marks_only_tasks marks_only_db)

end

text \<open>Redis and PostgreSQL together, as the request handlers use them.\<close>

locale stores = redis_service R + database_service D
  for R :: "'r redis" and D :: "'d database"
begin

lemma obeys_deliver_live: "obeys_db D (deliver_live R D i sid body row)"
  unfolding deliver_live_def live_owner_def lookup_def is_alive_def publish_to_instance_def Let_def
  by (auto intro!: obeys_rules obeys_repository)

lemma obeys_store_and_deliver: "obeys_db D (store_and_deliver R D cfg body sid)"
  unfolding store_and_deliver_def mark_seen_def
  by (auto intro!: obeys_rules obeys_repository obeys_deliver_live)

lemma obeys_create_notification: "obeys_db D (create_notification R D cfg client body)"
  unfolding create_notification_def allow_def has_seen_def Let_def
  by (auto intro!: obeys_rules obeys_get_session obeys_store_and_deliver)

lemma store_marks_stored:
  fixes w :: "('r, 'd, 'w) world" and body cfg
  assumes "pending (data D w) sid = []"
  defines "w' \<equiv> snd (run (store_and_deliver R D cfg body sid) w)"
  shows "seen R w' n \<Longrightarrow> seen R w n \<or> (n = nc_notification_id body \<and> stored (data D w') n)"
proof -
  let ?i = "nc_notification_id body"
  let ?create = "create D sid ?i (nc_user_id body) (nc_type body) (nc_payload body) :: ('r, 'd, 'w, _) task"
  define rest :: "notification option \<Rightarrow> ('r, 'd, 'w, _) task" where "rest row = await (mark_seen R (idempotency_ttl_seconds cfg) ?i) (\<lambda>_.
       case row of
         None \<Rightarrow> Return (response body False False)
       | Some row \<Rightarrow>
           await (in_gateway (instance_id cfg) (\<lambda>g. g\<lparr>notifications_persisted_total :=
                                       Suc (notifications_persisted_total g)\<rparr>)) (\<lambda>_.
           await (deliver_live R D (instance_id cfg) sid body row) (\<lambda>delivered_live.
           Return (response body True delivered_live))))" for row
  have body: "store_and_deliver R D cfg body sid = await ?create rest"
    by (simp add: store_and_deliver_def rest_def[abs_def])
  have rest: "obeys (marks_only R {?i}) (rest row)" "obeys_db D (rest row)" for row
    unfolding rest_def mark_seen_def [of R "idempotency_ttl_seconds cfg" ?i, symmetric]
    by (auto simp: mark_seen_def intro!: obeys_rules marks_only_tasks marks_only_deliver obeys_deliver_live
        marks_only_tasks(6) [unfolded mark_seen_def])
  obtain r w1 where create: "run ?create w = (r, w1)" by fastforce
  have same: "marks_only R {} w w1"
    using obeys_run [OF steps_marks_only marks_only_db(1)] create by (metis snd_conv)
  assume seen: "seen R w' n"
  show ?thesis
  proof (cases r)
    case (Inl e)
    then have "w' = w1" using create body by (simp add: w'_def)
    with same seen show ?thesis by (auto simp: marks_only_def)
  next
    case (Inr row)
    then have w': "w' = snd (run (rest row) w1)" using create body by (simp add: w'_def)
    have "stored (data D w1) ?i" using create_confirms create Inr assms(1) by metis
    then have "stored (data D w') ?i"
      unfolding w' using stored_kept obeys_run [OF steps_db rest(2)] by metis
    moreover have "marks_only R {?i} w1 w'" unfolding w' by (rule obeys_run [OF steps_marks_only rest(1)])
    ultimately show ?thesis using same seen unfolding marks_only_def by blast
  qed
qed

lemma create_marks_stored:
  fixes w :: "('r, 'd, 'w) world" and body cfg client
  assumes "idle (data D w)"
  defines "w' \<equiv> snd (run (create_notification R D cfg client body) w)"
  shows "seen R w' n \<Longrightarrow> seen R w n \<or> (n = nc_notification_id body \<and> stored (data D w') n)"
proof -
  let ?allow = "allow R (api_rate_limit_requests cfg) (api_rate_limit_window_seconds cfg) (caller_key client) :: ('r, 'd, 'w, bool) task"
  let ?seen = "has_seen R (nc_notification_id body) :: ('r, 'd, 'w, bool) task"
  let ?store = "get_session D (instance_id cfg) (store_and_deliver R D cfg body)"
  obtain r1 w1 where allow: "run ?allow w = (r1, w1)" by fastforce
  obtain r2 w2 where has_seen: "run ?seen w1 = (r2, w2)" by fastforce
  have "marks_only R {} w w1" "marks_only R {} w1 w2"
    using obeys_run [OF steps_marks_only marks_only_tasks(1)] obeys_run [OF steps_marks_only marks_only_tasks(2)]
      allow has_seen by (metis snd_conv)+
  then have only: "seen R w1 n \<Longrightarrow> seen R w n" "seen R w2 n \<Longrightarrow> seen R w n" for n
    unfolding marks_only_def by blast+
  have "w_db w1 = w_db w" "w_db w2 = w_db w1"
    using allow has_seen by (auto simp: allow_def has_seen_def split: option.splits)
  then have idle: "pending (data D (opened (instance_id cfg) w2)) sid = []" for sid
    using assms(1) by simp
  have "w' = w1 \<or> w' = w2 \<or> w' = snd (run ?store w2)"
    using allow has_seen unfolding w'_def create_notification_def Let_def
    by (simp del: run_get_session split: sum.splits)
  moreover have "seen R w2 n \<or> (n = nc_notification_id body \<and> stored (data D (snd (run ?store w2))) n)"
    if "seen R (snd (run ?store w2)) n" for n
  proof -
    let ?sid = "session_of (instance_id cfg) w2" and ?o = "opened (instance_id cfg) w2"
    let ?w = "snd (run (store_and_deliver R D cfg body ?sid) ?o)"
    have "w_redis (snd (run ?store w2)) = w_redis ?w"
      "data D (snd (run ?store w2)) = db_view D (snd (db_close D ?sid (w_db ?w)))"
      by (simp_all add: run_get_session case_prod_unfold)
    moreover have "notifications (db_view D (snd (db_close D ?sid (w_db ?w)))) = notifications (data D ?w)"
      using committed_same(3) [of ?sid "w_db ?w"] by simp
    ultimately show ?thesis
      using store_marks_stored [OF idle, where n = n and cfg = cfg and body = body] that unfolding opened_frame(1) by simp
  qed
  ultimately show "seen R w' n \<Longrightarrow> seen R w n \<or> (n = nc_notification_id body \<and> stored (data D w') n)"
    using only by blast
qed

end

section \<open>What the endpoint does\<close>

text \<open>The instance a notification for the user goes to, and what Redis is then.\<close>

definition owner_of :: "rstate \<Rightarrow> uuid \<Rightarrow> string option" where
  "owner_of s u =
     (case value_of s (registry_key (uuid_str u)) of
        None \<Rightarrow> None
      | Some i \<Rightarrow> if entries s (liveness_key i) = None then None else Some i)"

definition sent_to :: "string option \<Rightarrow> json \<Rightarrow> rstate \<Rightarrow> rstate" where
  "sent_to owner m s =
     (case owner of None \<Rightarrow> s | Some i \<Rightarrow> snd (doc_publish (instance_channel i) (dumps m) s))"

text \<open>Both stores are up and no transaction is open.\<close>

definition ready :: "'r redis \<Rightarrow> 'd database \<Rightarrow> ('r, 'd, 'w) world \<Rightarrow> bool" where
  "ready R D w \<longleftrightarrow> redis_up R w \<and> db_up D (w_db w) \<and> idle (data D w) \<and> tables_ok (data D w)"

text \<open>What the endpoint never touches.\<close>

definition same_rest :: "('r, 'd, 'w) world \<Rightarrow> ('r, 'd, 'w) world \<Rightarrow> bool" where
  "same_rest w w' \<longleftrightarrow> w_ws w' = w_ws w \<and> w_now w' = w_now w \<and> w_time w' = w_time w \<and>
     w_draws w' = w_draws w \<and> w_uuid4 w' = w_uuid4 w \<and> w_printed w' = w_printed w \<and> w_taken w' = w_taken w \<and>
     (\<forall>i. connections (w_gateway w' i) = connections (w_gateway w i))"

lemma same_rest_trans: "same_rest w w' \<Longrightarrow> same_rest w' w'' \<Longrightarrow> same_rest w w''"
  by (simp add: same_rest_def)

lemma same_rest_simps [simp]:
  "same_rest w (w\<lparr>w_redis := r\<rparr>)" "same_rest w (w\<lparr>w_db := d\<rparr>)" "same_rest w (opened i w)"
  "same_rest w w"
  by (simp_all add: same_rest_def)

lemma same_rest_counted:
  "(\<And>g. connections (h g) = connections g) \<Longrightarrow> same_rest w (upd_gateway i h w)"
  by (simp add: same_rest_def upd_gateway_def)

text \<open>Redis once an id is marked.\<close>

definition with_mark :: "settings \<Rightarrow> uuid \<Rightarrow> rstate \<Rightarrow> rstate" where
  "with_mark cfg i s =
     s\<lparr>entries := (entries s)(dedup_key i \<mapsto> (''1'', Some (1000 * nat (idempotency_ttl_seconds cfg))))\<rparr>"

lemma with_mark_simps [simp]:
  "entries (with_mark cfg i s) (dedup_key i) = Some (''1'', Some (1000 * nat (idempotency_ttl_seconds cfg)))"
  "key \<noteq> dedup_key i \<Longrightarrow> entries (with_mark cfg i s) key = entries s key"
  "subscribers (with_mark cfg i s) = subscribers s" "deliveries (with_mark cfg i s) = deliveries s"
  "owner_of (with_mark cfg i s) u = owner_of s u"
  by (auto simp: with_mark_def owner_of_def split: option.splits)

text \<open>The row as it is in the end.\<close>

definition final_row :: "string option \<Rightarrow> notification \<Rightarrow> notification" where
  "final_row owner row = row\<lparr>n_delivered_live := (owner \<noteq> None)\<rparr>"

lemma delivered_row:
  assumes "\<not> stored s i"
  shows "notifications (with_assigned [NotificationIdIs i] (SetDeliveredLive True) (with_row i u ty pl s)) =
      notifications s @ [final_row (Some x) (new_row s i u ty pl)]"
    "notifications (with_row i u ty pl s) = notifications s @ [final_row None (new_row s i u ty pl)]"
    "receipts (with_row i u ty pl s) = receipts s"
    "receipts (with_assigned cs a (with_row i u ty pl s)) = receipts s"
  using assms
  by (auto simp: with_assigned_def with_row_def new_row_def final_row_def image_iff intro!: map_idI)

context stores
begin

lemma run_live_owner:
  assumes "redis_up R w"
  obtains r where "run (live_owner R u) w = (Inr (owner_of (store R w) u), w\<lparr>w_redis := r\<rparr>)"
    "rd_view R r = store R w" "rd_up R r"
proof -
  let ?k = "registry_key (uuid_str u)"
  let ?r = "snd (rd_get R ?k (w_redis w))"
  let ?r' = "\<lambda>i. snd (rd_exists R (liveness_key i) ?r)"
  show ?thesis
  proof (cases "value_of (store R w) ?k")
    case None
    show ?thesis by (rule that [of ?r])
      (use assms None in \<open>simp_all add: live_owner_def run_lookup owner_of_def up_simps redis_docs\<close>)
  next
    case (Some i)
    then obtain b where "registered R w (uuid_str u) = Some (i, b)" by auto
    note there = this
    show ?thesis by (rule that [of "?r' i"])
      (use assms there in \<open>simp_all add: live_owner_def run_lookup run_is_alive owner_of_def up_simps redis_docs\<close>)
  qed
qed

lemma run_deliver_live:
  fixes w :: "('r, 'd, 'w) world"
  assumes "ready R D w"
  obtains w' where
    "run (deliver_live R D g sid body row) w = (Inr (owner_of (store R w) (nc_user_id body) \<noteq> None), w')"
    "store R w' = sent_to (owner_of (store R w) (nc_user_id body))
       (live_message (nc_user_id body) (w_time w) row) (store R w)"
    "data D w' = (if owner_of (store R w) (nc_user_id body) = None then data D w
       else with_assigned [NotificationIdIs (n_notification_id row)] (SetDeliveredLive True) (data D w))"
    "ready R D w'" "same_rest w w'"
proof -
  let ?u = "nc_user_id body"
  note up = assms [unfolded ready_def]
  obtain r where owner: "run (live_owner R ?u) w = (Inr (owner_of (store R w) ?u), w\<lparr>w_redis := r\<rparr>)"
    "rd_view R r = store R w" "rd_up R r" using run_live_owner up by blast
  let ?w1 = "w\<lparr>w_redis := r\<rparr>"
  show ?thesis
  proof (cases "owner_of (store R w) ?u")
    case None
    show ?thesis by (rule that [of ?w1])
      (use owner None up in \<open>simp_all add: deliver_live_def sent_to_def ready_def\<close>)
  next
    case (Some i)
    let ?m = "live_message ?u (w_time w) row"
    let ?r2 = "snd (rd_publish R (instance_channel i) (dumps ?m) r)"
    let ?w2 = "w\<lparr>w_redis := ?r2\<rparr>"
    have up1: "redis_up R ?w1" using owner by simp
    have publish: "run (publish_to_instance R i ?m) ?w1 = (Inr (), ?w2)"
      "rd_view R ?r2 = snd (doc_publish (instance_channel i) (dumps ?m) (store R w))" "rd_up R ?r2"
      using run_publish [OF up1, of i ?m] owner by simp_all
    from mark_delivered_live_does [of ?w2 sid "n_notification_id row"] up
    obtain d where d: "run (mark_delivered_live D sid (n_notification_id row)) ?w2 = (Inr (), ?w2\<lparr>w_db := d\<rparr>)"
      "db_view D d = with_assigned [NotificationIdIs (n_notification_id row)] (SetDeliveredLive True) (data D w)"
      "db_up D d" by (auto elim: db_doesE)
    let ?h = "\<lambda>g. g\<lparr>notifications_delivered_live_total := Suc (notifications_delivered_live_total g)\<rparr>"
    show ?thesis
    proof (rule that [of "upd_gateway g ?h (?w2\<lparr>w_db := d\<rparr>)"])
      have "same_rest w (?w2\<lparr>w_db := d\<rparr>)" by (simp add: same_rest_def)
      then show "same_rest w (upd_gateway g ?h (?w2\<lparr>w_db := d\<rparr>))"
        by (rule same_rest_trans) (rule same_rest_counted, simp)
    qed (use owner publish d Some up in \<open>simp_all add: deliver_live_def sent_to_def ready_def\<close>)
  qed
qed

text \<open>Closing the session of a block that left nothing open changes nothing.\<close>

lemma session_ready:
  assumes "run (body (session_of i w)) (opened i w) = (Inr a, w1)" "ready R D w1" "same_rest (opened i w) w1"
  obtains w' where "run (get_session D i body) w = (Inr a, w')" "store R w' = store R w1"
    "data D w' = data D w1" "ready R D w'" "same_rest w w'" "w_gateway w' = w_gateway w1"
proof -
  let ?d = "snd (db_close D (session_of i w) (w_db w1))"
  have close: "fst (db_close D (session_of i w) (w_db w1)) = Some ()" "db_view D ?d = data D w1" "db_up D ?d"
    using assms(2) by (simp_all add: ready_def db_up_simps) (simp add: doc_close_session_def)
  show ?thesis
  proof (rule that [of "w1\<lparr>w_db := ?d\<rparr>"])
    show "run (get_session D i body) w = (Inr a, w1\<lparr>w_db := ?d\<rparr>)"
      using assms(1) close by (simp add: run_get_session)
    show "ready R D (w1\<lparr>w_db := ?d\<rparr>)" using assms(2) close by (simp add: ready_def)
    show "same_rest w (w1\<lparr>w_db := ?d\<rparr>)" using assms(3) by (simp add: same_rest_def)
  qed (use close in simp_all)
qed

lemma ready_opened: "ready R D (opened i w) = ready R D w"
  by (simp add: ready_def)

lemma run_store_duplicate:
  fixes w :: "('r, 'd, 'w) world"
  assumes "ready R D w" "valid_settings cfg" "stored (data D w) (nc_notification_id body)"
  obtains w' where "run (store_and_deliver R D cfg body sid) w = (Inr (response body False False), w')"
    "store R w' = with_mark cfg (nc_notification_id body) (store R w)" "data D w' = data D w"
    "ready R D w'" "same_rest w w'" "w_gateway w' = w_gateway w"
proof -
  let ?i = "nc_notification_id body"
  note up = assms(1) [unfolded ready_def]
  from create_does [of w sid ?i "nc_user_id body" "nc_type body" "nc_payload body"] up assms(3)
  obtain d where d: "run (create D sid ?i (nc_user_id body) (nc_type body) (nc_payload body)) w = (Inr None, w\<lparr>w_db := d\<rparr>)"
    "db_view D d = data D w" "db_up D d" by (auto simp: with_row_def elim: db_doesE)
  let ?w = "w\<lparr>w_db := d, w_redis := snd (rd_set R (dedup_key ?i) ''1'' (Some (idempotency_ttl_seconds cfg)) (w_redis w))\<rparr>"
  show ?thesis
    by (rule that [of ?w])
      (use d up assms(2) in \<open>simp_all add: store_and_deliver_def run_mark_seen up_simps redis_docs
        with_mark_def valid_settings_def ready_def same_rest_def\<close>)
qed

lemma run_store_new:
  fixes w :: "('r, 'd, 'w) world" and body
  assumes "ready R D w" "valid_settings cfg" "\<not> stored (data D w) (nc_notification_id body)"
  defines "i \<equiv> nc_notification_id body" and "u \<equiv> nc_user_id body"
  defines "row \<equiv> new_row (data D w) i u (nc_type body) (nc_payload body)" and "owner \<equiv> owner_of (store R w) u"
  obtains w' where "run (store_and_deliver R D cfg body sid) w = (Inr (response body True (owner \<noteq> None)), w')"
    "store R w' = sent_to owner (live_message u (w_time w) row) (with_mark cfg i (store R w))"
    "notifications (data D w') = notifications (data D w) @ [final_row owner row]"
    "receipts (data D w') = receipts (data D w)"
    "ready R D w'" "same_rest w w'"
proof -
  note up = assms(1) [unfolded ready_def]
  let ?s = "with_row i u (nc_type body) (nc_payload body) (data D w)"
  from create_does [of w sid i u "nc_type body" "nc_payload body"] up assms(3)
  obtain d where d: "run (create D sid i u (nc_type body) (nc_payload body)) w = (Inr (Some row), w\<lparr>w_db := d\<rparr>)"
    "db_view D d = ?s" "db_up D d" by (auto simp: i_def row_def elim: db_doesE)
  let ?r = "snd (rd_set R (dedup_key i) ''1'' (Some (idempotency_ttl_seconds cfg)) (w_redis w))"
  let ?h = "\<lambda>g. g\<lparr>notifications_persisted_total := Suc (notifications_persisted_total g)\<rparr>"
  let ?w = "upd_gateway (instance_id cfg) ?h (w\<lparr>w_db := d, w_redis := ?r\<rparr>)"
  have mark: "run (mark_seen R (idempotency_ttl_seconds cfg) i) (w\<lparr>w_db := d\<rparr>) =
      (Inr (), w\<lparr>w_db := d, w_redis := ?r\<rparr>)"
    "store R ?w = with_mark cfg i (store R w)" "redis_up R ?w"
    using up assms(2) by (simp_all add: run_mark_seen up_simps redis_docs valid_settings_def with_mark_def)
  have ready: "ready R D ?w" using mark(3) d up by (simp add: ready_def)
  have "same_rest (w\<lparr>w_db := d, w_redis := ?r\<rparr>) ?w" by (rule same_rest_counted) simp
  then have rest: "same_rest w ?w" by (rule same_rest_trans [rotated]) (simp add: same_rest_def)
  obtain w' where deliver:
    "run (deliver_live R D (instance_id cfg) sid body row) ?w = (Inr (owner_of (store R ?w) (nc_user_id body) \<noteq> None), w')"
    "store R w' = sent_to (owner_of (store R ?w) (nc_user_id body))
       (live_message (nc_user_id body) (w_time ?w) row) (store R ?w)"
    "data D w' = (if owner_of (store R ?w) (nc_user_id body) = None then data D ?w
       else with_assigned [NotificationIdIs (n_notification_id row)] (SetDeliveredLive True) (data D ?w))"
    "ready R D w'" "same_rest ?w w'"
    by (rule run_deliver_live [OF ready])
  have eqs: "owner_of (store R w) u = owner" "n_notification_id row = i" "data D ?w = ?s"
    "w_time ?w = w_time w" "nc_user_id body = u"
    using d(2) by (simp_all add: owner_def u_def row_def new_row_def)
  note w' = deliver [unfolded mark(2) with_mark_simps(5), unfolded eqs]
  have "\<not> stored (data D w) i" using assms(3) by (simp add: i_def)
  note rows = delivered_row [OF this, where u = u and ty = "nc_type body" and pl = "nc_payload body"]
  show ?thesis
  proof (rule that [of w'])
    show "run (store_and_deliver R D cfg body sid) w = (Inr (response body True (owner \<noteq> None)), w')"
      using d(1) mark(1) w'(1) by (simp add: store_and_deliver_def flip: i_def u_def)
    show "notifications (data D w') = notifications (data D w) @ [final_row owner row]"
      "receipts (data D w') = receipts (data D w)"
      using w'(3) rows by (cases owner; simp add: row_def)+
    show "same_rest w w'" using rest w'(5) by (rule same_rest_trans)
  qed (use w' in simp_all)
qed

text \<open>Admission: the limiter, then the guard. Only the caller's counter changes.\<close>

lemma run_admission:
  fixes w :: "('r, 'd, 'w) world"
  assumes "redis_up R w" "valid_settings cfg" "counts R (caller_key client) w k" "count_of k < 2 ^ 63 - 1"
  obtains r where
    "run (create_notification R D cfg client body) w =
      (if \<not> admits (api_rate_limit_requests cfg) k then
         (Inl (HTTPException 429 ''Rate limit exceeded for notification triggers from this caller''), w\<lparr>w_redis := r\<rparr>)
       else if seen R w (nc_notification_id body) then (Inr (response body False False), w\<lparr>w_redis := r\<rparr>)
       else run (get_session D (instance_id cfg) (store_and_deliver R D cfg body)) (w\<lparr>w_redis := r\<rparr>))"
    "rd_up R r" "subscribers (rd_view R r) = subscribers (store R w)"
    "deliveries (rd_view R r) = deliveries (store R w)"
    "\<And>key. key \<noteq> rate_limit_key (caller_key client) \<Longrightarrow> entries (rd_view R r) key = entries (store R w) key"
    "counts R (caller_key client) (w\<lparr>w_redis := r\<rparr>) (hit (api_rate_limit_window_seconds cfg) k)"
proof -
  let ?c = "caller_key client" and ?i = "nc_notification_id body"
  let ?script = "token_bucket_script (rate_limit_key ?c) (api_rate_limit_requests cfg) (api_rate_limit_window_seconds cfg)"
  let ?r1 = "snd (rd_eval R ?script (w_redis w))"
  let ?r2 = "snd (rd_get R (dedup_key ?i) ?r1)"
  have "0 < api_rate_limit_window_seconds cfg" using assms(2) by (simp add: valid_settings_def)
  note allow = run_allow [OF assms(1,3,4) this, of "api_rate_limit_requests cfg"]
  have r1: "rd_up R ?r1" "rd_view R ?r1 = snd (?script (store R w))" using assms(1) by (simp_all add: up_simps)
  then have r2: "rd_up R ?r2" "rd_view R ?r2 = snd (?script (store R w))" by (simp_all add: up_simps redis_docs)
  have seen: "run (has_seen R ?i) (w\<lparr>w_redis := ?r1\<rparr>) = (Inr (seen R w ?i), w\<lparr>w_redis := ?r2\<rparr>)"
    using r1 script_others(1) [of "rate_limit_key ?c" "dedup_key ?i"] by (simp add: run_has_seen)
  have only: "entries (snd (?script s)) key = entries s key" if "key \<noteq> rate_limit_key ?c" for key s
    using script_others(1) that by metis
  show ?thesis
  proof (rule that [of "if admits (api_rate_limit_requests cfg) k then ?r2 else ?r1"])
    show "counts R ?c (w\<lparr>w_redis := if admits (api_rate_limit_requests cfg) k then ?r2 else ?r1\<rparr>)
        (hit (api_rate_limit_window_seconds cfg) k)"
      using allow(1,4) r1(2) r2(2) by (simp add: counts_def)
  qed (use allow(1) seen r1 r2 only in \<open>simp_all add: create_notification_def script_others\<close>)
qed

lemma run_create_new:
  fixes w :: "('r, 'd, 'w) world" and body
  assumes "ready R D w" "valid_settings cfg" "counts R (caller_key client) w k" "count_of k < 2 ^ 63 - 1"
    and "admits (api_rate_limit_requests cfg) k" "\<not> seen R w (nc_notification_id body)"
    and "\<not> stored (data D w) (nc_notification_id body)"
  defines "i \<equiv> nc_notification_id body" and "u \<equiv> nc_user_id body"
  defines "row \<equiv> new_row (data D w) i u (nc_type body) (nc_payload body)" and "owner \<equiv> owner_of (store R w) u"
  obtains w' where "run (create_notification R D cfg client body) w = (Inr (response body True (owner \<noteq> None)), w')"
    "deliveries (store R w') = deliveries (sent_to owner (live_message u (w_time w) row) (store R w))"
    "seen R w' i" "notifications (data D w') = notifications (data D w) @ [final_row owner row]"
    "receipts (data D w') = receipts (data D w)" "ready R D w'" "same_rest w w'"
    "entries (store R w') = (entries (store R w))
       (rate_limit_key (caller_key client) := entries (store R w') (rate_limit_key (caller_key client)),
        dedup_key i \<mapsto> (''1'', Some (1000 * nat (idempotency_ttl_seconds cfg))))"
    "subscribers (store R w') = subscribers (store R w)"
    "counts R (caller_key client) w' (hit (api_rate_limit_window_seconds cfg) k)"
proof -
  have "redis_up R w" using assms(1) by (simp add: ready_def)
  from run_admission [OF this assms(2,3,4), of body] obtain r where
    admission: "run (create_notification R D cfg client body) w =
      run (get_session D (instance_id cfg) (store_and_deliver R D cfg body)) (w\<lparr>w_redis := r\<rparr>)"
    and r: "rd_up R r" "subscribers (rd_view R r) = subscribers (store R w)"
      "deliveries (rd_view R r) = deliveries (store R w)"
      "\<And>key. key \<noteq> rate_limit_key (caller_key client) \<Longrightarrow> entries (rd_view R r) key = entries (store R w) key"
      "counts R (caller_key client) (w\<lparr>w_redis := r\<rparr>) (hit (api_rate_limit_window_seconds cfg) k)"
    using assms(5,6) by metis
  let ?w = "w\<lparr>w_redis := r\<rparr>"
  let ?o = "opened (instance_id cfg) ?w" and ?sid = "session_of (instance_id cfg) ?w"
  have o: "ready R D ?o" "\<not> stored (data D ?o) (nc_notification_id body)"
    using assms(1,7) r(1) by (simp_all add: ready_opened) (simp add: ready_def)
  have owner: "owner_of (store R ?o) u = owner"
    using r(4) by (auto simp: owner_def owner_of_def split: option.splits)
  obtain w1 where w1: "run (store_and_deliver R D cfg body ?sid) ?o = (Inr (response body True (owner \<noteq> None)), w1)"
    "store R w1 = sent_to owner (live_message u (w_time w) row) (with_mark cfg i (rd_view R r))"
    "notifications (data D w1) = notifications (data D w) @ [final_row owner row]"
    "receipts (data D w1) = receipts (data D w)" "ready R D w1" "same_rest ?o w1"
    by (rule run_store_new [OF o(1) assms(2) o(2), of ?sid])
      (use owner in \<open>simp add: i_def u_def row_def\<close>)
  obtain w' where w': "run (get_session D (instance_id cfg) (store_and_deliver R D cfg body)) ?w =
      (Inr (response body True (owner \<noteq> None)), w')" "store R w' = store R w1"
    "data D w' = data D w1" "ready R D w'" "same_rest ?w w'"
    by (rule session_ready [where body = "store_and_deliver R D cfg body", OF w1(1,5,6)])
  show ?thesis
  proof (rule that [of w'])
    show "deliveries (store R w') = deliveries (sent_to owner (live_message u (w_time w) row) (store R w))"
      using w'(2) w1(2) r(2,3) by (cases owner) (simp_all add: sent_to_def doc_publish_def cong: if_cong)
    show "seen R w' i" using w'(2) w1(2) by (cases owner) (simp_all add: sent_to_def redis_docs)
    show "same_rest w w'" using w'(5) by (simp add: same_rest_def)
    have after: "entries (store R w') = (entries (rd_view R r))(dedup_key i \<mapsto> (''1'', Some (1000 * nat (idempotency_ttl_seconds cfg))))"
      "subscribers (store R w') = subscribers (rd_view R r)"
      using w'(2) w1(2) by (cases owner; simp add: sent_to_def redis_docs with_mark_def)+
    then show "entries (store R w') = (entries (store R w))
       (rate_limit_key (caller_key client) := entries (store R w') (rate_limit_key (caller_key client)),
        dedup_key i \<mapsto> (''1'', Some (1000 * nat (idempotency_ttl_seconds cfg))))"
      using r(4) by (auto simp: fun_eq_iff)
    show "subscribers (store R w') = subscribers (store R w)" using after(2) r(2) by simp
    show "counts R (caller_key client) w' (hit (api_rate_limit_window_seconds cfg) k)"
      using r(5) after(1) by (simp add: counts_def)
  qed (use admission w' w1 in simp_all)
qed

lemma run_create_duplicate:
  fixes w :: "('r, 'd, 'w) world"
  assumes "ready R D w" "valid_settings cfg" "counts R (caller_key client) w k" "count_of k < 2 ^ 63 - 1"
    and "admits (api_rate_limit_requests cfg) k"
    and "seen R w (nc_notification_id body) \<or> stored (data D w) (nc_notification_id body)"
  obtains w' where "run (create_notification R D cfg client body) w = (Inr (response body False False), w')"
    "deliveries (store R w') = deliveries (store R w)" "data D w' = data D w" "seen R w' (nc_notification_id body)"
    "ready R D w'" "same_rest w w'"
proof -
  have "redis_up R w" using assms(1) by (simp add: ready_def)
  from run_admission [OF this assms(2,3,4), of body] obtain r where
    admission: "run (create_notification R D cfg client body) w =
      (if seen R w (nc_notification_id body) then (Inr (response body False False), w\<lparr>w_redis := r\<rparr>)
       else run (get_session D (instance_id cfg) (store_and_deliver R D cfg body)) (w\<lparr>w_redis := r\<rparr>))"
    and r: "rd_up R r" "deliveries (rd_view R r) = deliveries (store R w)"
      "\<And>key. key \<noteq> rate_limit_key (caller_key client) \<Longrightarrow> entries (rd_view R r) key = entries (store R w) key"
    using assms(5) by metis
  let ?w = "w\<lparr>w_redis := r\<rparr>"
  show ?thesis
  proof (cases "seen R w (nc_notification_id body)")
    case True
    show ?thesis by (rule that [of ?w]) (use True admission r assms(1) in \<open>simp_all add: ready_def\<close>)
  next
    case False
    let ?o = "opened (instance_id cfg) ?w" and ?sid = "session_of (instance_id cfg) ?w"
    have o: "ready R D ?o" "stored (data D ?o) (nc_notification_id body)"
      using assms(1,6) r(1) False by (simp_all add: ready_opened) (simp add: ready_def)
    obtain w1 where w1: "run (store_and_deliver R D cfg body ?sid) ?o = (Inr (response body False False), w1)"
      "store R w1 = with_mark cfg (nc_notification_id body) (store R ?o)" "data D w1 = data D ?o"
      "ready R D w1" "same_rest ?o w1"
      by (rule run_store_duplicate [OF o(1) assms(2) o(2), of ?sid])
    obtain w' where w': "run (get_session D (instance_id cfg) (store_and_deliver R D cfg body)) ?w =
        (Inr (response body False False), w')" "store R w' = store R w1"
      "data D w' = data D w1" "ready R D w'" "same_rest ?w w'"
      by (rule session_ready [where body = "store_and_deliver R D cfg body", OF w1(1,4,5)])
    have rest: "same_rest w w'" using w'(5) by (simp add: same_rest_def)
    show ?thesis by (rule that [of w']) (use False admission w' w1 r rest in simp_all)
  qed
qed

end

interpretation memstores: stores mem_redis mem_database
  by unfold_locales


section \<open>Properties\<close>

text \<open>
  One request on its own: an id is marked as seen only once its notification is stored; whatever fails, and wherever a
  reply is lost, the mark is never there without the committed row, so a retry is never refused
  for a notification that was lost.
\<close>

theorem seen_only_if_stored:
  assumes "redis_service R" "database_service D" "idle (data D w)"
    and "w' = snd (run (create_notification R D cfg client body) w)"
    and "seen R w' n" "\<not> seen R w n"
  shows "n = nc_notification_id body \<and> stored (data D w') n"
proof -
  have "stores R D" using assms(1,2) by (rule stores.intro)
  from stores.create_marks_stored [OF this assms(3), where n = n and cfg = cfg and body = body and client = client] assms(4-6)
  show ?thesis by blast
qed

definition sample_create :: "uuid \<Rightarrow> notification_create" where
  "sample_create i = \<lparr>nc_notification_id = i, nc_user_id = 7, nc_type = ''message.received'', nc_payload = JObj []\<rparr>"

lemma sample_create_simps [simp]:
  "nc_notification_id (sample_create i) = i" "nc_user_id (sample_create i) = 7"
  "nc_type (sample_create i) = ''message.received''" "nc_payload (sample_create i) = JObj []"
  by (simp_all add: sample_create_def)

lemma sample_ready: "ready mem_redis mem_database sample_world" "ready mem_redis mem_database start_world"
  by (simp_all add: ready_def)

lemma sample_counts: "counts mem_redis c sample_world None" "\<not> seen mem_redis sample_world i"
  by (simp_all add: counts_def)

lemma default_admits [simp]: "admits (api_rate_limit_requests default_settings) None"
  by (simp add: admits_def default_settings_def)

lemma sample_run:
  obtains w' where "run (create_notification mem_redis mem_database default_settings None (sample_create 105)) sample_world =
      (Inr (response (sample_create 105) True False), w')" "seen mem_redis w' 105"
  by (rule memstores.run_create_new [OF sample_ready(1) _ sample_counts(1), where cfg = default_settings
        and body = "sample_create 105" and client = None])
    (auto simp: owner_of_def)

theorem seen_only_if_stored_witness:
  "stored (data mem_database (snd (run (create_notification mem_redis mem_database default_settings None
     (sample_create 105)) sample_world))) 105"
proof -
  obtain w' where w': "run (create_notification mem_redis mem_database default_settings None (sample_create 105)) sample_world =
      (Inr (response (sample_create 105) True False), w')" "seen mem_redis w' 105"
    by (rule sample_run)
  then have "w' = snd (run (create_notification mem_redis mem_database default_settings None (sample_create 105)) sample_world)"
    by simp
  from seen_only_if_stored [OF mem.redis_service_axioms memdb.database_service_axioms _ this w'(2) sample_counts(2)]
  show ?thesis using w'(1) by simp
qed

text \<open>
  A caller over the limit is told so with 429, and nothing else happens: nothing is stored,
  marked or published, and only the caller's counter in Redis changes.
\<close>

theorem create_refused_over_limit:
  assumes "redis_service R" "database_service D" "redis_up R w" "valid_settings cfg"
    and "counts R (caller_key client) w k" "count_of k < 2 ^ 63 - 1" "\<not> admits (api_rate_limit_requests cfg) k"
  shows "\<exists>w'. run (create_notification R D cfg client body) w =
      (Inl (HTTPException 429 ''Rate limit exceeded for notification triggers from this caller''), w') \<and>
    w_db w' = w_db w \<and> w_gateway w' = w_gateway w \<and>
    deliveries (store R w') = deliveries (store R w) \<and>
    (\<forall>key. key \<noteq> rate_limit_key (caller_key client) \<longrightarrow> entries (store R w') key = entries (store R w) key)"
proof -
  have "stores R D" using assms(1,2) by (rule stores.intro)
  from stores.run_admission [OF this assms(3-6), of body] assms(7) obtain r where
    "run (create_notification R D cfg client body) w =
      (Inl (HTTPException 429 ''Rate limit exceeded for notification triggers from this caller''), w\<lparr>w_redis := r\<rparr>)"
    "deliveries (rd_view R r) = deliveries (store R w)"
    "\<And>key. key \<noteq> rate_limit_key (caller_key client) \<Longrightarrow> entries (rd_view R r) key = entries (store R w) key"
    by metis
  then show ?thesis by simp
qed

theorem create_refused_over_limit_witness:
  "\<exists>w'. run (create_notification mem_redis mem_database (default_settings\<lparr>api_rate_limit_requests := 0\<rparr>) None
       (sample_create 105)) sample_world =
      (Inl (HTTPException 429 ''Rate limit exceeded for notification triggers from this caller''), w') \<and>
     notifications (data mem_database w') = notifications sample_db"
  using create_refused_over_limit [OF mem.redis_service_axioms memdb.database_service_axioms _ _ sample_counts(1),
      where cfg = "default_settings\<lparr>api_rate_limit_requests := 0\<rparr>" and client = None and body = "sample_create 105"]
  by (auto simp: admits_def valid_settings_def default_settings_def)

text \<open>
  C24. A repeated id, from a caller the rate limit admits, is answered "not persisted, not delivered" with both stores up, whether the
  mark or only the row is there: no row is added or changed, nothing is published, and the id is
  marked from then on.
\<close>

theorem create_duplicate_ignored:
  assumes "redis_service R" "database_service D" "ready R D w" "valid_settings cfg"
    and "counts R (caller_key client) w k" "count_of k < 2 ^ 63 - 1" "admits (api_rate_limit_requests cfg) k"
    and "seen R w (nc_notification_id body) \<or> stored (data D w) (nc_notification_id body)"
  shows "\<exists>w'. run (create_notification R D cfg client body) w = (Inr (response body False False), w') \<and>
    data D w' = data D w \<and> deliveries (store R w') = deliveries (store R w) \<and>
    seen R w' (nc_notification_id body)"
proof -
  have "stores R D" using assms(1,2) by (rule stores.intro)
  then show ?thesis by (rule stores.run_create_duplicate [OF _ assms(3-8)]) blast
qed

theorem create_duplicate_ignored_witness:
  "\<exists>w'. run (create_notification mem_redis mem_database default_settings None (sample_create 101)) sample_world =
      (Inr (response (sample_create 101) False False), w') \<and> seen mem_redis w' 101"
  using create_duplicate_ignored [OF mem.redis_service_axioms memdb.database_service_axioms sample_ready(1) _
      sample_counts(1), where cfg = default_settings and client = None and body = "sample_create 101"]
  by auto

text \<open>
  C3. A new id, from a caller the rate limit admits and with both stores up: exactly one row is added, with the request's data; it is
  published once, and flagged as delivered live, exactly if the registry places the user on an
  instance whose liveness key is there; the answer says so, and the id is marked.
\<close>

theorem create_stores_and_publishes:
  assumes "redis_service R" "database_service D" "ready R D w" "valid_settings cfg"
    and "counts R (caller_key client) w k" "count_of k < 2 ^ 63 - 1" "admits (api_rate_limit_requests cfg) k"
    and "\<not> seen R w i" "\<not> stored (data D w) i" "i = nc_notification_id body"
    and "row = new_row (data D w) i (nc_user_id body) (nc_type body) (nc_payload body)"
    and "owner = owner_of (store R w) (nc_user_id body)"
  shows "\<exists>w'. run (create_notification R D cfg client body) w = (Inr (response body True (owner \<noteq> None)), w') \<and>
    notifications (data D w') = notifications (data D w) @ [row\<lparr>n_delivered_live := (owner \<noteq> None)\<rparr>] \<and>
    receipts (data D w') = receipts (data D w) \<and> seen R w' i \<and>
    deliveries (store R w') = (case owner of
        None \<Rightarrow> deliveries (store R w)
      | Some g \<Rightarrow> (\<lambda>h. deliveries (store R w) h @
          (if h \<in> set (subscribers (store R w) (instance_channel g))
           then [(instance_channel g, dumps (live_message (nc_user_id body) (w_time w) row))] else [])))"
proof -
  have "stores R D" using assms(1,2) by (rule stores.intro)
  then obtain w' where w': "run (create_notification R D cfg client body) w = (Inr (response body True (owner \<noteq> None)), w')"
    "deliveries (store R w') = deliveries (sent_to owner (live_message (nc_user_id body) (w_time w) row) (store R w))"
    "seen R w' i" "notifications (data D w') = notifications (data D w) @ [final_row owner row]"
    "receipts (data D w') = receipts (data D w)"
    by (rule stores.run_create_new [OF _ assms(3-7) assms(8,9) [unfolded assms(10)]])
      (simp add: assms(10-12))
  then show ?thesis
    by (intro exI [of _ w']) (auto simp: sent_to_def final_row_def doc_publish_def fun_eq_iff split: option.splits)
qed

theorem create_stores_and_publishes_witness:
  "\<exists>w'. run (create_notification mem_redis mem_database default_settings None (sample_create 105)) sample_world =
      (Inr (response (sample_create 105) True False), w') \<and> seen mem_redis w' 105 \<and>
     length (notifications (data mem_database w')) = 5"
  using create_stores_and_publishes [OF mem.redis_service_axioms memdb.database_service_axioms sample_ready(1) _
      sample_counts(1) _ _ sample_counts(2) _ _ HOL.refl HOL.refl,
      where cfg = default_settings and client = None and body = "sample_create 105" and i = 105]
  by (auto simp: owner_of_def)


text \<open>
  C1. From the request to the socket: a new notification, from a caller the rate limit admits and with both
  stores up, for a user who is registered at a live
  instance that subscribed to its channel and holds their socket is stored, answered as delivered
  live, published to that instance alone, and, when its subscriber reads the message, handed to
  the user's socket once, with the fields of the stored row.
\<close>

theorem create_reaches_socket:
  assumes "redis_service R" "database_service D" "websocket_service W" "ready R D w" "valid_settings cfg"
    and "counts R (caller_key client) w k" "count_of k < 2 ^ 63 - 1" "admits (api_rate_limit_requests cfg) k"
    and "\<not> seen R w (nc_notification_id body)" "\<not> stored (data D w) (nc_notification_id body)"
    and "wf_json (nc_payload body)"
    and "value_of (store R w) (registry_key (uuid_str (nc_user_id body))) = Some g"
    and "alive R w g \<noteq> None" "subscribers (store R w) (instance_channel g) = [h]"
    and "socket_of w g (uuid_str (nc_user_id body)) = Some x" "ws_up W (w_ws w) x"
    and "row = new_row (data D w) (nc_notification_id body) (nc_user_id body) (nc_type body) (nc_payload body)"
  shows "\<exists>w1 text w2.
    run (create_notification R D cfg client body) w = (Inr (response body True True), w1) \<and>
    notifications (data D w1) = notifications (data D w) @ [row\<lparr>n_delivered_live := True\<rparr>] \<and>
    deliveries (store R w1) = (deliveries (store R w))
      (h := deliveries (store R w) h @ [(instance_channel g, text)]) \<and>
    run (on_message g (deliver W g) \<lparr>pm_type = ''message'', pm_data = Text text\<rparr>) w1 = (Inr (), w2) \<and>
    frames (wires W w2) = (frames (wires W w))(x := frames (wires W w) x @ [live_frame row])"
proof -
  let ?u = "nc_user_id body"
  have "stores R D" using assms(1,2) by (rule stores.intro)
  moreover have owner: "owner_of (store R w) ?u = Some g" using assms(12,13) by (auto simp: owner_of_def)
  ultimately obtain w1 where w1: "run (create_notification R D cfg client body) w = (Inr (response body True True), w1)"
    "deliveries (store R w1) = deliveries (sent_to (Some g) (live_message ?u (w_time w) row) (store R w))"
    "notifications (data D w1) = notifications (data D w) @ [final_row (Some g) row]" "same_rest w w1"
    by (elim stores.run_create_new [OF _ assms(4-10)]) (simp add: assms(17) owner)
  have socket: "socket_of w1 g (uuid_str ?u) = Some x" "ws_up W (w_ws w1) x" "wires W w1 = wires W w"
    using w1(4) assms(15,16) by (simp_all add: same_rest_def)
  have payload: "wf_json (n_payload row)" using assms(11,17) by (simp add: new_row_def)
  let ?text = "dumps (live_message ?u (w_time w) row)"
  obtain w2 where "run (on_message g (deliver W g) \<lparr>pm_type = ''message'', pm_data = Text ?text\<rparr>) w1 = (Inr (), w2)"
    "wires W w2 = snd (doc_send x (live_frame row) (wires W w1))"
    using websocket_service.run_on_message [OF assms(3) socket(1,2) payload,
        of "\<lparr>pm_type = ''message'', pm_data = Text ?text\<rparr>" "w_time w"]
    by auto
  with w1 assms(14) socket(3) show ?thesis
    by (intro exI [of _ w1] exI [of _ ?text] exI [of _ w2])
      (auto simp: sent_to_def doc_publish_def doc_send_def final_row_def)
qed

text \<open>User 7 is connected at \<open>instance-1\<close>, which is alive and listens.\<close>

definition sample_online_world :: "(rstate, dbstate, wstate \<times> nat list) world" where
  "sample_online_world =
     snd (run (await (add ''instance-1'' (uuid_str 7) 3) (\<lambda>_.
       await (subscriber_start mem_redis ''instance-1'') (\<lambda>_.
       await (register mem_redis (uuid_str 7) ''instance-1'' 30) (\<lambda>_.
       liveness_start mem_redis ''instance-1'' 15)))) sample_world)"

lemma sample_online:
  "ready mem_redis mem_database sample_online_world" "counts mem_redis c sample_online_world None"
  "\<not> seen mem_redis sample_online_world i"
  "value_of (store mem_redis sample_online_world) (registry_key (uuid_str 7)) = Some ''instance-1''"
  "alive mem_redis sample_online_world ''instance-1'' \<noteq> None"
  "subscribers (store mem_redis sample_online_world) (instance_channel ''instance-1'') = [0]"
  "socket_of sample_online_world ''instance-1'' (uuid_str 7) = Some 3"
  "ws_up mem_websockets (w_ws sample_online_world) 3"
  "w_db sample_online_world = sample_db"
  by (simp_all add: sample_online_world_def subscriber_start_def liveness_start_def register_def mark_alive_def
      mem_redis_def doc_subscribe_def ready_def counts_def redis_docs)

theorem create_reaches_socket_witness:
  "\<exists>w1 text w2. run (create_notification mem_redis mem_database default_settings None (sample_create 105))
      sample_online_world = (Inr (response (sample_create 105) True True), w1) \<and>
    run (on_message ''instance-1'' (deliver mem_websockets ''instance-1'')
      \<lparr>pm_type = ''message'', pm_data = Text text\<rparr>) w1 = (Inr (), w2) \<and>
    frames (wires mem_websockets w2) 3 \<noteq> []"
proof -
  have "wf_json (nc_payload (sample_create 105))" "valid_settings default_settings" by simp_all
  note create_reaches_socket [OF mem.redis_service_axioms memdb.database_service_axioms memws.websocket_service_axioms
      sample_online(1) this(2) sample_online(2) _ default_admits sample_online(3) _ this(1) _
      sample_online(5,6) _ sample_online(8) HOL.refl, where client = None]
  then obtain w1 msg w2 where
    "run (create_notification mem_redis mem_database default_settings None (sample_create 105))
      sample_online_world = (Inr (response (sample_create 105) True True), w1)"
    "run (on_message ''instance-1'' (deliver mem_websockets ''instance-1'')
      \<lparr>pm_type = ''message'', pm_data = Text msg\<rparr>) w1 = (Inr (), w2)"
    "frames (wires mem_websockets w2) 3 \<noteq> []"
    using sample_online(4,7,9) by auto
  then show ?thesis by blast
qed

end
