(* ===== verification/Ownership.thy ===== *)
theory Ownership
  imports Interleaving
begin

text \<open>
  Tasks that own a part of the state. A task started with the part \<open>S\<close> (of a type \<open>'o\<close>; here: the database
  sessions it has opened) relies on what the others leave alone (\<open>rely S\<close>) and guarantees in turn what
  its own steps do (\<open>guar S s S' s'\<close>), by which it may come to own more. \<open>rg\<close> is the condition for one
  task; \<open>ownership\<close> states when such tasks can run together, and \<open>pool_keeps\<close> that then
  whatever the guarantees keep holds in every state the pool reaches.
\<close>

section \<open>Tasks that rely and guarantee\<close>

primrec rg ::
  "('o \<Rightarrow> 's \<Rightarrow> 's \<Rightarrow> bool) \<Rightarrow> ('o \<Rightarrow> 's \<Rightarrow> 'o \<Rightarrow> 's \<Rightarrow> bool) \<Rightarrow> ('s, 'a) coro \<Rightarrow>
    (exn + 'a \<Rightarrow> 'o \<Rightarrow> 's \<Rightarrow> bool) \<Rightarrow> 'o \<Rightarrow> 's \<Rightarrow> bool" where
  "rg rely guar (Return a) = (\<lambda>Q S s. Q (Inr a) S s)"
| "rg rely guar (Raise e) = (\<lambda>Q S s. Q (Inl e) S s)"
| "rg rely guar (Act f) =
     (\<lambda>Q S s. \<exists>S'. guar S s S' (snd (f s)) \<and> fst (map_prod (rg rely guar) id (f s)) Q S' (snd (f s)))"
| "rg rely guar (Await f c) =
     (\<lambda>Q S s. \<forall>s'. rely S s s' \<longrightarrow> rg rely guar c Q S s' \<and>
        (\<exists>S'. guar S s' S' (snd (f s')) \<and> fst (map_prod (rg rely guar) id (f s')) Q S' (snd (f s')) \<and>
          rg rely guar c Q S' (snd (f s'))))"

lemma rg_Act: "rg rely guar (Act f) Q S s \<longleftrightarrow> (\<exists>S'. guar S s S' (snd (f s)) \<and> rg rely guar (fst (f s)) Q S' (snd (f s)))"
  by simp

lemma rg_Await:
  "rg rely guar (Await f c) Q S s \<longleftrightarrow>
     (\<forall>s'. rely S s s' \<longrightarrow> rg rely guar c Q S s' \<and>
        (\<exists>S'. guar S s' S' (snd (f s')) \<and> rg rely guar (fst (f s')) Q S' (snd (f s')) \<and> rg rely guar c Q S' (snd (f s'))))"
  by simp

declare rg.simps(3,4) [simp del]
declare rg_Act [simp] rg_Await [simp]

lemma rg_mono:
  "rg rely guar p Q S s \<Longrightarrow> (\<And>r S' s'. Q r S' s' \<Longrightarrow> Q' r S' s') \<Longrightarrow> rg rely guar p Q' S s"
proof (induction p arbitrary: S s rule: coro_induct)
  case (Act f)
  then show ?case unfolding rg_Act by blast
next
  case (Await f c)
  then show ?case unfolding rg_Await by meson
qed simp_all

lemma rg_await [simp]:
  "rg rely guar (await p k) Q S s \<longleftrightarrow>
     rg rely guar p (\<lambda>r S' s'. case r of Inl e \<Rightarrow> Q (Inl e) S' s' | Inr a \<Rightarrow> rg rely guar (k a) Q S' s') S s"
  by (induction p arbitrary: S s rule: coro_induct) simp_all

lemma rg_try_except [simp]:
  "rg rely guar (try_except p h) Q S s \<longleftrightarrow>
     rg rely guar p (\<lambda>r S' s'. case r of
        Inl e \<Rightarrow> (case h e of None \<Rightarrow> Q (Inl e) S' s' | Some q \<Rightarrow> rg rely guar q Q S' s')
      | Inr a \<Rightarrow> Q (Inr a) S' s') S s"
  by (induction p arbitrary: S s rule: coro_induct) (simp_all split: option.splits)

lemma rg_try_finally [simp]:
  "rg rely guar (try_finally p q) Q S s \<longleftrightarrow>
     rg rely guar p (\<lambda>r S' s'. rg rely guar q (\<lambda>r' S'' s''.
        case r' of Inl e \<Rightarrow> Q (Inl e) S'' s'' | Inr _ \<Rightarrow> Q r S'' s'') S' s') S s"
  by (induction p arbitrary: S s rule: coro_induct) (simp_all split: sum.splits)

lemma rg_sync [simp]:
  "rg rely guar (sync f) Q S s \<longleftrightarrow> (\<exists>S'. guar S s S' (snd (f s)) \<and> Q (Inr (fst (f s))) S' (snd (f s)))"
  by (simp add: sync_def case_prod_unfold)

lemma rg_io [simp]:
  "rg rely guar (io e f) Q S s \<longleftrightarrow>
     (\<forall>s'. rely S s s' \<longrightarrow> Q (Inl CancelledError) S s' \<and>
        (\<exists>S'. guar S s' S' (snd (f s')) \<and> Q (case fst (f s') of None \<Rightarrow> Inl e | Some a \<Rightarrow> Inr a) S' (snd (f s')) \<and>
          Q (Inl CancelledError) S' (snd (f s'))))"
  by (simp add: io_def case_prod_unfold split: option.splits)

section \<open>Running together\<close>

locale ownership =
  fixes rely :: "'o \<Rightarrow> 's \<Rightarrow> 's \<Rightarrow> bool" and guar :: "'o \<Rightarrow> 's \<Rightarrow> 'o \<Rightarrow> 's \<Rightarrow> bool"
    and holds :: "'o \<Rightarrow> 's \<Rightarrow> bool" and apart :: "'o \<Rightarrow> 'o \<Rightarrow> bool" and nothing :: 'o
  assumes rely_refl: "holds S s \<Longrightarrow> rely S s s"
    and rely_trans: "rely S s s' \<Longrightarrow> rely S s' s'' \<Longrightarrow> rely S s s''"
    and rely_holds: "rely S s s' \<Longrightarrow> holds S s'"
    and guar_holds: "holds S s \<Longrightarrow> guar S s S' s' \<Longrightarrow> holds S' s'"
    and guar_rely: "holds S s \<Longrightarrow> guar S s S' s' \<Longrightarrow> holds T s \<Longrightarrow> apart S T \<Longrightarrow> rely T s s' \<and> apart S' T"
    and nothing_holds: "holds S s \<Longrightarrow> holds nothing s"
    and nothing_apart: "apart nothing S"
    and apart_sym: "apart S T \<Longrightarrow> apart T S"
begin

abbreviation "rgs \<equiv> rg rely guar"

text \<open>What the others see of a run of steps.\<close>

definition seen_as :: "'o \<Rightarrow> 's \<Rightarrow> 'o \<Rightarrow> 's \<Rightarrow> bool" where
  "seen_as S s S' s' \<longleftrightarrow> holds S' s' \<and> (\<forall>T. holds T s \<longrightarrow> apart S T \<longrightarrow> rely T s s' \<and> apart S' T)"

lemma seen_as_refl: "holds S s \<Longrightarrow> seen_as S s S s"
  by (simp add: seen_as_def rely_refl)

lemma seen_as_guar: "holds S s \<Longrightarrow> guar S s S' s' \<Longrightarrow> seen_as S s S' s'"
  unfolding seen_as_def using guar_holds guar_rely by blast

lemma seen_as_trans: "seen_as S s S' s' \<Longrightarrow> seen_as S' s' S'' s'' \<Longrightarrow> seen_as S s S'' s''"
  unfolding seen_as_def using rely_trans rely_holds by meson

lemma rg_settle:
  "rgs p Q S s \<Longrightarrow> holds S s \<Longrightarrow> settle p s = (p', s') \<Longrightarrow> \<exists>S'. seen_as S s S' s' \<and> rgs p' Q S' s'"
proof (induction p arbitrary: S s rule: coro_induct)
  case (Act f)
  obtain p1 s1 where f: "f s = (p1, s1)" by fastforce
  with Act.prems obtain S1 where S1: "guar S s S1 s1" "rgs p1 Q S1 s1" and "settle p1 s1 = (p', s')" by auto
  with Act.IH [of s S1 s1] f guar_holds [OF Act.prems(2) S1(1)]
  obtain S' where "seen_as S1 s1 S' s'" "rgs p' Q S' s'" by auto
  with seen_as_trans seen_as_guar [OF Act.prems(2) S1(1)] show ?case by blast
qed (auto intro: seen_as_refl)

text \<open>One awaited call that keeps the guarantee: what may come of it, and in which states; first when the task
  comes to own more by it.\<close>

lemma rg_gain:
  assumes "\<And>s'. rely S s s' \<Longrightarrow> holds S s' \<Longrightarrow> guar S s' (g s') (snd (f s'))"
    and "\<And>e s'. holds S s' \<Longrightarrow> Q (Inl e) S s'"
    and "\<And>e s'. holds S s' \<Longrightarrow> holds (g s') (snd (f s')) \<Longrightarrow> Q (Inl e) (g s') (snd (f s'))"
    and "\<And>s' a. rely S s s' \<Longrightarrow> holds S s' \<Longrightarrow> holds (g s') (snd (f s')) \<Longrightarrow> fst (f s') = Some a \<Longrightarrow> Q (Inr a) (g s') (snd (f s'))"
  shows "rgs (io e f) Q S s"
  unfolding rg_io
proof (intro allI impI conjI)
  fix s' assume s': "rely S s s'"
  then have here: "holds S s'" by (rule rely_holds)
  then show "Q (Inl CancelledError) S s'" by (rule assms(2))
  have keeps: "guar S s' (g s') (snd (f s'))" using assms(1) s' here by blast
  then have "holds (g s') (snd (f s'))" using guar_holds [OF here] by blast
  then show "\<exists>S'. guar S s' S' (snd (f s')) \<and> Q (case fst (f s') of None \<Rightarrow> Inl e | Some a \<Rightarrow> Inr a) S' (snd (f s')) \<and>
      Q (Inl CancelledError) S' (snd (f s'))"
    using assms(3,4) s' here keeps by (intro exI [of _ "g s'"]) (auto split: option.splits)
qed

lemma rg_call:
  assumes "holds S s" "\<And>s'. rely S s s' \<Longrightarrow> holds S s' \<Longrightarrow> guar S s' S (snd (f s'))"
    and "\<And>e s'. holds S s' \<Longrightarrow> Q (Inl e) S s'"
    and "\<And>s' a. rely S s s' \<Longrightarrow> holds S s' \<Longrightarrow> holds S (snd (f s')) \<Longrightarrow> fst (f s') = Some a \<Longrightarrow> Q (Inr a) S (snd (f s'))"
  shows "rgs (io e f) Q S s"
  by (rule rg_gain [where g = "\<lambda>_. S"]) (use assms in auto)

text \<open>A task that runs alone.\<close>

lemma rg_run:
  "rgs p Q S s \<Longrightarrow> holds S s \<Longrightarrow> \<exists>S'. seen_as S s S' (snd (run p s)) \<and> Q (fst (run p s)) S' (snd (run p s))"
proof (induction p arbitrary: S s rule: coro_induct)
  case (Act f)
  obtain p1 s1 where f: "f s = (p1, s1)" by fastforce
  with Act.prems obtain S1 where S1: "guar S s S1 s1" "rgs p1 Q S1 s1" by auto
  with Act.IH [of s S1 s1] f guar_holds [OF Act.prems(2) S1(1)] seen_as_guar [OF Act.prems(2) S1(1)]
  show ?case using seen_as_trans by fastforce
next
  case (Await f c)
  obtain p1 s1 where f: "f s = (p1, s1)" by fastforce
  with Await.prems rely_refl obtain S1 where S1: "guar S s S1 s1" "rgs p1 Q S1 s1" by fastforce
  with Await.IH(1) [of s S1 s1] f guar_holds [OF Await.prems(2) S1(1)] seen_as_guar [OF Await.prems(2) S1(1)]
  show ?case using seen_as_trans by fastforce
qed (auto intro: seen_as_refl)

lemma rg_stable: "rgs (Await f c) Q S s \<Longrightarrow> rely S s s' \<Longrightarrow> rgs (Await f c) Q S s'"
  using rely_trans by (simp only: rg_Await) blast

text \<open>Each task of the pool owns a part, all parts are apart, and every waiting task is as it should be.\<close>

definition waits :: "('s, 'a) coro \<Rightarrow> 'o \<Rightarrow> 's \<Rightarrow> bool" where
  "waits p S s \<longleftrightarrow> holds S s \<and> (\<forall>f c. p = Await f c \<longrightarrow> rgs p (\<lambda>_ _ _. True) S s)"

definition pool_ok :: "('s, 'a) coro list \<Rightarrow> 's \<Rightarrow> bool" where
  "pool_ok ps s \<longleftrightarrow> holds nothing s \<and>
     (\<exists>Ss. length Ss = length ps \<and> (\<forall>i<length ps. waits (ps ! i) (Ss ! i) s) \<and>
        (\<forall>i<length ps. \<forall>j<length ps. i \<noteq> j \<longrightarrow> apart (Ss ! i) (Ss ! j)))"

lemma waitsI: "holds S s \<Longrightarrow> rgs p (\<lambda>_ _ _. True) S s \<Longrightarrow> waits p S s"
  unfolding waits_def by blast

lemma waits_others: "waits p T s \<Longrightarrow> seen_as S s S' s' \<Longrightarrow> apart S T \<Longrightarrow> waits p T s' \<and> apart S' T"
  unfolding waits_def seen_as_def using rg_stable rely_holds by metis

lemma pool_update:
  assumes "n < length ps" "length Ss = length ps" "\<forall>i<length ps. waits (ps ! i) (Ss ! i) s"
    "\<forall>i<length ps. \<forall>j<length ps. i \<noteq> j \<longrightarrow> apart (Ss ! i) (Ss ! j)"
    "seen_as (Ss ! n) s S' s'" "rgs p' (\<lambda>_ _ _. True) S' s'"
  shows "pool_ok (ps[n := p']) s'"
proof -
  have here: "holds S' s'" "waits p' S' s'" using assms(5,6) by (auto simp: seen_as_def intro: waitsI)
  have "waits (ps ! i) (Ss ! i) s' \<and> apart S' (Ss ! i)" if "i < length ps" "i \<noteq> n" for i
    using waits_others [OF _ assms(5)] assms(1,3,4) that by metis
  with here assms(1,2,4) apart_sym nothing_holds show ?thesis
    unfolding pool_ok_def by (intro conjI exI [of _ "Ss[n := S']"]) (auto simp: nth_list_update)
qed

lemma pool_start:
  assumes "pool_ok ps s" "seen_as nothing s S' s'" "rgs p' (\<lambda>_ _ _. True) S' s'"
  shows "pool_ok (p' # ps) s'"
proof -
  obtain Ss where Ss: "length Ss = length ps" "\<forall>i<length ps. waits (ps ! i) (Ss ! i) s"
    "\<forall>i<length ps. \<forall>j<length ps. i \<noteq> j \<longrightarrow> apart (Ss ! i) (Ss ! j)"
    using assms(1) by (auto simp: pool_ok_def)
  have here: "holds S' s'" "waits p' S' s'" using assms(2,3) by (auto simp: seen_as_def intro: waitsI)
  have "waits (ps ! i) (Ss ! i) s' \<and> apart S' (Ss ! i)" if "i < length ps" for i
    using waits_others [OF _ assms(2)] nothing_apart Ss(2) that by metis
  with here Ss apart_sym nothing_holds show ?thesis
    unfolding pool_ok_def by (intro conjI exI [of _ "S' # Ss"]) (auto simp: nth_Cons split: nat.splits)
qed

text \<open>Any step of the pool.\<close>

lemma pool_step_ok:
  assumes "pool_step P (ps, s) (ps', s')" "pool_ok ps s"
    "\<And>p s. p \<in> P \<Longrightarrow> holds nothing s \<Longrightarrow> rgs p (\<lambda>_ _ _. True) nothing s"
  shows "pool_ok ps' s'"
proof -
  obtain Ss where Ss: "length Ss = length ps" "\<forall>i<length ps. waits (ps ! i) (Ss ! i) s"
    "\<forall>i<length ps. \<forall>j<length ps. i \<noteq> j \<longrightarrow> apart (Ss ! i) (Ss ! j)" and none: "holds nothing s"
    using assms(2) by (auto simp: pool_ok_def)
  have waiting: "holds (Ss ! n) s \<and> rgs c (\<lambda>_ _ _. True) (Ss ! n) s \<and>
      (\<exists>S1. guar (Ss ! n) s S1 s1 \<and> rgs p (\<lambda>_ _ _. True) S1 s1 \<and> rgs c (\<lambda>_ _ _. True) S1 s1)"
    if "n < length ps" "ps ! n = Await f c" "f s = (p, s1)" for n f c p s1
  proof -
    have "holds (Ss ! n) s" "rgs (Await f c) (\<lambda>_ _ _. True) (Ss ! n) s"
      using Ss(2) that(1,2) by (auto simp: waits_def)
    then show ?thesis using rely_refl that(3) by fastforce
  qed
  have goes: "\<exists>S'. seen_as (Ss ! n) s S' s' \<and> rgs p' (\<lambda>_ _ _. True) S' s'"
    if "holds (Ss ! n) s" "guar (Ss ! n) s S1 s1" "rgs q (\<lambda>_ _ _. True) S1 s1" "settle q s1 = (p', s')" for n S1 s1 q p'
    using rg_settle [OF that(3) guar_holds [OF that(1,2)] that(4)] seen_as_guar [OF that(1,2)] seen_as_trans by blast
  show ?thesis
    using assms(1)
  proof cases
    case (start p p')
    then obtain S' where "seen_as nothing s S' s'" "rgs p' (\<lambda>_ _ _. True) S' s'"
      using rg_settle [OF assms(3) none] none by blast
    with pool_start [OF assms(2)] start(1) show ?thesis by blast
  next
    case (resume n f c p s1 p')
    with waiting goes pool_update [OF _ Ss] show ?thesis by metis
  next
    case (cancel_late n f c p s1 p')
    with waiting goes pool_update [OF _ Ss] show ?thesis by metis
  next
    case (cancel n f c p')
    from waiting [OF cancel(2,3) prod.collapse [symmetric]] rg_settle [OF _ _ cancel(4)]
    have "\<exists>S'. seen_as (Ss ! n) s S' s' \<and> rgs p' (\<lambda>_ _ _. True) S' s'" by blast
    with pool_update [OF cancel(2) Ss] cancel(1) show ?thesis by blast
  qed
qed

lemma pool_keeps:
  assumes "reachable P s0 (ps, s)" "holds nothing s0"
    "\<And>p s. p \<in> P \<Longrightarrow> holds nothing s \<Longrightarrow> rgs p (\<lambda>_ _ _. True) nothing s"
  shows "holds nothing s"
proof -
  have "pool_ok (fst c) (snd c)" if "reachable P s0 c" for c
    using that
  proof induction
    case initial
    then show ?case using assms(2) by (simp add: pool_ok_def)
  next
    case (further c c')
    then show ?case using pool_step_ok [OF _ _ assms(3), of P "fst c" "snd c" "fst c'" "snd c'"] by simp
  qed
  from this [OF assms(1)] show ?thesis by (simp add: pool_ok_def)
qed

end

section \<open>Owning sessions\<close>

text \<open>
  Tasks that own a set of things, sessions above all, and never give one up. \<open>behaves A p\<close>: started with at
  least \<open>A\<close>, the task \<open>p\<close> keeps its guarantees and, when it ends, still owns all it had; \<open>stays p\<close>: it ends with just
  what it had.
\<close>

named_theorems behaves_rules \<open>tasks that keep their guarantees\<close>
named_theorems stays_rules \<open>tasks that come to own nothing more\<close>

locale sessions = ownership rely guar holds apart nothing
  for rely :: "'x set \<Rightarrow> 's \<Rightarrow> 's \<Rightarrow> bool" and guar :: "'x set \<Rightarrow> 's \<Rightarrow> 'x set \<Rightarrow> 's \<Rightarrow> bool"
    and holds :: "'x set \<Rightarrow> 's \<Rightarrow> bool" and apart nothing +
  assumes guar_grows: "guar S s S' s' \<Longrightarrow> S \<subseteq> S'"
    and guar_refl: "holds S s \<Longrightarrow> guar S s S s"
begin

definition behaves :: "'x set \<Rightarrow> ('s, 'a) coro \<Rightarrow> bool" where
  "behaves A p \<longleftrightarrow> (\<forall>S s. holds S s \<longrightarrow> A \<subseteq> S \<longrightarrow> rgs p (\<lambda>_ S' s'. holds S' s' \<and> S \<subseteq> S') S s)"

lemma behavesD: "behaves A p \<Longrightarrow> holds S s \<Longrightarrow> A \<subseteq> S \<Longrightarrow> rgs p (\<lambda>_ S' s'. holds S' s' \<and> S \<subseteq> S') S s"
  by (simp add: behaves_def)

text \<open>A task, and then whatever its outcome allows.\<close>

lemma behaves_then:
  assumes "behaves A p" "holds S s" "A \<subseteq> S" "\<And>r S' s'. holds S' s' \<Longrightarrow> S \<subseteq> S' \<Longrightarrow> Q r S' s'"
  shows "rgs p Q S s"
  by (rule rg_mono [OF behavesD [OF assms(1-3)]]) (use assms(4) in blast)

text \<open>Two in a row.\<close>

lemma behaves_next:
  assumes "behaves A q" "holds S' s'" "A \<subseteq> S" "S \<subseteq> S'"
  shows "rgs q (\<lambda>_ S'' s''. holds S'' s'' \<and> S \<subseteq> S'') S' s'"
proof -
  have "A \<subseteq> S'" using assms(3,4) by (rule order_trans)
  with assms(1,2) show ?thesis by (rule behaves_then) (use assms(4) in auto)
qed

lemma behaves_Return [behaves_rules]: "behaves A (Return a)"
  by (simp add: behaves_def)

lemma behaves_Raise [behaves_rules]: "behaves A (Raise e)"
  by (simp add: behaves_def)

lemma behaves_after:
  assumes "rgs p (\<lambda>_ S' s'. holds S' s' \<and> S \<subseteq> S') T s" "A \<subseteq> S" "\<And>a. behaves A (k a)"
  shows "rgs (await p k) (\<lambda>_ S' s'. holds S' s' \<and> S \<subseteq> S') T s"
  unfolding rg_await
  by (rule rg_mono [OF assms(1)]) (auto split: sum.splits intro: behaves_next [OF assms(3) _ assms(2)])

lemma behaves_await [behaves_rules]:
  "behaves A p \<Longrightarrow> (\<And>a. behaves A (k a)) \<Longrightarrow> behaves A (await p k)"
  unfolding behaves_def [of A "await p k"] by (blast intro: behaves_after behavesD)

lemma behaves_try_except [behaves_rules]:
  assumes "behaves A p" "\<And>e q. h e = Some q \<Longrightarrow> behaves A q"
  shows "behaves A (try_except p h)"
  unfolding behaves_def rg_try_except
proof (intro allI impI)
  fix S s assume "holds S s" "A \<subseteq> S"
  with assms(1) show "rgs p (\<lambda>r S' s'. case r of
      Inl e \<Rightarrow> (case h e of None \<Rightarrow> holds S' s' \<and> S \<subseteq> S'
        | Some q \<Rightarrow> rgs q (\<lambda>_ S'' s''. holds S'' s'' \<and> S \<subseteq> S'') S' s')
    | Inr a \<Rightarrow> holds S' s' \<and> S \<subseteq> S') S s"
    by (rule behaves_then) (auto split: sum.splits option.splits intro: behaves_next [OF assms(2) _ \<open>A \<subseteq> S\<close>])
qed

lemma behaves_try_finally [behaves_rules]:
  assumes "behaves A p" "behaves A q"
  shows "behaves A (try_finally p q)"
  unfolding behaves_def rg_try_finally
proof (intro allI impI)
  fix S s assume "holds S s" "A \<subseteq> S"
  with assms(1) show "rgs p (\<lambda>r S' s'. rgs q (\<lambda>r' S'' s''. case r' of
      Inl e \<Rightarrow> holds S'' s'' \<and> S \<subseteq> S'' | Inr _ \<Rightarrow> holds S'' s'' \<and> S \<subseteq> S'') S' s') S s"
  proof (rule behaves_then)
    fix r S' s' assume "holds S' s'" "S \<subseteq> S'"
    from behaves_next [OF assms(2) this(1) \<open>A \<subseteq> S\<close> this(2)]
    show "rgs q (\<lambda>r' S'' s''. case r' of Inl e \<Rightarrow> holds S'' s'' \<and> S \<subseteq> S'' | Inr _ \<Rightarrow> holds S'' s'' \<and> S \<subseteq> S'') S' s'"
      by (rule rg_mono) (auto split: sum.splits)
  qed
qed

lemma behaves_option [behaves_rules]:
  "(x = None \<Longrightarrow> behaves A p) \<Longrightarrow> (\<And>a. x = Some a \<Longrightarrow> behaves A (q a)) \<Longrightarrow>
     behaves A (case x of None \<Rightarrow> p | Some a \<Rightarrow> q a)"
  by (cases x) simp_all

lemma behaves_if [behaves_rules]:
  "(b \<Longrightarrow> behaves A p) \<Longrightarrow> (\<not> b \<Longrightarrow> behaves A q) \<Longrightarrow> behaves A (if b then p else q)"
  by simp

lemma behaves_sync:
  assumes "\<And>S s. holds S s \<Longrightarrow> A \<subseteq> S \<Longrightarrow> guar S s S (snd (f s))"
  shows "behaves A (sync f)"
  unfolding behaves_def rg_sync using assms guar_holds by (metis order_refl)

lemma behaves_io:
  assumes "\<And>S s. holds S s \<Longrightarrow> A \<subseteq> S \<Longrightarrow> guar S s S (snd (f s))"
  shows "behaves A (io e f)"
  unfolding behaves_def rg_io using assms guar_holds rely_holds by (metis order_refl)

lemma behaves_gain:
  assumes "\<And>S s. holds S s \<Longrightarrow> A \<subseteq> S \<Longrightarrow> guar S s (g S s) (snd (f s))"
  shows "behaves A (io e f)"
  unfolding behaves_def
proof (intro allI impI)
  fix S s assume A: "A \<subseteq> S"
  have "S \<subseteq> g S s'" if "holds S s'" for s' using assms [OF that A] by (rule guar_grows)
  then show "rgs (io e f) (\<lambda>_ S' s'. holds S' s' \<and> S \<subseteq> S') S s"
    using assms [OF _ A] by (intro rg_gain [where g = "g S"]) auto
qed

lemma behaves_read [behaves_rules]: "behaves A (read_state q)"
  by (rule behaves_sync) (simp add: guar_refl)

lemma behaves_suspend [behaves_rules]: "behaves A suspend"
  unfolding suspend_def by (rule behaves_io) (simp add: guar_refl)

text \<open>Tasks that come to own nothing more.\<close>

definition stays :: "('s, 'a) coro \<Rightarrow> bool" where
  "stays p \<longleftrightarrow> (\<forall>S s. holds S s \<longrightarrow> rgs p (\<lambda>_ S' s'. holds S' s' \<and> S' = S) S s)"

lemma staysD: "stays p \<Longrightarrow> holds S s \<Longrightarrow> rgs p (\<lambda>_ S' s'. holds S' s' \<and> S' = S) S s"
  by (simp add: stays_def)

lemma stays_Return [stays_rules]: "stays (Return a)"
  by (simp add: stays_def)

lemma stays_await [stays_rules]:
  assumes "stays p" "\<And>a. stays (k a)"
  shows "stays (await p k)"
  unfolding stays_def rg_await
  by (intro allI impI) (rule rg_mono [OF staysD [OF assms(1)]], auto split: sum.splits intro: staysD [OF assms(2)])

lemma stays_option [stays_rules]:
  "(x = None \<Longrightarrow> stays p) \<Longrightarrow> (\<And>a. x = Some a \<Longrightarrow> stays (q a)) \<Longrightarrow> stays (case x of None \<Rightarrow> p | Some a \<Rightarrow> q a)"
  by (cases x) simp_all

lemma stays_if [stays_rules]: "(b \<Longrightarrow> stays p) \<Longrightarrow> (\<not> b \<Longrightarrow> stays q) \<Longrightarrow> stays (if b then p else q)"
  by simp

lemma stays_sync:
  assumes "\<And>S s. holds S s \<Longrightarrow> guar S s S (snd (f s))"
  shows "stays (sync f)"
  unfolding stays_def rg_sync using assms guar_holds by metis

lemma stays_read [stays_rules]: "stays (read_state q)"
  by (rule stays_sync) (simp add: guar_refl)

lemma stays_io:
  assumes "\<And>S s. holds S s \<Longrightarrow> guar S s S (snd (f s))"
  shows "stays (io e f)"
  unfolding stays_def rg_io using assms guar_holds rely_holds by metis

text \<open>What such tasks do together.\<close>

lemma behaving_pool:
  assumes "reachable P s0 (ps, s)" "holds nothing s0" "\<And>p. p \<in> P \<Longrightarrow> behaves {} p"
  shows "holds nothing s"
  using assms(1,2) by (rule pool_keeps) (rule rg_mono [OF behavesD [OF assms(3)]]; simp)

end

section \<open>Tasks that own nothing\<close>

text \<open>Relations that hold across every step are the case where nothing is owned.\<close>

lemma rg_safe:
  "rg (\<lambda>_. rel) (\<lambda>S s S' s'. rel s s' \<and> S \<subseteq> S') p Q S s \<Longrightarrow> (\<And>r S' s'. Q r S' s' \<Longrightarrow> Q' r s') \<Longrightarrow> safe rel p Q' s"
proof (induction p arbitrary: S s rule: coro_induct)
  case (Act f)
  then show ?case unfolding rg_Act safe_Act by blast
next
  case (Await f c)
  then show ?case unfolding rg_Await safe_Await by meson
qed simp_all

lemma steps_sessions:
  "steps rel \<Longrightarrow> sessions (\<lambda>_. rel) (\<lambda>S s S' s'. rel s s' \<and> S \<subseteq> S') (\<lambda>_ _. True) (\<lambda>_ _. True) {}"
  unfolding steps_def by unfold_locales auto

lemma behaves_obeys:
  assumes "sessions.behaves (\<lambda>_. rel) (\<lambda>S s S' s'. rel s s' \<and> S \<subseteq> S') (\<lambda>_ _. True) {} p" "steps rel"
  shows "obeys rel p"
  unfolding obeys_def
  by (intro allI rg_safe [OF sessions.behavesD [OF steps_sessions [OF assms(2)] assms(1)]]) simp_all

end
