(* ===== verification/Platform.thy ===== *)
theory Platform
  imports Ticket_Auth Notifications_Api Ownership
begin

text \<open>
  The three services together, and what can be said of every task at once: a relation between
  worlds that holds across each single call and each update of a process's memory holds across
  every step of every task of the program. Four such relations are used later: the tables stay in
  order and rows are permanent; Redis stays up; the processes count their sockets; what was sent on a
  socket stays sent.
\<close>

section \<open>Tasks that own their sessions\<close>

text \<open>
  What a step of the program needs so that the tasks keep their guarantees. A session is used by the task
  that opened it only. Users are \<open>user_ok\<close>, instants \<open>time_ok\<close>; \<open>claims w sid n\<close>: the session would commit
  the notification \<open>n\<close>; \<open>confirmed w n\<close>: it is committed; \<open>marked_by w sid n u\<close>: the session has marked the row of
  \<open>n\<close>, which is \<open>u\<close>'s, as read.
\<close>

locale effects = sessions rely guar holds apart nothing
  for rely :: "'x set \<Rightarrow> ('r, 'd, 'w) world \<Rightarrow> ('r, 'd, 'w) world \<Rightarrow> bool"
    and guar :: "'x set \<Rightarrow> ('r, 'd, 'w) world \<Rightarrow> 'x set \<Rightarrow> ('r, 'd, 'w) world \<Rightarrow> bool"
    and holds :: "'x set \<Rightarrow> ('r, 'd, 'w) world \<Rightarrow> bool" and apart nothing +
  fixes sess :: "nat \<Rightarrow> 'x"
    and after_commit :: "'x set \<Rightarrow> ('r, 'd, 'w) world \<Rightarrow> nat \<Rightarrow> 'x set" and after_send :: "'x set \<Rightarrow> uuid \<Rightarrow> 'x set"
    and may_send :: "'x set \<Rightarrow> uuid \<Rightarrow> bool" and adding :: "('r, 'd, 'w) world \<Rightarrow> nat \<Rightarrow> uuid \<Rightarrow> bool"
    and marked_by :: "('r, 'd, 'w) world \<Rightarrow> nat \<Rightarrow> uuid \<Rightarrow> uuid \<Rightarrow> bool"
    and R :: "'r redis" and D :: "'d database" and W :: "'w websockets"
    and user_ok :: "string \<Rightarrow> bool" and time_ok :: "datetime \<Rightarrow> bool"
    and claims :: "('r, 'd, 'w) world \<Rightarrow> nat \<Rightarrow> uuid \<Rightarrow> bool" and confirmed :: "('r, 'd, 'w) world \<Rightarrow> uuid \<Rightarrow> bool"
  assumes set_registry: "holds S w \<Longrightarrow> guar S w S (w\<lparr>w_redis := snd (rd_set R (registry_key u) v t (w_redis w))\<rparr>)"
    and set_liveness: "holds S w \<Longrightarrow> guar S w S (w\<lparr>w_redis := snd (rd_set R (liveness_key inst) v t (w_redis w))\<rparr>)"
    and set_presence: "holds S w \<Longrightarrow> user_ok u \<Longrightarrow> v = ''online'' \<or> v = ''away'' \<Longrightarrow>
      guar S w S (w\<lparr>w_redis := snd (rd_set R (presence_key u) v (Some ttl) (w_redis w))\<rparr>)"
    and set_last_seen: "holds S w \<Longrightarrow> user_ok u \<Longrightarrow> time_ok tm \<Longrightarrow>
      guar S w S (w\<lparr>w_redis := snd (rd_set R (last_seen_key u) (isoformat tm) None (w_redis w))\<rparr>)"
    and set_ticket: "holds S w \<Longrightarrow> user_ok u \<Longrightarrow>
      guar S w S (w\<lparr>w_redis := snd (rd_set R (ticket_key k) u t (w_redis w))\<rparr>)"
    and set_dedup: "holds S w \<Longrightarrow> confirmed w i \<Longrightarrow>
      guar S w S (w\<lparr>w_redis := snd (rd_set R (dedup_key i) v t (w_redis w))\<rparr>)"
    and redis_get: "holds S w \<Longrightarrow> guar S w S (w\<lparr>w_redis := snd (rd_get R k (w_redis w))\<rparr>)"
    and redis_getdel: "holds S w \<Longrightarrow> guar S w S (w\<lparr>w_redis := snd (rd_getdel R k (w_redis w))\<rparr>)"
    and redis_delete: "holds S w \<Longrightarrow> guar S w S (w\<lparr>w_redis := snd (rd_delete R k (w_redis w))\<rparr>)"
    and expire_registry: "holds S w \<Longrightarrow> guar S w S (w\<lparr>w_redis := snd (rd_expire R (registry_key u) e (w_redis w))\<rparr>)"
    and expire_presence: "holds S w \<Longrightarrow> user_ok u \<Longrightarrow>
      guar S w S (w\<lparr>w_redis := snd (rd_expire R (presence_key u) e (w_redis w))\<rparr>)"
    and redis_exists: "holds S w \<Longrightarrow> guar S w S (w\<lparr>w_redis := snd (rd_exists R k (w_redis w))\<rparr>)"
    and redis_eval: "holds S w \<Longrightarrow>
      guar S w S (w\<lparr>w_redis := snd (rd_eval R (token_bucket_script (rate_limit_key c) lim window) (w_redis w))\<rparr>)"
    and redis_publish: "holds S w \<Longrightarrow> may_send S (n_notification_id row) \<Longrightarrow>
      guar S w (after_send S (n_notification_id row)) (w\<lparr>w_redis := snd (rd_publish R k (dumps (live_message to_user now row)) (w_redis w))\<rparr>)"
    and redis_subscribe: "holds S w \<Longrightarrow> guar S w S (w\<lparr>w_redis := snd (rd_subscribe R h k (w_redis w))\<rparr>)"
    and redis_close: "holds S w \<Longrightarrow> guar S w S (w\<lparr>w_redis := snd (rd_close R h (w_redis w))\<rparr>)"
    and redis_ping: "holds S w \<Longrightarrow> guar S w S (w\<lparr>w_redis := snd (rd_ping R (w_redis w))\<rparr>)"
    and time_passes: "holds S w \<Longrightarrow> guar S w S (elapse R ms w)"
    and db_insert: "holds S w \<Longrightarrow> sess sid \<in> S \<Longrightarrow> acceptable ty pl \<Longrightarrow>
      guar S w S (w\<lparr>w_db := snd (db_insert_notification D sid i owner ty pl (w_db w))\<rparr>)"
    and db_update: "holds S w \<Longrightarrow> sess sid \<in> S \<Longrightarrow> guar S w S (w\<lparr>w_db := snd (db_update_notifications D sid cs a (w_db w))\<rparr>)"
    and db_select: "holds S w \<Longrightarrow> sess sid \<in> S \<Longrightarrow>
      guar S w S (w\<lparr>w_db := snd (db_select_notifications D sid cs ord lim (w_db w))\<rparr>)"
    and db_receipt: "holds S w \<Longrightarrow> sess sid \<in> S \<Longrightarrow> marked_by w sid i owner \<Longrightarrow> guar S w S (w\<lparr>w_db := snd (db_insert_receipt D sid i owner rt (w_db w))\<rparr>)"
    and db_receipts: "holds S w \<Longrightarrow> sess sid \<in> S \<Longrightarrow> guar S w S (w\<lparr>w_db := snd (db_select_receipts D sid i (w_db w))\<rparr>)"
    and db_one: "holds S w \<Longrightarrow> sess sid \<in> S \<Longrightarrow> guar S w S (w\<lparr>w_db := snd (db_select_one D sid (w_db w))\<rparr>)"
    and db_commits: "holds S w \<Longrightarrow> sess sid \<in> S \<Longrightarrow> guar S w (after_commit S w sid) (w\<lparr>w_db := snd (db_commit D sid (w_db w))\<rparr>)"
    and db_closes: "holds S w \<Longrightarrow> sess sid \<in> S \<Longrightarrow> guar S w S (w\<lparr>w_db := snd (db_close D sid (w_db w))\<rparr>)"
    and db_disposes: "holds S w \<Longrightarrow> guar S w S (w\<lparr>w_db := snd (db_dispose D eng (w_db w))\<rparr>)"
    and ws_accepts: "holds S w \<Longrightarrow> guar S w S (w\<lparr>w_ws := snd (ws_accept W x (w_ws w))\<rparr>)"
    and ws_closes: "holds S w \<Longrightarrow> guar S w S (w\<lparr>w_ws := snd (ws_close W x code reason (w_ws w))\<rparr>)"
    and ws_sends: "holds S w \<Longrightarrow> guar S w S (w\<lparr>w_ws := snd (ws_send_json W x j (w_ws w))\<rparr>)"
    and memory: "holds S w \<Longrightarrow> keeps_process f \<Longrightarrow> guar S w S (upd_gateway g f w)"
    and numbering: "holds S w \<Longrightarrow> guar S w S (w\<lparr>w_fresh := Suc (w_fresh w)\<rparr>)"
    and session_opens: "holds S w \<Longrightarrow> guar S w (insert (sess (w_fresh w)) S) (w\<lparr>w_fresh := Suc (w_fresh w)\<rparr>)"
    and drawing: "holds S w \<Longrightarrow> guar S w S (w\<lparr>w_draws := n\<rparr>)"
    and now_ok: "holds S w \<Longrightarrow> time_ok (w_now w)"
    and user_id_ok: "is_user_id u \<Longrightarrow> user_ok u"
    and ticket_ok: "holds S w \<Longrightarrow> fst (rd_getdel R (ticket_key k) (w_redis w)) = Some (Some u) \<Longrightarrow> user_ok u"
    and insert_claims: "holds S w \<Longrightarrow> sess sid \<in> S \<Longrightarrow> fst (db_insert_notification D sid i owner ty pl (w_db w)) \<noteq> None \<Longrightarrow>
      claims (w\<lparr>w_db := snd (db_insert_notification D sid i owner ty pl (w_db w))\<rparr>) sid i"
    and claims_stable: "claims w sid i \<Longrightarrow> sess sid \<in> S \<Longrightarrow> rely S w w' \<Longrightarrow> claims w' sid i"
    and commit_confirms: "holds S w \<Longrightarrow> sess sid \<in> S \<Longrightarrow> claims w sid i \<Longrightarrow> fst (db_commit D sid (w_db w)) \<noteq> None \<Longrightarrow>
      confirmed (w\<lparr>w_db := snd (db_commit D sid (w_db w))\<rparr>) i"
    and insert_adds: "holds S w \<Longrightarrow> sess sid \<in> S \<Longrightarrow>
      fst (db_insert_notification D sid i owner ty pl (w_db w)) = Some (Some row) \<Longrightarrow>
      n_notification_id row = i \<and> adding (w\<lparr>w_db := snd (db_insert_notification D sid i owner ty pl (w_db w))\<rparr>) sid i"
    and adding_stable: "adding w sid i \<Longrightarrow> sess sid \<in> S \<Longrightarrow> rely S w w' \<Longrightarrow> adding w' sid i"
    and commit_sends: "holds S w \<Longrightarrow> sess sid \<in> S \<Longrightarrow> adding w sid i \<Longrightarrow> fst (db_commit D sid (w_db w)) \<noteq> None \<Longrightarrow>
      may_send (after_commit S w sid) i"
    and confirmed_stable: "confirmed w i \<Longrightarrow> rely S w w' \<Longrightarrow> confirmed w' i"
    and update_marks: "holds S w \<Longrightarrow> sess sid \<in> S \<Longrightarrow>
      fst (db_update_notifications D sid [NotificationIdIs i, UserIdIs owner] (SetReadAt rt) (w_db w)) = Some found \<Longrightarrow> found \<noteq> 0 \<Longrightarrow>
      marked_by (w\<lparr>w_db := snd (db_update_notifications D sid [NotificationIdIs i, UserIdIs owner] (SetReadAt rt) (w_db w))\<rparr>) sid i owner"
    and marked_stable: "marked_by w sid i owner \<Longrightarrow> sess sid \<in> S \<Longrightarrow> rely S w w' \<Longrightarrow> marked_by w' sid i owner"
begin

lemma behaves_redis: "(\<And>S w. holds S w \<Longrightarrow> guar S w S (w\<lparr>w_redis := snd (f (w_redis w))\<rparr>)) \<Longrightarrow> behaves A (redis_io f)"
  unfolding redis_io_def by (rule behaves_io) simp

lemma behaves_db:
  "(\<And>S w. holds S w \<Longrightarrow> A \<subseteq> S \<Longrightarrow> guar S w S (w\<lparr>w_db := snd (f (w_db w))\<rparr>)) \<Longrightarrow> behaves A (db_io f)"
  unfolding db_io_def by (rule behaves_io) simp

lemma behaves_ws: "(\<And>S w. holds S w \<Longrightarrow> guar S w S (w\<lparr>w_ws := snd (f (w_ws w))\<rparr>)) \<Longrightarrow> behaves A (ws_io f)"
  unfolding ws_io_def by (rule behaves_io) simp

lemma behaves_calls [intro]:
  "behaves A (redis_io (rd_set R (registry_key u) v t))" "behaves A (redis_io (rd_set R (liveness_key i) v t))"
  "user_ok u \<Longrightarrow> behaves A (redis_io (rd_set R (presence_key u) ''online'' (Some e)))"
  "user_ok u \<Longrightarrow> behaves A (redis_io (rd_set R (presence_key u) ''away'' (Some e)))"
  "user_ok u \<Longrightarrow> time_ok d \<Longrightarrow> behaves A (redis_io (rd_set R (last_seen_key u) (isoformat d) None))"
  "user_ok u \<Longrightarrow> behaves A (redis_io (rd_set R (ticket_key k) u t))"
  "behaves A (redis_io (rd_get R k))" "behaves A (redis_io (rd_getdel R k))" "behaves A (redis_io (rd_delete R k))"
  "behaves A (redis_io (rd_expire R (registry_key u) e))" "user_ok u \<Longrightarrow> behaves A (redis_io (rd_expire R (presence_key u) e))"
  "behaves A (redis_io (rd_exists R k))"
  "behaves A (redis_io (rd_eval R (token_bucket_script (rate_limit_key conn) limit window)))"
  "behaves A (redis_io (rd_subscribe R h k))"
  "behaves A (redis_io (rd_close R h))" "behaves A (redis_io (rd_ping R))"
  "behaves A (ws_io (ws_accept W x))" "behaves A (ws_io (ws_close W x c m))" "behaves A (ws_io (ws_send_json W x j))"
  by (rule behaves_redis behaves_ws; blast intro: set_registry set_liveness set_presence set_last_seen set_ticket
      redis_get redis_getdel redis_delete expire_registry expire_presence redis_exists redis_eval redis_subscribe
      redis_close redis_ping ws_accepts ws_closes ws_sends)+

lemma behaves_statements [intro]:
  assumes "sess sid \<in> A"
  shows "acceptable ty pl \<Longrightarrow> behaves A (db_io (db_insert_notification D sid i u ty pl))"
    "behaves A (db_io (db_update_notifications D sid cs a))"
    "behaves A (db_io (db_select_notifications D sid cs ord lim))"
    "behaves A (db_io (db_select_receipts D sid i))"
    "behaves A (db_io (db_select_one D sid))" "behaves A (db_io (db_close D sid))"
  by (rule behaves_db; use assms in \<open>blast intro: db_insert db_update db_select db_receipts db_one db_closes\<close>)+

lemma behaves_commit [intro]:
  assumes "sess sid \<in> A"
  shows "behaves A (db_io (db_commit D sid))"
  unfolding db_io_def
  by (rule behaves_gain [where g = "\<lambda>S w. after_commit S w sid"]) (use assms db_commits in auto)

lemma behaves_dispose [intro]: "behaves A (db_io (db_dispose D n))"
  by (rule behaves_db) (rule db_disposes)

lemma behaves_memory [intro]:
  "keeps_process h \<Longrightarrow> behaves A (in_gateway i h)" "behaves A (log_line i ev)" "behaves A fresh" "behaves A token_urlsafe"
  "behaves A (add i u s)" "behaves A (remove i u)" "behaves A (get i u)" "behaves A (connected_user_ids i)"
  "behaves A (active_connection_count i)" "behaves A (pop_connection i u)"
  by (auto simp: in_gateway_def log_line_def fresh_def token_urlsafe_def add_def remove_def get_def
      connected_user_ids_def active_connection_count_def pop_connection_def
      intro!: behaves_sync memory numbering drawing guar_refl)

lemma behaves_sleep [intro]: "behaves A (sleep R n)"
proof -
  have "(sleep R n :: ('r, 'd, 'w, unit) task) = io CancelledError (\<lambda>w. (Some (), elapse R (1000 * nat n) w))"
    by (simp add: sleep_def io_def)
  then show ?thesis by (simp add: behaves_io time_passes)
qed

lemmas app_rules = behaves_rules behaves_calls behaves_statements behaves_commit behaves_dispose behaves_memory behaves_sleep

text \<open>A session, from its opening to its end.\<close>

lemma behaves_fresh:
  assumes "\<And>sid. behaves (insert (sess sid) A) (k sid)"
  shows "behaves A (await fresh k)"
  unfolding behaves_def
proof (intro allI impI)
  fix S w assume w: "holds S w" "A \<subseteq> S"
  let ?S = "insert (sess (w_fresh w)) S" and ?w = "w\<lparr>w_fresh := Suc (w_fresh w)\<rparr>"
  have opens: "guar S w ?S ?w" using w(1) by (rule session_opens)
  have "insert (sess (w_fresh w)) A \<subseteq> ?S" using w(2) by (rule insert_mono)
  with assms guar_holds [OF w(1) opens] have "rgs (k (w_fresh w)) (\<lambda>_ S' s'. holds S' s' \<and> S \<subseteq> S') ?S ?w"
    by (rule behaves_then) blast
  with opens show "rgs (await fresh k) (\<lambda>_ S' s'. holds S' s' \<and> S \<subseteq> S') S w"
    by (auto simp: fresh_def)
qed

lemma behaves_in_session:
  assumes "\<And>sid. behaves (insert (sess sid) A) (body sid)"
  shows "behaves A (get_session D g body)"
proof -
  have "behaves A (get_session_factory g)"
    by (auto simp: get_session_factory_def get_engine_def intro!: app_rules)
  then show ?thesis
    by (auto simp: get_session_def intro!: app_rules behaves_fresh assms)
qed

text \<open>The time a user was last seen is the time of the clock.\<close>

lemma behaves_now:
  assumes "\<And>t. time_ok t \<Longrightarrow> behaves A (k t)"
  shows "behaves A (await (read_state w_now) k)"
  unfolding behaves_def rg_await rg_sync using assms now_ok guar_refl by (fastforce intro: behavesD)

lemma behaves_tickets [intro]: "user_ok u \<Longrightarrow> behaves A (issue_ticket R ttl u)"
  by (auto simp: issue_ticket_def intro!: app_rules)

text \<open>Whoever redeems a ticket learns a user's id.\<close>

lemma behaves_redeem:
  assumes "\<And>u. user_ok u \<Longrightarrow> behaves A (k (Some u))" "behaves A (k None)"
  shows "behaves A (await (redeem_ticket R ticket) k)"
  unfolding behaves_def
proof (intro allI impI)
  have k: "behaves A (k r)" if "\<forall>u. r = Some u \<longrightarrow> user_ok u" for r
    using assms that by (cases r) auto
  fix S w assume w: "holds S w" "A \<subseteq> S"
  have "rgs (redis_io (rd_getdel R (ticket_key ticket)))
     (\<lambda>r S' w'. holds S' w' \<and> S \<subseteq> S' \<and> (\<forall>u. r = Inr (Some u) \<longrightarrow> user_ok u)) S w"
    unfolding redis_io_def by (rule rg_call [OF w(1)]) (use redis_getdel ticket_ok in auto)
  then have "rgs (redeem_ticket R ticket)
     (\<lambda>r S' w'. holds S' w' \<and> S \<subseteq> S' \<and> (\<forall>u. r = Inr (Some u) \<longrightarrow> user_ok u)) S w"
    unfolding redeem_ticket_def rg_await by (rule rg_mono) (auto split: sum.splits option.splits)
  then show "rgs (await (redeem_ticket R ticket) k) (\<lambda>_ S' w'. holds S' w' \<and> S \<subseteq> S') S w"
    unfolding rg_await
    by (rule rg_mono) (auto split: sum.splits intro: behaves_next [OF k _ w(2)])
qed

lemma behaves_registry [intro]:
  "behaves A (register R u i ttl)" "behaves A (refresh R u ttl)" "behaves A (unregister R u)"
  "behaves A (lookup R u)" "behaves A (mark_alive R i ttl)" "behaves A (is_alive R i)"
  by (auto simp: register_def refresh_def unregister_def lookup_def mark_alive_def is_alive_def
      intro!: app_rules)

lemma behaves_presence [intro]:
  "user_ok u \<Longrightarrow> behaves A (mark_online R ttl u)" "user_ok u \<Longrightarrow> behaves A (mark_away R ttl u)"
  "user_ok u \<Longrightarrow> behaves A (heartbeat R ttl u)" "user_ok u \<Longrightarrow> behaves A (handle_heartbeat R ttl u)"
  "behaves A (mark_offline R u)" "behaves A (get_presence_info R u)"
  by (auto simp: mark_online_def mark_away_def heartbeat_def mark_offline_def handle_heartbeat_def
      get_presence_info_def set_online_def set_away_def refresh_presence_def clear_presence_def
      touch_last_seen_def get_status_def get_last_seen_def intro!: app_rules behaves_registry behaves_now)

lemma behaves_limits [intro]:
  "behaves A (allow R limit window c)" "behaves A (has_seen R i)"
  by (auto simp: allow_def has_seen_def intro!: app_rules)

lemma behaves_database [intro]:
  "sess sid \<in> A \<Longrightarrow> behaves A (mark_delivered_live D sid i)"
  "sess sid \<in> A \<Longrightarrow> behaves A (get_unread_backlog D sid u lim)" "sess sid \<in> A \<Longrightarrow> behaves A (get_history D sid u lim before)"
  "sess sid \<in> A \<Longrightarrow> behaves A (get_read_receipts D sid i)" "behaves A (dispose_engine D g)"
  by (auto simp: mark_delivered_live_def get_unread_backlog_def get_history_def
      get_read_receipts_def dispose_engine_def Let_def intro!: app_rules)

text \<open>A receipt is inserted for a row that the same session has found and marked.\<close>

lemma behaves_mark_read [intro]:
  assumes "sess sid \<in> A"
  shows "behaves A (mark_read D sid i u t)"
  unfolding behaves_def
proof (intro allI impI)
  fix S w assume w: "holds S w" "A \<subseteq> S"
  with assms have sid: "sess sid \<in> S" by blast
  let ?post = "\<lambda>_ S' w'. holds S' w' \<and> S \<subseteq> S'"
  have commit: "behaves S (await (db_io (db_commit D sid)) (\<lambda>_. Return b))" for b
    using sid by (auto intro!: behaves_rules)
  have receipt: "rgs (await (db_io (db_insert_receipt D sid i u t)) (\<lambda>_. await (db_io (db_commit D sid)) (\<lambda>_. Return True))) ?post S v"
    if v: "holds S v" "marked_by v sid i u" for v
  proof (rule behaves_after [OF _ subset_refl commit])
    show "rgs (db_io (db_insert_receipt D sid i u t)) ?post S v"
      unfolding db_io_def by (rule rg_call [OF v(1)]) (use db_receipt marked_stable [OF v(2) sid] sid in auto)
  qed
  have "rgs (db_io (db_update_notifications D sid [NotificationIdIs i, UserIdIs u] (SetReadAt t)))
      (\<lambda>r S' w'. holds S' w' \<and> S' = S \<and> (\<forall>k. r = Inr k \<longrightarrow> k \<noteq> 0 \<longrightarrow> marked_by w' sid i u)) S w"
    unfolding db_io_def by (rule rg_call [OF w(1)]) (use db_update update_marks sid in auto)
  then show "rgs (mark_read D sid i u t) ?post S w"
    unfolding mark_read_def
    by (subst rg_await, elim rg_mono)
      (auto simp del: rg_await split: sum.splits intro: receipt behavesD [OF commit])
qed

lemma behaves_connections [intro]:
  "behaves A (send_json W i u m)" "behaves A (close_all W i c reason)"
proof -
  show "behaves A (send_json W i u m)"
    by (auto simp: send_json_def except_Exception_Some intro!: app_rules)
  have "behaves A (close_each W i c reason us)" for us
    by (induction us) (auto simp: except_Exception_Some intro!: app_rules)
  then show "behaves A (close_all W i c reason)" by (auto simp: close_all_def intro!: app_rules)
qed

text \<open>An id is marked as seen when the notification is committed, and only then.\<close>

lemma create_confirms:
  assumes "holds S w" "sess sid \<in> S" "acceptable ty pl"
  shows "rgs (create D sid i u ty pl)
    (\<lambda>r S' w'. holds S' w' \<and> S \<subseteq> S' \<and> (\<forall>row. r = Inr row \<longrightarrow> confirmed w' i) \<and>
      (\<forall>row. r = Inr (Some row) \<longrightarrow> may_send S' i \<and> n_notification_id row = i)) S w"
proof -
  let ?won = "\<lambda>result r S' w'. holds S' w' \<and> S \<subseteq> S' \<and> (\<forall>x. r = Inr x \<longrightarrow> confirmed w' i) \<and>
      (\<forall>row. r = Inr (Some row) \<longrightarrow> may_send S' i \<and> n_notification_id row = i)"
  have commit: "rgs (db_io (db_commit D sid))
      (\<lambda>r S' w'. holds S' w' \<and> S \<subseteq> S' \<and> (\<forall>x. r = Inr x \<longrightarrow> confirmed w' i \<and> (add \<longrightarrow> may_send S' i))) S w'"
    if "holds S w'" "claims w' sid i" "add \<longrightarrow> adding w' sid i" for w' add
    unfolding db_io_def
  proof (rule rg_gain [where g = "\<lambda>v. after_commit S v sid"])
    show "guar S v (after_commit S v sid) (snd (fst (db_commit D sid (w_db v)), v\<lparr>w_db := snd (db_commit D sid (w_db v))\<rparr>))"
      if "holds S v" for v using db_commits [OF that assms(2)] by simp
    then have grows: "S \<subseteq> after_commit S v sid" if "holds S v" for v using guar_grows that by blast
    show "holds S v \<and> S \<subseteq> S \<and> (\<forall>x. Inl e = Inr x \<longrightarrow> confirmed v i \<and> (add \<longrightarrow> may_send S i))" if "holds S v" for v e
      using that by simp
    show "holds (after_commit S v sid) v' \<and> S \<subseteq> after_commit S v sid \<and>
        (\<forall>x. Inl e = Inr x \<longrightarrow> confirmed v' i \<and> (add \<longrightarrow> may_send (after_commit S v sid) i))"
      if "holds S v" "holds (after_commit S v sid) v'" for v v' e using that grows by simp
    fix v a
    assume v: "rely S w' v" "holds S v" and ok: "fst (fst (db_commit D sid (w_db v)), v\<lparr>w_db := snd (db_commit D sid (w_db v))\<rparr>) = Some a"
      and "holds (after_commit S v sid) (snd (fst (db_commit D sid (w_db v)), v\<lparr>w_db := snd (db_commit D sid (w_db v))\<rparr>))"
    moreover have "confirmed (v\<lparr>w_db := snd (db_commit D sid (w_db v))\<rparr>) i"
      using commit_confirms [OF v(2) assms(2) claims_stable [OF that(2) assms(2) v(1)]] ok by simp
    moreover have "add \<longrightarrow> may_send (after_commit S v sid) i"
      using commit_sends [OF v(2) assms(2) adding_stable [OF _ assms(2) v(1)]] that(3) ok by simp
    ultimately show "holds (after_commit S v sid) (snd (fst (db_commit D sid (w_db v)), v\<lparr>w_db := snd (db_commit D sid (w_db v))\<rparr>)) \<and>
        S \<subseteq> after_commit S v sid \<and> (\<forall>x. Inr a = Inr x \<longrightarrow>
          confirmed (snd (fst (db_commit D sid (w_db v)), v\<lparr>w_db := snd (db_commit D sid (w_db v))\<rparr>)) i \<and>
          (add \<longrightarrow> may_send (after_commit S v sid) i))"
      using grows by simp
  qed
  have "rgs (db_io (db_insert_notification D sid i u ty pl))
      (\<lambda>r S' w'. holds S' w' \<and> S' = S \<and> (\<forall>x. r = Inr x \<longrightarrow> claims w' sid i) \<and>
        (\<forall>row. r = Inr (Some row) \<longrightarrow> n_notification_id row = i \<and> adding w' sid i)) S w"
    unfolding db_io_def by (rule rg_call [OF assms(1)]) (use db_insert insert_claims insert_adds assms(2,3) in auto)
  then show ?thesis
    unfolding create_def rg_await
  proof (rule rg_mono, goal_cases)
    case (1 r S' w')
    show ?case
    proof (cases r)
      case (Inr result)
      with 1 have "rgs (db_io (db_commit D sid))
          (\<lambda>r S' w'. holds S' w' \<and> S \<subseteq> S' \<and> (\<forall>x. r = Inr x \<longrightarrow> confirmed w' i \<and> (result \<noteq> None \<longrightarrow> may_send S' i))) S w'"
        by (intro commit) auto
      with 1 Inr show ?thesis by (auto elim!: rg_mono split: sum.splits)
    qed (use 1 in auto)
  qed
qed

lemma stays_mark_seen:
  assumes "holds S w" "confirmed w i"
  shows "rgs (mark_seen R ttl i) (\<lambda>_ S' w'. holds S' w' \<and> S' = S) S w"
  unfolding mark_seen_def redis_io_def
  by (rule rg_call [OF assms(1)]) (use set_dedup confirmed_stable [OF assms(2)] in auto)

text \<open>Publishing what was just stored, once.\<close>

lemma stays_calls: "stays (redis_io (rd_get R k))" "stays (redis_io (rd_exists R k))"
  "keeps_process f \<Longrightarrow> stays (in_gateway g f)"
  by (auto simp: redis_io_def in_gateway_def intro!: stays_io stays_sync redis_get redis_exists memory)

lemma stays_live_owner: "stays (live_owner R u)"
  by (auto simp: live_owner_def lookup_def is_alive_def intro!: stays_rules stays_calls)

lemma publish_once:
  assumes "holds S w" "may_send S (n_notification_id row)"
  shows "rgs (publish_to_instance R inst (live_message u now row)) (\<lambda>_ S' w'. holds S' w' \<and> S \<subseteq> S') S w"
proof -
  let ?S = "after_send S (n_notification_id row)"
  have sends: "guar S v ?S (snd (fst (f (w_redis v)), v\<lparr>w_redis := snd (f (w_redis v))\<rparr>))"
    if "holds S v" "f = rd_publish R k (dumps (live_message u now row))" for v f k
    using redis_publish [OF that(1) assms(2)] that(2) by simp
  have grows: "S \<subseteq> ?S" using sends [OF assms(1) HOL.refl] by (rule guar_grows)
  show ?thesis
    unfolding publish_to_instance_def Let_def rg_await redis_io_def
    by (rule rg_gain [where g = "\<lambda>_. ?S"]) (use sends grows in auto)
qed

lemma deliver_once:
  assumes "holds S w" "may_send S (n_notification_id row)" "sess sid \<in> S"
  shows "rgs (deliver_live R D g sid body row) (\<lambda>_ S' w'. holds S' w' \<and> S \<subseteq> S') S w"
proof -
  have rest: "behaves S (await (mark_delivered_live D sid i) (\<lambda>_. await (in_gateway g f) (\<lambda>_. Return b)))"
    if "keeps_process f" for i f b
    using assms(3) that by (auto simp: mark_delivered_live_def intro!: app_rules)
  let ?post = "\<lambda>_ S' w'. holds S' w' \<and> S \<subseteq> S'"
  have publish: "rgs (await (read_state w_time) (\<lambda>now. await (publish_to_instance R inst (live_message u now row)) (\<lambda>_.
      await (mark_delivered_live D sid i) (\<lambda>_. await (in_gateway g f) (\<lambda>_. Return b))))) ?post S v"
    if "holds S v" "keeps_process f" for v inst u i f b
  proof -
    have "rgs (await (publish_to_instance R inst (live_message u (w_time v) row)) (\<lambda>_.
        await (mark_delivered_live D sid i) (\<lambda>_. await (in_gateway g f) (\<lambda>_. Return b)))) ?post S v"
      by (rule behaves_after [OF publish_once [OF that(1) assms(2)] subset_refl rest [OF that(2)]])
    then show ?thesis
      by (subst rg_await) (use guar_refl [OF that(1)] in \<open>auto simp del: rg_await\<close>)
  qed
  show ?thesis
    unfolding deliver_live_def
    by (subst rg_await, rule rg_mono [OF staysD [OF stays_live_owner assms(1)]])
      (auto simp del: rg_await split: sum.splits option.splits intro: publish)
qed

lemma behaves_store:
  assumes "sess sid \<in> A" "acceptable (nc_type body) (nc_payload body)"
  shows "behaves A (store_and_deliver R D cfg body sid)"
  unfolding behaves_def
proof (intro allI impI)
  fix S w assume w: "holds S w" "A \<subseteq> S"
  from assms(1) w(2) have sid: "sess sid \<in> S" by blast
  let ?post = "\<lambda>_ S' w'. holds S' w' \<and> S \<subseteq> S'"
  have deliver: "rgs (await (in_gateway g f) (\<lambda>_. await (deliver_live R D g sid body row) (\<lambda>d. Return (k d)))) ?post S' w'"
    if "holds S' w'" "S \<subseteq> S'" "may_send S' (n_notification_id row)" "keeps_process f" for S' w' row g f k
  proof -
    have "rgs (await (deliver_live R D g sid body row) (\<lambda>d. Return (k d))) ?post S' v" if "holds S' v" for v
    proof (rule rg_mono)
      show "rgs (await (deliver_live R D g sid body row) (\<lambda>d. Return (k d))) (\<lambda>_ S'' w''. holds S'' w'' \<and> S' \<subseteq> S'') S' v"
        using \<open>S \<subseteq> S'\<close> sid \<open>may_send S' (n_notification_id row)\<close>
        by (intro behaves_after [OF deliver_once [OF that] subset_refl] behaves_Return) blast+
    qed (use \<open>S \<subseteq> S'\<close> in blast)
    then show ?thesis
      by (subst rg_await, intro rg_mono [OF staysD [OF stays_calls(3) [OF that(4)] that(1)]])
        (use that(2) in \<open>auto simp del: rg_await split: sum.splits\<close>)
  qed
  have rest: "rgs (await (mark_seen R ttl i) (\<lambda>_. case row of None \<Rightarrow> Return a
      | Some row \<Rightarrow> await (in_gateway g f) (\<lambda>_. await (deliver_live R D g sid body row) (\<lambda>d. Return (k d))))) ?post S' w'"
    if "holds S' w'" "S \<subseteq> S'" "confirmed w' i" "\<forall>r. row = Some r \<longrightarrow> may_send S' (n_notification_id r)" "keeps_process f"
    for S' w' ttl i row a g f k
    by (subst rg_await, intro rg_mono [OF stays_mark_seen [OF that(1,3)]])
      (use that(2,4,5) in \<open>auto simp del: rg_await split: sum.splits option.splits intro!: deliver\<close>)
  show "rgs (store_and_deliver R D cfg body sid) ?post S w"
    unfolding store_and_deliver_def
    by (subst rg_await, intro rg_mono [OF create_confirms [OF w(1) sid assms(2)]])
      (auto simp del: rg_await split: sum.splits intro!: rest)
qed

lemma behaves_create [intro]:
  "acceptable (nc_type body) (nc_payload body) \<Longrightarrow> behaves A (create_notification R D cfg client body)"
  by (auto simp: create_notification_def intro!: app_rules behaves_limits behaves_in_session behaves_store)

lemma behaves_loops [intro]:
  "behaves A (reconciliation_run R i interval n)" "behaves A (liveness_run R i ttl n)"
  "behaves A (liveness_start R i ttl)"
proof -
  have "behaves A (reconcile_each R i us)" for us
    by (induction us) (auto intro!: app_rules behaves_registry)
  then have "behaves A (reconcile R i)" by (auto simp: reconcile_def intro!: app_rules)
  then show "behaves A (reconciliation_run R i interval n)"
    by (induction n) (auto simp: except_Exception_Some intro!: app_rules)
  show "behaves A (liveness_run R i ttl n)"
    by (induction n) (auto simp: except_Exception_Some intro!: app_rules behaves_registry)
  show "behaves A (liveness_start R i ttl)" by (auto simp: liveness_start_def)
qed

lemma behaves_py_index [intro]: "behaves A (py_index j k)"
  by (auto simp: py_index_def split: json.splits option.splits intro!: app_rules)

lemma behaves_send_to [intro]: "behaves A (send_to W i u m)"
  by (cases u) (auto intro!: app_rules)

lemma behaves_subscriber [intro]:
  "behaves A (subscriber_start R i)" "behaves A (on_message i (deliver W i) m)"
  "behaves A (listen i (deliver W i) ms)"
proof -
  show "behaves A (subscriber_start R i)" by (auto simp: subscriber_start_def intro!: app_rules)
  have "behaves A (deliver W i payload)" for payload
    by (auto simp: deliver_def Let_def intro!: app_rules)
  then show msg: "behaves A (on_message i (deliver W i) m)" for m
    by (auto simp: on_message_def except_Exception_Some split: option.splits pubsub_data.splits intro!: app_rules)
  show "behaves A (listen i (deliver W i) ms)"
    by (induction ms) (auto intro!: app_rules msg)
qed

lemma behaves_route:
  assumes "\<And>i t. behaves A (cb i u t)" "user_ok u"
  shows "behaves A (route R V cfg cb u conn raw)"
  using assms(2)
  by (auto simp: route_def dispatch_def count_message_def except_only_Some Let_def
      intro!: app_rules behaves_limits behaves_presence assms(1))

end


section \<open>Four relations\<close>

text \<open>Redis, once up, stays up; what was sent on a socket stays sent.\<close>

abbreviation keeps_up :: "'r redis \<Rightarrow> ('r, 'd, 'w) world \<Rightarrow> ('r, 'd, 'w) world \<Rightarrow> bool" where
  "keeps_up R \<equiv> keeping (redis_up R)"

definition sends :: "'w websockets \<Rightarrow> ('r, 'd, 'w) world \<Rightarrow> ('r, 'd, 'w) world \<Rightarrow> bool" where
  "sends W w w' \<longleftrightarrow> (\<forall>x. \<exists>fs. frames (wires W w') x = frames (wires W w) x @ fs)"

lemma steps_sends: "steps (sends W)"
  unfolding sends_def by unfold_locales (metis append.right_neutral, metis append.assoc)

lemma sends_refl: "wires W w' = wires W w \<Longrightarrow> sends W w w'"
  by (simp add: sends_def)

text \<open>What a connection needs of Redis and the transport, and all three services together.\<close>

locale edge = redis_service R + websocket_service W
  for R :: "'r redis" and W :: "'w websockets"

interpretation memedge: edge mem_redis mem_websockets
  by unfold_locales

locale platform = stores R D + websocket_service W
  for R :: "'r redis" and D :: "'d database" and W :: "'w websockets"
begin

sublocale edge R W
  by unfold_locales

lemma sends_call:
  assumes "realises (ws_view W) up f g" "\<And>s x. \<exists>fs. frames (snd (g s)) x = frames s x @ fs"
  shows "sends W w (w\<lparr>w_ws := snd (f (w_ws w))\<rparr>)"
  using realises_effect [OF assms(1), of "w_ws w"] assms(2) by (auto simp: sends_def)

text \<open>The tables stay in order and every row is permanent.\<close>

lemma db_statement:
  fixes w :: "('r, 'd, 'w) world" and f :: "'d \<Rightarrow> 'x option \<times> 'd"
  assumes "obeys_db D (db_io f :: ('r, 'd, 'w, 'x) task)"
  shows "on_data D db_step w (w\<lparr>w_db := snd (f (w_db w))\<rparr>)"
  using obeys_run [OF steps_db assms, of w] by simp

lemmas statement_steps = db_statement [OF obeys_statements(1)] db_statement [OF obeys_statements(2)]
  db_statement [OF obeys_statements(3)] db_statement [OF obeys_statements(4)] db_statement [OF obeys_statements(5)]
  db_statement [OF obeys_statements(6)] db_statement [OF obeys_statements(7)] db_statement [OF obeys_statements(8)]
  db_statement [OF obeys_statements(9)]

lemma on_data_refl: "w_db w' = w_db w \<Longrightarrow> on_data D rel w w'"
  by (simp add: on_data_def)

lemma insert_returns:
  assumes "fst (db_insert_notification D sid i u ty pl d) = Some (Some row)"
  shows "n_notification_id row = i"
  using realises_Some(1) [OF insert_law assms] by (auto simp: doc_insert_notification_def Let_def split: if_splits)

sublocale tables: effects "\<lambda>_. on_data D db_step" "\<lambda>S w S' w'. on_data D db_step w w' \<and> S \<subseteq> S'" "\<lambda>_ _. True" "\<lambda>_ _. True" "{}"
  "\<lambda>sid. sid" "\<lambda>S _ _. S" "\<lambda>S _. S" "\<lambda>_ _. True" "\<lambda>_ _ _. True" "\<lambda>_ _ _ _. True"
  R D W "\<lambda>_. True" "\<lambda>_. True" "\<lambda>_ _ _. True" "\<lambda>_ _. True"
  by (intro effects.intro effects_axioms.intro steps_sessions steps_db)
    (auto intro: statement_steps on_data_refl simp: elapse_def insert_returns)

sublocale upkeep: effects "\<lambda>_. keeps_up R" "\<lambda>S w S' w'. keeps_up R w w' \<and> S \<subseteq> S'" "\<lambda>_ _. True" "\<lambda>_ _. True" "{}"
  "\<lambda>sid. sid" "\<lambda>S _ _. S" "\<lambda>S _. S" "\<lambda>_ _. True" "\<lambda>_ _ _. True" "\<lambda>_ _ _ _. True"
  R D W "\<lambda>_. True" "\<lambda>_. True" "\<lambda>_ _ _. True" "\<lambda>_ _. True"
  by (intro effects.intro effects_axioms.intro steps_sessions keeping.steps_axioms)
    (auto simp: keeping_def elapse_def up_simps insert_returns)

sublocale processes: effects "\<lambda>_. keeping (\<lambda>w. \<forall>i. process_ok (w_gateway w i))"
  "\<lambda>S w S' w'. keeping (\<lambda>w. \<forall>i. process_ok (w_gateway w i)) w w' \<and> S \<subseteq> S'" "\<lambda>_ _. True" "\<lambda>_ _. True" "{}"
  "\<lambda>sid. sid" "\<lambda>S _ _. S" "\<lambda>S _. S" "\<lambda>_ _. True" "\<lambda>_ _ _. True" "\<lambda>_ _ _ _. True"
  R D W "\<lambda>_. True" "\<lambda>_. True" "\<lambda>_ _ _. True" "\<lambda>_ _. True"
  by (intro effects.intro effects_axioms.intro steps_sessions keeping.steps_axioms)
    (auto simp: keeping_def elapse_def keeps_process_def upd_gateway_def insert_returns)

sublocale sent: effects "\<lambda>_. sends W" "\<lambda>S w S' w'. sends W w w' \<and> S \<subseteq> S'" "\<lambda>_ _. True" "\<lambda>_ _. True" "{}"
  "\<lambda>sid. sid" "\<lambda>S _ _. S" "\<lambda>S _. S" "\<lambda>_ _. True" "\<lambda>_ _ _. True" "\<lambda>_ _ _ _. True"
  R D W "\<lambda>_. True" "\<lambda>_. True" "\<lambda>_ _ _. True" "\<lambda>_ _. True"
proof (intro effects.intro effects_axioms.intro steps_sessions steps_sends)
  show "sends W w (w\<lparr>w_ws := snd (ws_accept W x (w_ws w))\<rparr>) \<and> S \<subseteq> S" for w x S
    using sends_call [OF accept_law] by (simp add: doc_accept_def)
  show "sends W w (w\<lparr>w_ws := snd (ws_close W x c m (w_ws w))\<rparr>) \<and> S \<subseteq> S" for w x c m S
    using sends_call [OF websocket_service.close_law [OF websocket_service_axioms]] by (simp add: doc_close_socket_def)
  show "sends W w (w\<lparr>w_ws := snd (ws_send_json W x j (w_ws w))\<rparr>) \<and> S \<subseteq> S" for w x j S
    by (intro conjI subset_refl, rule sends_call [OF send_law]) (simp add: doc_send_def)
qed (auto intro!: sends_refl simp: elapse_def insert_returns)

end

interpretation memplatform: platform mem_redis mem_database mem_websockets
  by unfold_locales

end
