(* ===== verification/Single_Task.thy ===== *)
theory Single_Task
  imports Interleaving
begin

text \<open>
  How one task of a pool gets on while the others wait: what it does alone, the pool can do. This
  turns facts about runs into scenarios that the pool of tasks really reaches.
\<close>

inductive leads :: "('s, 'a) coro \<times> 's \<Rightarrow> ('s, 'a) coro \<times> 's \<Rightarrow> bool" where
  stay: "leads c c"
| act: "leads (f s) c \<Longrightarrow> leads (Act f, s) c"
| awaited: "leads (f s) c' \<Longrightarrow> leads (Await f c, s) c'"

lemma leads_trans: "leads c c' \<Longrightarrow> leads c' c'' \<Longrightarrow> leads c c''"
  by (induction rule: leads.induct) (auto intro: leads.intros)

text \<open>A context around a task is carried along.\<close>

lemma leads_context:
  assumes "leads (p, s) (p', s')"
    and "\<And>f. K (Act f) = Act (\<lambda>s. map_prod K id (f s))"
    and "\<And>f c. \<exists>c'. K (Await f c) = Await (\<lambda>s. map_prod K id (f s)) c'"
  shows "leads (K p, s) (K p', s')"
  using assms(1)
proof (induction "(p, s)" "(p', s')" arbitrary: p s rule: leads.induct)
  case (act f s)
  obtain q t where "f s = (q, t)" by fastforce
  with act.hyps(2) [of q t] show ?case by (simp add: assms(2) leads.act)
next
  case (awaited f s c)
  obtain q t where f: "f s = (q, t)" by fastforce
  obtain c' where "K (Await f c) = Await (\<lambda>s. map_prod K id (f s)) c'" using assms(3) by blast
  with f awaited.hyps(2) [of q t] show ?case by (simp add: leads.awaited)
qed (rule leads.stay)

lemmas leads_try_except = leads_context [where K = "\<lambda>p. try_except p h" for h, simplified]
lemmas leads_try_finally = leads_context [where K = "\<lambda>p. try_finally p q" for q, simplified]

lemma leads_await_cong: "leads (p, s) (p', s') \<Longrightarrow> leads (await p k, s) (await p' k, s')"
proof (induction "(p, s)" "(p', s')" arbitrary: p s rule: leads.induct)
  case (act f s)
  obtain q t where "f s = (q, t)" by fastforce
  with act.hyps(2) [of q t] show ?case by (simp add: leads.act)
next
  case (awaited f s c)
  obtain q t where "f s = (q, t)" by fastforce
  with awaited.hyps(2) [of q t] show ?case by (simp add: leads.awaited)
qed (rule leads.stay)

lemma leads_run:
  "run p s = (r, s') \<Longrightarrow> leads (p, s) (case r of Inl e \<Rightarrow> Raise e | Inr a \<Rightarrow> Return a, s')"
proof (induction p arbitrary: s rule: coro_induct)
  case (Act f)
  obtain q t where f: "f s = (q, t)" by fastforce
  with Act.IH [of s t] Act.prems show ?case by (simp add: leads.act)
next
  case (Await f c)
  obtain q t where f: "f s = (q, t)" by fastforce
  with Await.IH(1) [of s t] Await.prems show ?case by (simp add: leads.awaited)
qed (auto intro: leads.stay)

lemma leads_return: "run p s = (Inr a, s') \<Longrightarrow> leads (p, s) (Return a, s')"
  using leads_run [of p s "Inr a" s'] by simp

lemma leads_await: "run p s = (Inr a, s') \<Longrightarrow> leads (await p k, s) (k a, s')"
  using leads_await_cong [OF leads_return] by fastforce

text \<open>Started, and resumed until it waits again or has ended.\<close>

lemma leads_reachable:
  assumes "leads (p, s) (p', s')" "settle p' s' = (p', s')" "n < length ps"
    and "settle p s = (q, t)" "reachable P s0 (ps[n := q], t)"
  shows "reachable P s0 (ps[n := p'], s')"
  using assms
proof (induction "(p, s)" "(p', s')" arbitrary: p s q t rule: leads.induct)
  case (act f s)
  obtain p1 s1 where "f s = (p1, s1)" by fastforce
  with act show ?case by simp
next
  case (awaited f s c)
  obtain p1 s1 where f: "f s = (p1, s1)" by fastforce
  obtain q' t' where settle: "settle p1 s1 = (q', t')" by fastforce
  have "q = Await f c" "t = s" using awaited.prems(3) by simp_all
  with awaited.prems(4) have "reachable P s0 (ps[n := Await f c], s)" by simp
  then have "reachable P s0 (ps[n := q'], t')"
    by (rule reachable.further)
      (use pool_step.resume [of n "ps[n := Await f c]" f c s p1 s1 q' t' P] f settle awaited.prems(2) in simp)
  with awaited.hyps(2) f settle awaited.prems(1,2) show ?case by simp
qed simp

lemma started_reachable:
  assumes "p \<in> P" "reachable P s0 (ps, s)" "leads (p, s) (p', s')" "settle p' s' = (p', s')"
  shows "reachable P s0 (p' # ps, s')"
proof -
  obtain q t where settle: "settle p s = (q, t)" by fastforce
  then have "reachable P s0 (q # ps, t)"
    using reachable.further [OF assms(2) pool_step.start] assms(1) by metis
  then have "reachable P s0 ((q # ps)[0 := q], t)" by simp
  from leads_reachable [OF assms(3,4) _ settle this] show ?thesis by simp
qed

lemma resumed_reachable:
  assumes "reachable P s0 (ps, s)" "n < length ps" "ps ! n = Await f c" "leads (Await f c, s) (p', s')"
    and "settle p' s' = (p', s')"
  shows "reachable P s0 (ps[n := p'], s')"
proof (rule leads_reachable [OF assms(4,5,2)])
  show "reachable P s0 (ps[n := Await f c], s)" using assms(1-3) list_update_id [of ps n] by simp
qed simp

end
