(* ===== verification/Gateway.thy ===== *)
theory Gateway
  imports Platform Single_Task
begin

text \<open>
  \<open>app/websocket/gateway.py\<close>, with the read receipt callback of \<open>app/main.py\<close>: the life of one
  WebSocket connection, from the ticket to the cleanup.
\<close>

section \<open>The code\<close>

text \<open>\<open>_mark_read\<close> of \<open>main.py\<close>.\<close>

definition mark_read_callback ::
  "'d database \<Rightarrow> string \<Rightarrow> uuid \<Rightarrow> string \<Rightarrow> datetime \<Rightarrow> ('r, 'd, 'w, unit) task" where
  "mark_read_callback D i notification_id user_id read_at =
     await (get_session D i (\<lambda>session.
       case py_UUID user_id of
         None \<Rightarrow> Raise ValueError
       | Some u \<Rightarrow> mark_read D session notification_id u read_at)) (\<lambda>marked.
     if marked
     then in_gateway i (\<lambda>g. g\<lparr>read_receipts_recorded_total := Suc (read_receipts_recorded_total g)\<rparr>)
     else Return ())"

text \<open>\<open>MessageRouter.route\<close> of the router that \<open>lifespan\<close> builds.\<close>

definition message_router ::
  "'r redis \<Rightarrow> 'd database \<Rightarrow> pydantic \<Rightarrow> settings \<Rightarrow> string \<Rightarrow> string \<Rightarrow> json \<Rightarrow>
    ('r, 'd, 'w, json option) task" where
  "message_router R D V cfg = route R V cfg (mark_read_callback D (instance_id cfg))"

text \<open>\<open>NotificationEnvelope(...)\<close> of a row; the model wants an object for a payload.\<close>

definition envelope_of_row :: "notification \<Rightarrow> notification_envelope option" where
  "envelope_of_row row =
     (if is_object (n_payload row)
      then Some \<lparr>ne_notification_id = n_notification_id row, ne_user_id = n_user_id row,
                 ne_type = n_type row, ne_payload = n_payload row, ne_created_at = n_created_at row\<rparr>
      else None)"

definition send_backlog ::
  "'d database \<Rightarrow> 'w websockets \<Rightarrow> pydantic \<Rightarrow> string \<Rightarrow> nat \<Rightarrow> string \<Rightarrow> int \<Rightarrow> ('r, 'd, 'w, unit) task" where
  "send_backlog D W V i socket user_id limit =
     await (get_session D i (\<lambda>session.
       case py_UUID user_id of
         None \<Rightarrow> Raise ValueError
       | Some u \<Rightarrow> get_unread_backlog D session u limit)) (\<lambda>backlog.
     case those (map envelope_of_row backlog) of
       None \<Rightarrow> Raise ValidationError
     | Some envelopes \<Rightarrow> ws_io (ws_send_json W socket (dump_BacklogMessage V envelopes)))"

text \<open>
  What the client sends, in order; at the end of the list it goes away. \<open>receive_json\<close> raises
  \<open>WebSocketDisconnect\<close> then, and refuses a binary frame with a \<open>KeyError\<close>.
\<close>

datatype inbound = TextFrame string | BinaryFrame

definition receive_json :: "inbound \<Rightarrow> ('r, 'd, 'w, json) task" where
  "receive_json m =
     (case m of
        TextFrame s \<Rightarrow> (case loads s of None \<Rightarrow> Raise JSONDecodeError | Some j \<Rightarrow> Return j)
      | BinaryFrame \<Rightarrow> Raise KeyError)"

primrec receive_loop ::
  "'r redis \<Rightarrow> 'd database \<Rightarrow> 'w websockets \<Rightarrow> pydantic \<Rightarrow> settings \<Rightarrow> nat \<Rightarrow> string \<Rightarrow> string \<Rightarrow> inbound list \<Rightarrow>
    ('r, 'd, 'w, unit) task" where
  "receive_loop R D W V cfg socket user_id connection_id [] =
     await suspend (\<lambda>_. Raise WebSocketDisconnect)"
| "receive_loop R D W V cfg socket user_id connection_id (m # ms) =
     await suspend (\<lambda>_.
     await (receive_json m) (\<lambda>raw_message.
     await (message_router R D V cfg user_id connection_id raw_message) (\<lambda>response.
     await (case response of None \<Rightarrow> Return () | Some v \<Rightarrow> ws_io (ws_send_json W socket v)) (\<lambda>_.
     receive_loop R D W V cfg socket user_id connection_id ms))))"

text \<open>\<open>uuid.uuid4()\<close>: the next draw.\<close>

definition uuid4 :: "('r, 'd, 'w, uuid) task" where
  "uuid4 = sync (\<lambda>w. (w_uuid4 w (w_draws w), w\<lparr>w_draws := Suc (w_draws w)\<rparr>))"

text \<open>The endpoint between the ticket and the \<open>try\<close>, and its \<open>finally\<close>.\<close>

definition enter ::
  "'r redis \<Rightarrow> 'w websockets \<Rightarrow> settings \<Rightarrow> nat \<Rightarrow> string \<Rightarrow> ('r, 'd, 'w, string) task" where
  "enter R W cfg socket user_id =
     await (ws_io (ws_accept W socket)) (\<lambda>_.
     await uuid4 (\<lambda>connection_id.
     await (add (instance_id cfg) user_id socket) (\<lambda>_.
     await (register R user_id (instance_id cfg) (presence_ttl_seconds cfg)) (\<lambda>_.
     await (mark_online R (presence_ttl_seconds cfg) user_id) (\<lambda>_.
     Return (uuid_str connection_id))))))"

definition leave :: "'r redis \<Rightarrow> string \<Rightarrow> string \<Rightarrow> ('r, 'd, 'w, unit) task" where
  "leave R i user_id =
     await (remove i user_id) (\<lambda>_.
     await (unregister R user_id) (\<lambda>_.
     mark_offline R user_id))"

text \<open>The \<open>try\<close> block of the endpoint.\<close>

definition serve ::
  "'r redis \<Rightarrow> 'd database \<Rightarrow> 'w websockets \<Rightarrow> pydantic \<Rightarrow> settings \<Rightarrow> nat \<Rightarrow> string \<Rightarrow> inbound list \<Rightarrow> string \<Rightarrow>
    ('r, 'd, 'w, unit) task" where
  "serve R D W V cfg x u ms conn =
     try_except
       (await (send_backlog D W V (instance_id cfg) x u (backlog_limit cfg)) (\<lambda>_.
        receive_loop R D W V cfg x u conn ms))
       (except_only WebSocketDisconnect (log_line (instance_id cfg) (Disconnected u)))"

definition websocket_endpoint ::
  "'r redis \<Rightarrow> 'd database \<Rightarrow> 'w websockets \<Rightarrow> pydantic \<Rightarrow> settings \<Rightarrow> nat \<Rightarrow> string \<Rightarrow> inbound list \<Rightarrow>
    ('r, 'd, 'w, unit) task" where
  "websocket_endpoint R D W V cfg socket ticket messages =
     await (redeem_ticket R ticket) (\<lambda>user_id.
       case user_id of
         None \<Rightarrow> ws_io (ws_close W socket 1008 ''Invalid or expired ticket'')
       | Some user_id \<Rightarrow>
           await (enter R W cfg socket user_id) (\<lambda>connection_id.
             try_finally
               (serve R D W V cfg socket user_id messages connection_id)
               (leave R (instance_id cfg) user_id)))"

section \<open>Every step of a connection\<close>

context effects
begin

lemma behaves_callback [intro]: "behaves A (mark_read_callback D i n u t)"
  by (auto simp: mark_read_callback_def intro!: app_rules behaves_in_session)

lemma behaves_send_backlog [intro]: "behaves A (send_backlog D W V i x u lim)"
  by (auto simp: send_backlog_def intro!: app_rules behaves_in_session)

lemma behaves_receive_loop [intro]: "user_ok u \<Longrightarrow> behaves A (receive_loop R D W V cfg x u conn ms)"
proof (induction ms)
  case (Cons m ms)
  then show ?case
    by (cases m) (auto simp: receive_json_def message_router_def split: option.splits
        intro!: app_rules behaves_route)
qed (auto intro!: app_rules)

lemma behaves_enter [intro]: "user_ok u \<Longrightarrow> behaves A (enter R W cfg x u)"
proof -
  have "behaves A (uuid4 :: ('r, 'd, 'w, uuid) task)" by (auto simp: uuid4_def drawing intro!: behaves_sync)
  then show "user_ok u \<Longrightarrow> behaves A (enter R W cfg x u)" by (auto simp: enter_def intro!: app_rules)
qed

lemma behaves_leave [intro]: "behaves A (leave R i u)"
  by (auto simp: leave_def intro!: app_rules)

lemma behaves_serve [intro]: "user_ok u \<Longrightarrow> behaves A (serve R D W V cfg x u ms conn)"
  by (auto simp: serve_def except_only_Some intro!: app_rules)

lemma behaves_endpoint [intro]: "behaves A (websocket_endpoint R D W V cfg x t ms)"
  unfolding websocket_endpoint_def by (rule behaves_redeem) (auto intro!: app_rules)

end

section \<open>Entering and leaving\<close>

lemma leave_frame:
  "w_db (snd (run (leave R i u) w)) = w_db w" "w_ws (snd (run (leave R i u) w)) = w_ws w"
  by (simp_all add: leave_def unregister_def mark_offline_def clear_presence_def split: option.splits)

context edge
begin

lemma run_leave:
  assumes "redis_up R w"
  obtains r where
    "run (leave R i u) w = (Inr (), upd_gateway i (\<lambda>g. set_connections (AList.delete u (connections g)) g) (w\<lparr>w_redis := r\<rparr>))"
    "rd_up R r"
    "entries (rd_view R r) = (entries (store R w))(registry_key u := None, presence_key u := None)"
proof -
  let ?r1 = "snd (rd_delete R (registry_key u) (w_redis w))"
  let ?r = "snd (rd_delete R (presence_key u) ?r1)"
  have up: "rd_up R ?r1" "rd_up R ?r" using assms by (simp_all add: up_simps)
  show ?thesis
    by (rule that [of ?r])
      (use assms up in \<open>simp_all add: leave_def run_unregister mark_offline_def clear_presence_def up_simps redis_docs upd_gateway_def\<close>)
qed

lemma run_enter:
  fixes w :: "('r, 'd, 'w) world"
  assumes "redis_up R w" "fst (ws_accept W x (w_ws w)) = Some ()" "valid_settings cfg"
  obtains conn w' where "run (enter R W cfg x u) w = (Inr conn, w')"
    "redis_up R w'" "w_db w' = w_db w" "\<And>y. ws_up W (w_ws w') y = ws_up W (w_ws w) y"
    "wires W w' = snd (doc_accept x (wires W w))" "w_now w' = w_now w" "w_time w' = w_time w"
    "w_gateway w' = (w_gateway w)(instance_id cfg :=
       set_connections (AList.update u x (connections (w_gateway w (instance_id cfg)))) (w_gateway w (instance_id cfg)))"
    "entries (store R w') = (entries (store R w))
       (registry_key u \<mapsto> (instance_id cfg, Some (1000 * nat (presence_ttl_seconds cfg))),
        presence_key u \<mapsto> (''online'', Some (1000 * nat (presence_ttl_seconds cfg))),
        last_seen_key u \<mapsto> (isoformat (w_now w), None))"
proof -
  let ?ttl = "presence_ttl_seconds cfg" and ?i = "instance_id cfg"
  have ttl: "0 < ?ttl" using assms(3) by (simp add: valid_settings_def)
  let ?w1 = "upd_gateway ?i (\<lambda>g. set_connections (AList.update u x (connections g)) g)
    (w\<lparr>w_ws := snd (ws_accept W x (w_ws w)), w_draws := Suc (w_draws w)\<rparr>)"
  let ?r1 = "snd (rd_set R (registry_key u) ?i (Some ?ttl) (w_redis w))"
  let ?r2 = "snd (rd_set R (presence_key u) ''online'' (Some ?ttl) ?r1)"
  let ?r3 = "snd (rd_set R (last_seen_key u) (isoformat (w_now w)) None ?r2)"
  have accept: "fst (ws_accept W x (w_ws w)) = Some ()" "wires W ?w1 = snd (doc_accept x (wires W w))"
    using assms(2) realises_Some(2) [OF accept_law assms(2)] by (simp_all add: doc_accept_def)
  have up: "rd_up R ?r1" "rd_up R ?r2" "rd_up R ?r3"
    using assms(1) ttl by (simp_all add: up_simps)
  show ?thesis
    by (rule that [of "uuid_str (w_uuid4 w (w_draws w))" "?w1\<lparr>w_redis := ?r3\<rparr>"])
      (use assms(1) ttl accept up in \<open>simp_all add: enter_def uuid4_def run_register mark_online_def set_online_def
        touch_last_seen_def up_simps redis_docs peers, simp_all add: upd_gateway_def\<close>)
qed

end

context platform
begin

lemma obeys_serve:
  "obeys (keeps_up R) (serve R D W V cfg x u ms conn)" "obeys (sends W) (serve R D W V cfg x u ms conn)"
  by (rule behaves_obeys keeping.steps_axioms steps_sends upkeep.behaves_serve sent.behaves_serve TrueI)+

text \<open>A redeemed ticket: in, the \<open>try\<close> block, and out again however that ended.\<close>

lemma run_endpoint:
  fixes w :: "('r, 'd, 'w) world"
  assumes "redis_up R w" "fst (ws_accept W x (w_ws w)) = Some ()" "valid_settings cfg" "value_of (store R w) (ticket_key t) = Some u"
  obtains r conn w1 w2 w' where
    "run (enter R W cfg x u) (w\<lparr>w_redis := r\<rparr>) = (Inr conn, w1)" "rd_up R r"
    "rd_view R r = (store R w)\<lparr>entries := (entries (store R w))(ticket_key t := None)\<rparr>"
    "snd (run (serve R D W V cfg x u ms conn) w1) = w2" "snd (run (leave R (instance_id cfg) u) w2) = w'"
    "run (websocket_endpoint R D W V cfg x t ms) w = (fst (run (serve R D W V cfg x u ms conn) w1), w')"
    "redis_up R w1" "redis_up R w2"
proof -
  let ?r = "snd (rd_getdel R (ticket_key t) (w_redis w))"
  let ?w = "w\<lparr>w_redis := ?r\<rparr>"
  have redeem: "run (redeem_ticket R t) w = (Inr (Some u), ?w)"
    using assms(1,4) by (auto simp: run_redeem_ticket)
  have r: "rd_up R ?r" "rd_view R ?r = (store R w)\<lparr>entries := (entries (store R w))(ticket_key t := None)\<rparr>"
    using assms(1) by (simp_all add: up_simps redis_docs)
  obtain conn w1 where enter: "run (enter R W cfg x u) ?w = (Inr conn, w1)" "redis_up R w1"
    by (rule run_enter [of ?w x cfg u]) (use r(1) assms(2,3) in simp_all)
  obtain res w2 where serve: "run (serve R D W V cfg x u ms conn) w1 = (res, w2)" by fastforce
  have up: "redis_up R w2"
    using obeys_run [OF keeping.steps_axioms obeys_serve(1)] serve enter(2) by (metis keeping_def snd_conv)
  obtain w' where leave: "run (leave R (instance_id cfg) u) w2 = (Inr (), w')"
    by (rule run_leave [OF up, of "instance_id cfg" u]) (rule that)
  show ?thesis
    by (intro that [of ?r conn w1 w2 w'])
      (use redeem r enter serve leave up in \<open>simp_all add: websocket_endpoint_def\<close>)
qed

text \<open>Nothing of a connection is left behind.\<close>

lemma endpoint_leaves:
  fixes w :: "('r, 'd, 'w) world" and ms V
  assumes "redis_up R w" "fst (ws_accept W x (w_ws w)) = Some ()" "valid_settings cfg" "value_of (store R w) (ticket_key t) = Some u"
  defines "w' \<equiv> snd (run (websocket_endpoint R D W V cfg x t ms) w)"
  shows "socket_of w' (instance_id cfg) u = None" "registered R w' u = None"
    "entries (store R w') (presence_key u) = None" "redis_up R w'"
proof -
  obtain w2 where w2: "redis_up R w2" "w' = snd (run (leave R (instance_id cfg) u) w2)"
    by (rule run_endpoint [OF assms(1-4), of V ms]) (simp add: w'_def)
  obtain r where "w' = upd_gateway (instance_id cfg) (\<lambda>g. set_connections (AList.delete u (connections g)) g) (w2\<lparr>w_redis := r\<rparr>)"
    "rd_up R r" "entries (rd_view R r) = (entries (store R w2))(registry_key u := None, presence_key u := None)"
    by (rule run_leave [OF w2(1), of "instance_id cfg" u]) (simp add: w2(2))
  then show "socket_of w' (instance_id cfg) u = None" "registered R w' u = None"
    "entries (store R w') (presence_key u) = None" "redis_up R w'"
    by (simp_all add: delete_conv')
qed

lemma those_Some: "those xs = Some ys \<Longrightarrow> xs = map Some ys"
  by (induction xs arbitrary: ys) (auto split: option.splits)

lemma those_map:
  "(\<And>x. x \<in> set xs \<Longrightarrow> f x \<noteq> None) \<Longrightarrow> those (map f xs) = Some (map (\<lambda>x. the (f x)) xs)"
proof (induction xs)
  case (Cons x xs)
  from Cons.prems [of x] obtain y where "f x = Some y" by auto
  with Cons show ?case by simp
qed simp

lemma run_send_backlog:
  fixes w :: "('r, 'd, 'w) world"
  assumes "ready R D w" "ws_up W (w_ws w) x" "py_UUID u = Some uid" "0 \<le> lim"
    and "\<forall>n\<in>set (notifications (data D w)). n_user_id n = uid \<longrightarrow> is_object (n_payload n)"
  defines "rows \<equiv> take (nat lim) (sort_rows CreatedAsc (scan (data D w)
      (filter (matches [UserIdIs uid, ReadAtIsNull]) (notifications (data D w)))))"
  obtains es w' where "run (send_backlog D W V i x u lim) w = (Inr (), w')"
    "those (map envelope_of_row rows) = Some es"
    "wires W w' = snd (doc_send x (dump_BacklogMessage V es) (wires W w))" "ready R D w'"
    "data D w' = data D w" "w_redis w' = w_redis w" "\<And>y. ws_up W (w_ws w') y = ws_up W (w_ws w) y"
    "\<And>j. connections (w_gateway w' j) = connections (w_gateway w j)"
proof -
  have up: "db_up D (w_db w)" "idle (data D w)" using assms(1) by (simp_all add: ready_def)
  let ?es = "map (\<lambda>row. the (envelope_of_row row)) rows"
  have "set rows \<subseteq> set (sort_rows CreatedAsc (scan (data D w)
      (filter (matches [UserIdIs uid, ReadAtIsNull]) (notifications (data D w)))))"
    unfolding rows_def by (rule set_take_subset)
  also have "\<dots> = set (filter (matches [UserIdIs uid, ReadAtIsNull]) (notifications (data D w)))"
    using mset_eq_setD [OF scan_law] by simp
  finally have "\<forall>n\<in>set rows. is_object (n_payload n)" using assms(5) by auto
  then have es: "those (map envelope_of_row rows) = Some ?es"
    by (intro those_map) (simp add: envelope_of_row_def)
  obtain d where d: "run (get_session D i (\<lambda>s. get_unread_backlog D s uid lim)) w = (Inr rows, (opened i w)\<lparr>w_db := d\<rparr>)"
    "db_view D d = data D w" "db_up D d"
    using session_backlog [OF up assms(4), of i uid] unfolding rows_def by metis
  let ?w = "(opened i w)\<lparr>w_db := d\<rparr>" and ?frame = "dump_BacklogMessage V ?es"
  have send: "fst (ws_send_json W x ?frame (w_ws w)) = Some ()"
    "ws_view W (snd (ws_send_json W x ?frame (w_ws w))) = snd (doc_send x ?frame (wires W w))"
    using assms(2) by (simp_all add: ws_up_simps) (simp add: doc_send_def)
  show ?thesis
    by (rule that [of "?w\<lparr>w_ws := snd (ws_send_json W x ?frame (w_ws w))\<rparr>" ?es])
      (use d es send assms(1,3) in \<open>simp_all add: send_backlog_def ready_def peers\<close>)
qed

end

text \<open>A connection that is being served: the backlog is sent, and it waits for the client.\<close>

definition serving ::
  "'r redis \<Rightarrow> 'd database \<Rightarrow> 'w websockets \<Rightarrow> pydantic \<Rightarrow> settings \<Rightarrow> nat \<Rightarrow> string \<Rightarrow> inbound list \<Rightarrow> string \<Rightarrow>
    ('r, 'd, 'w, unit) task" where
  "serving R D W V cfg x u ms conn =
     try_finally
       (try_except (receive_loop R D W V cfg x u conn ms)
         (except_only WebSocketDisconnect (log_line (instance_id cfg) (Disconnected u))))
       (leave R (instance_id cfg) u)"

lemma serving_waits: "\<exists>f c. serving R D W V cfg x u ms conn = Await f c"
  by (cases ms) (simp_all add: serving_def suspend_def io_def)

lemma serving_settled: "settle (serving R D W V cfg x u ms conn) w = (serving R D W V cfg x u ms conn, w)"
  using serving_waits [of R D W V cfg x u ms conn] by auto

lemma ticket_key_distinct [simp]:
  "ticket_key t \<noteq> registry_key u" "ticket_key t \<noteq> presence_key u" "ticket_key t \<noteq> last_seen_key u"
  "ticket_key t \<noteq> liveness_key g" "ticket_key t \<noteq> dedup_key n" "ticket_key t \<noteq> rate_limit_key c"
  "rate_limit_key c \<noteq> ticket_key t"
  by (simp_all add: ticket_key_def registry_key_def presence_key_def last_seen_key_def liveness_key_def
      dedup_key_def rate_limit_key_def)

context platform
begin

lemma leads_serving:
  fixes w :: "('r, 'd, 'w) world"
  assumes "ready R D w" "ws_up W (w_ws w) x" "valid_settings cfg" "value_of (store R w) (ticket_key t) = Some u"
    and "py_UUID u = Some uid"
    and "\<forall>n\<in>set (notifications (data D w)). n_user_id n = uid \<longrightarrow> is_object (n_payload n)"
  obtains conn w' where "leads (websocket_endpoint R D W V cfg x t ms, w) (serving R D W V cfg x u ms conn, w')"
    "ready R D w'" "data D w' = data D w" "\<And>y. ws_up W (w_ws w') y = ws_up W (w_ws w) y"
    "accepted (wires W w') = (accepted (wires W w))(x := True)" "close_frame (wires W w') = close_frame (wires W w)"
    "connections (w_gateway w' (instance_id cfg)) = AList.update u x (connections (w_gateway w (instance_id cfg)))"
    "\<And>s. s \<noteq> t \<Longrightarrow> ticket_entry R w' s = ticket_entry R w s"
proof -
  have up: "redis_up R w" using assms(1) by (simp add: ready_def)
  have lim: "0 \<le> backlog_limit cfg" using assms(3) by (simp add: valid_settings_def)
  let ?r = "snd (rd_getdel R (ticket_key t) (w_redis w))"
  let ?w = "w\<lparr>w_redis := ?r\<rparr>"
  have redeem: "run (redeem_ticket R t) w = (Inr (Some u), ?w)" using up assms(4) by (auto simp: run_redeem_ticket)
  have r: "redis_up R ?w" "rd_view R ?r = (store R w)\<lparr>entries := (entries (store R w))(ticket_key t := None)\<rparr>"
    using up by (simp_all add: up_simps redis_docs)
  have peer: "fst (ws_accept W x (w_ws ?w)) = Some ()" using accepts assms(2) by simp
  obtain conn w1 where w1: "run (enter R W cfg x u) ?w = (Inr conn, w1)"
    "redis_up R w1" "w_db w1 = w_db w" "\<And>y. ws_up W (w_ws w1) y = ws_up W (w_ws w) y"
    "wires W w1 = snd (doc_accept x (wires W w))"
    "w_gateway w1 = (w_gateway w)(instance_id cfg :=
       set_connections (AList.update u x (connections (w_gateway w (instance_id cfg)))) (w_gateway w (instance_id cfg)))"
    "entries (store R w1) = (entries (store R ?w))
       (registry_key u \<mapsto> (instance_id cfg, Some (1000 * nat (presence_ttl_seconds cfg))),
        presence_key u \<mapsto> (''online'', Some (1000 * nat (presence_ttl_seconds cfg))),
        last_seen_key u \<mapsto> (isoformat (w_now w), None))"
    by (rule run_enter [OF r(1) peer assms(3), of u]) (simp add: that)
  have ready: "ready R D w1" "ws_up W (w_ws w1) x" using w1 assms(1,2) by (simp_all add: ready_def)
  have objects: "\<forall>n\<in>set (notifications (data D w1)). n_user_id n = uid \<longrightarrow> is_object (n_payload n)"
    using w1(3) assms(6) by simp
  obtain es w2 where w2: "run (send_backlog D W V (instance_id cfg) x u (backlog_limit cfg)) w1 = (Inr (), w2)"
    "wires W w2 = snd (doc_send x (dump_BacklogMessage V es) (wires W w1))" "ready R D w2"
    "data D w2 = data D w1" "w_redis w2 = w_redis w1" "\<And>y. ws_up W (w_ws w2) y = ws_up W (w_ws w1) y"
    "\<And>j. connections (w_gateway w2 j) = connections (w_gateway w1 j)"
    by (rule run_send_backlog [OF ready assms(5) lim objects, of V "instance_id cfg"]) (rule that)
  let ?enter = "\<lambda>u. await (enter R W cfg x u) (\<lambda>conn. try_finally (serve R D W V cfg x u ms conn) (leave R (instance_id cfg) u))"
  have l1: "leads (websocket_endpoint R D W V cfg x t ms, w) (?enter u, ?w)"
    using leads_await [OF redeem, of "\<lambda>v. case v of None \<Rightarrow> ws_io (ws_close W x 1008 ''Invalid or expired ticket'') | Some u \<Rightarrow> ?enter u"]
    by (simp add: websocket_endpoint_def)
  have l2: "leads (?enter u, ?w) (try_finally (serve R D W V cfg x u ms conn) (leave R (instance_id cfg) u), w1)"
    by (rule leads_await [OF w1(1)])
  have l3: "leads (try_finally (serve R D W V cfg x u ms conn) (leave R (instance_id cfg) u), w1)
      (serving R D W V cfg x u ms conn, w2)"
    unfolding serve_def serving_def
    by (rule leads_try_finally, rule leads_try_except, rule leads_await, rule w2(1))
  show ?thesis
    by (rule that [OF leads_trans [OF leads_trans [OF l1 l2] l3]]) (use w1 w2 r(2) in \<open>simp_all add: doc_accept_def doc_send_def\<close>)
qed

text \<open>Two connections of one user: the end of the first takes the entries of the second away.\<close>

lemma reconnect_race:
  fixes w :: "('r, 'd, 'w) world"
  assumes "ready R D w" "valid_settings cfg" "ws_up W (w_ws w) x1" "ws_up W (w_ws w) x2"
    and "value_of (store R w) (ticket_key t1) = Some u" "value_of (store R w) (ticket_key t2) = Some u" "t1 \<noteq> t2"
    and "py_UUID u = Some uid"
    and "\<forall>n\<in>set (notifications (data D w)). n_user_id n = uid \<longrightarrow> is_object (n_payload n)"
  shows "\<exists>conn w'. reachable {websocket_endpoint R D W V cfg x1 t1 [], websocket_endpoint R D W V cfg x2 t2 ms} w
      ([serving R D W V cfg x2 u ms conn, Return ()], w') \<and>
    accepted (wires W w') x2 \<and> close_frame (wires W w') = close_frame (wires W w) \<and>
    socket_of w' (instance_id cfg) u = None \<and> registered R w' u = None \<and> entries (store R w') (presence_key u) = None"
proof -
  let ?P = "{websocket_endpoint R D W V cfg x1 t1 [], websocket_endpoint R D W V cfg x2 t2 ms}"
  obtain conn1 w1 where w1: "leads (websocket_endpoint R D W V cfg x1 t1 [], w) (serving R D W V cfg x1 u [] conn1, w1)"
    "ready R D w1" "data D w1 = data D w" "\<And>y. ws_up W (w_ws w1) y = ws_up W (w_ws w) y"
    "close_frame (wires W w1) = close_frame (wires W w)" "\<And>s. s \<noteq> t1 \<Longrightarrow> ticket_entry R w1 s = ticket_entry R w s"
    by (rule leads_serving [OF assms(1,3,2,5,8,9), of V "[]"]) (rule that)
  have later: "ws_up W (w_ws w1) x2" "value_of (store R w1) (ticket_key t2) = Some u"
    "\<forall>n\<in>set (notifications (data D w1)). n_user_id n = uid \<longrightarrow> is_object (n_payload n)"
    using w1 assms(4,6,7,9) by simp_all
  obtain conn2 w2 where w2: "leads (websocket_endpoint R D W V cfg x2 t2 ms, w1) (serving R D W V cfg x2 u ms conn2, w2)"
    "ready R D w2" "accepted (wires W w2) = (accepted (wires W w1))(x2 := True)" "close_frame (wires W w2) = close_frame (wires W w1)"
    by (rule leads_serving [OF w1(2) later(1) assms(2) later(2) assms(8) later(3), of V ms]) (rule that)
  let ?w = "upd_gateway (instance_id cfg) (\<lambda>g. g\<lparr>log := log g @ [Disconnected u]\<rparr>) w2"
  have up: "redis_up R ?w" using w2(2) by (simp add: ready_def)
  obtain r where r: "run (leave R (instance_id cfg) u) ?w =
      (Inr (), upd_gateway (instance_id cfg) (\<lambda>g. set_connections (AList.delete u (connections g)) g) (?w\<lparr>w_redis := r\<rparr>))"
    "entries (rd_view R r) = (entries (store R ?w))(registry_key u := None, presence_key u := None)"
    by (rule run_leave [OF up, of "instance_id cfg" u]) (rule that)
  let ?w' = "upd_gateway (instance_id cfg) (\<lambda>g. set_connections (AList.delete u (connections g)) g) (?w\<lparr>w_redis := r\<rparr>)"
  have "run (serving R D W V cfg x1 u [] conn1) w2 = (Inr (), ?w')"
    using r(1) by (simp add: serving_def except_only_def)
  then have last: "leads (serving R D W V cfg x1 u [] conn1, w2) (Return (), ?w')" by (rule leads_return)
  obtain f c where wait: "serving R D W V cfg x1 u [] conn1 = Await f c" using serving_waits by blast
  have "reachable ?P w ([serving R D W V cfg x1 u [] conn1], w1)"
    by (rule started_reachable [OF _ reachable.initial w1(1) serving_settled]) simp
  then have "reachable ?P w ([serving R D W V cfg x2 u ms conn2, serving R D W V cfg x1 u [] conn1], w2)"
    by (rule started_reachable [OF _ _ w2(1) serving_settled, rotated]) simp
  from resumed_reachable [OF this, of 1 f c "Return ()" ?w'] last wait
  have "reachable ?P w ([serving R D W V cfg x2 u ms conn2, Return ()], ?w')" by simp
  then show ?thesis
    by (intro exI [of _ conn2] exI [of _ ?w']) (use r(2) w1(5) w2(3,4) in \<open>simp add: delete_conv'\<close>)
qed

text \<open>The first frame of a connection.\<close>

lemma first_frame:
  fixes w :: "('r, 'd, 'w) world" and V ms
  assumes "ready R D w" "ws_up W (w_ws w) x" "valid_settings cfg" "value_of (store R w) (ticket_key t) = Some u"
    and "py_UUID u = Some uid"
    and "\<forall>n\<in>set (notifications (data D w)). n_user_id n = uid \<longrightarrow> is_object (n_payload n)"
  defines "rows \<equiv> take (nat (backlog_limit cfg)) (sort_rows CreatedAsc (scan (data D w)
      (filter (matches [UserIdIs uid, ReadAtIsNull]) (notifications (data D w)))))"
    and "w' \<equiv> snd (run (websocket_endpoint R D W V cfg x t ms) w)"
  shows "\<exists>es fs. those (map envelope_of_row rows) = Some es \<and>
    frames (wires W w') x = frames (wires W w) x @ dump_BacklogMessage V es # fs"
proof -
  have up: "redis_up R w" using assms(1) by (simp add: ready_def)
  have lim: "0 \<le> backlog_limit cfg" using assms(3) by (simp add: valid_settings_def)
  obtain r conn w1 w2 where fin: "run (enter R W cfg x u) (w\<lparr>w_redis := r\<rparr>) = (Inr conn, w1)" "rd_up R r"
    "snd (run (serve R D W V cfg x u ms conn) w1) = w2" "snd (run (leave R (instance_id cfg) u) w2) = w'"
    by (rule run_endpoint [OF up accepts [OF assms(2)] assms(3,4), of V ms]) (simp add: that w'_def)
  have r: "redis_up R (w\<lparr>w_redis := r\<rparr>)" "fst (ws_accept W x (w_ws (w\<lparr>w_redis := r\<rparr>))) = Some ()"
    using fin(2) accepts [OF assms(2)] by simp_all
  have w1: "redis_up R w1 \<and> w_db w1 = w_db w \<and> ws_up W (w_ws w1) x \<and> wires W w1 = snd (doc_accept x (wires W w))"
    by (rule run_enter [OF r assms(3), of u]) (use fin(1) assms(2) in simp)
  then have ready: "ready R D w1" "ws_up W (w_ws w1) x"
    and objects: "\<forall>n\<in>set (notifications (data D w1)). n_user_id n = uid \<longrightarrow> is_object (n_payload n)"
    using assms(1,6) by (simp_all add: ready_def)
  obtain es v where v: "run (send_backlog D W V (instance_id cfg) x u (backlog_limit cfg)) w1 = (Inr (), v)"
    "those (map envelope_of_row rows) = Some es"
    "wires W v = snd (doc_send x (dump_BacklogMessage V es) (wires W w1))"
    by (rule run_send_backlog [OF ready assms(5) lim objects, of V "instance_id cfg"])
      (rule that, use w1 in \<open>simp_all add: rows_def\<close>)
  let ?rest = "try_except (receive_loop R D W V cfg x u conn ms)
      (except_only WebSocketDisconnect (log_line (instance_id cfg) (Disconnected u)))"
  have "obeys (sends W) ?rest"
    by (rule behaves_obeys [OF _ steps_sends])
      (auto simp: except_only_Some intro!: sent.app_rules sent.behaves_receive_loop)
  then have "sends W v (snd (run ?rest v))" by (rule obeys_run [OF steps_sends])
  moreover have "snd (run ?rest v) = w2" using fin(3) v(1) by (simp add: serve_def)
  moreover have "wires W w' = wires W w2" using leave_frame(2) fin(4) by metis
  ultimately obtain fs where "frames (wires W w') x = frames (wires W v) x @ fs" by (auto simp: sends_def)
  then show ?thesis using v(2,3) w1 by (auto simp: doc_send_def doc_accept_def)
qed

text \<open>Which rows it carries, as a page of the unread ones.\<close>

lemma backlog_page:
  fixes w :: "('r, 'd, 'w) world" and V ms
  assumes "ready R D w" "ws_up W (w_ws w) x" "valid_settings cfg" "value_of (store R w) (ticket_key t) = Some u"
    and "py_UUID u = Some uid"
    and "\<forall>n\<in>set (notifications (data D w)). n_user_id n = uid \<longrightarrow> is_object (n_payload n)"
  defines "unread \<equiv> filter (\<lambda>n. n_user_id n = uid \<and> n_read_at n = None) (notifications (data D w))"
    and "w' \<equiv> snd (run (websocket_endpoint R D W V cfg x t ms) w)"
  obtains rows es fs where "sorted (map n_created_at rows)" "length rows = min (nat (backlog_limit cfg)) (length unread)"
    "mset rows \<subseteq># mset unread" "\<forall>m\<in>set unread - set rows. \<forall>n\<in>set rows. n_created_at n \<le> n_created_at m"
    "those (map envelope_of_row rows) = Some es"
    "frames (wires W w') x = frames (wires W w) x @ dump_BacklogMessage V es # fs"
proof -
  let ?ys = "sort_rows CreatedAsc (scan (data D w) (filter (matches [UserIdIs uid, ReadAtIsNull]) (notifications (data D w))))"
  have "filter (matches [UserIdIs uid, ReadAtIsNull]) (notifications (data D w)) = unread"
    by (simp add: unread_def)
  then have "mset ?ys = mset unread" using scan_law by simp
  note page = first_rows [OF this sorted_sort_rows(1), where k = "nat (backlog_limit cfg)"]
  from first_frame [OF assms(1-6), of V ms, folded w'_def] page that show ?thesis by blast
qed

text \<open>A row is in it when fewer unread rows than fit are as old.\<close>

lemma in_backlog:
  fixes w :: "('r, 'd, 'w) world" and V ms
  assumes "ready R D w" "ws_up W (w_ws w) x" "valid_settings cfg" "value_of (store R w) (ticket_key t) = Some u"
    and "py_UUID u = Some uid"
    and "\<forall>n\<in>set (notifications (data D w)). n_user_id n = uid \<longrightarrow> is_object (n_payload n)"
    and "n \<in> set (notifications (data D w))" "n_user_id n = uid" "n_read_at n = None"
    and "length (filter (\<lambda>m. m \<noteq> n \<and> n_user_id m = uid \<and> n_read_at m = None \<and> n_created_at m \<le> n_created_at n)
      (notifications (data D w))) < nat (backlog_limit cfg)"
  obtains es fs e where
    "frames (wires W (snd (run (websocket_endpoint R D W V cfg x t ms) w))) x =
       frames (wires W w) x @ dump_BacklogMessage V es # fs"
    "e \<in> set es" "envelope_of_row n = Some e"
proof -
  let ?unread = "filter (\<lambda>n. n_user_id n = uid \<and> n_read_at n = None) (notifications (data D w))"
  obtain rows es fs where rows: "length rows = min (nat (backlog_limit cfg)) (length ?unread)"
    "mset rows \<subseteq># mset ?unread" "\<forall>m\<in>set ?unread - set rows. \<forall>n\<in>set rows. n_created_at n \<le> n_created_at m"
    and es: "those (map envelope_of_row rows) = Some es"
    "frames (wires W (snd (run (websocket_endpoint R D W V cfg x t ms) w))) x =
       frames (wires W w) x @ dump_BacklogMessage V es # fs"
    by (rule backlog_page [OF assms(1-6), of V ms])
  have n: "n \<in> set ?unread" using assms(7-9) by simp
  have "n \<in> set rows"
  proof (rule ccontr)
    assume out: "n \<notin> set rows"
    let ?older = "filter (\<lambda>m. m \<noteq> n \<and> n_created_at m \<le> n_created_at n) ?unread"
    have "filter (\<lambda>m. m \<noteq> n \<and> n_created_at m \<le> n_created_at n) rows = rows"
      using out n rows(3) by (intro filter_True) auto
    then have "mset rows \<subseteq># mset ?older"
      using multiset_filter_mono [OF rows(2), of "\<lambda>m. m \<noteq> n \<and> n_created_at m \<le> n_created_at n"]
      by (simp flip: mset_filter)
    from size_mset_mono [OF this] have "length rows \<le> length ?older" by (simp only: size_mset)
    also have "?older = filter (\<lambda>m. m \<noteq> n \<and> n_user_id m = uid \<and> n_read_at m = None \<and> n_created_at m \<le> n_created_at n)
        (notifications (data D w))"
      unfolding filter_filter by (rule filter_cong) auto
    also note assms(10)
    finally have "length rows = length ?unread" using rows(1) by simp
    then have "\<not> mset rows \<subset># mset ?unread" 
      using mset_subset_size [of "mset rows" "mset ?unread"] by (metis less_irrefl size_mset)
    then have "mset rows = mset ?unread" using rows(2) by (simp add: subset_mset.less_le)
    with n out show False by (metis set_mset_mset)
  qed
  then have "envelope_of_row n \<in> Some ` set es"
    using those_Some [OF es(1)] by (metis image_eqI list.set_map)
  with es(2) that show ?thesis by auto
qed

end

text \<open>A read receipt, from the message to the tables.\<close>

context database_service
begin

lemma run_mark_read_callback:
  fixes w :: "('r, 'd, 'w) world"
  assumes "db_up D (w_db w)" "idle (data D w)" "tables_ok (data D w)" "py_UUID u = Some uid"
    and "b = owned (data D w) i uid"
  obtains w' where "run (mark_read_callback D g i u t) w = (Inr (), w')"
    "data D w' = (if b
       then with_receipt i uid t (with_assigned [NotificationIdIs i, UserIdIs uid] (SetReadAt t) (data D w))
       else data D w)"
    "read_receipts_recorded_total (w_gateway w' g) =
       (if b then Suc (read_receipts_recorded_total (w_gateway w g)) else read_receipts_recorded_total (w_gateway w g))"
proof -
  obtain d where d: "run (get_session D g (\<lambda>s. mark_read D s i uid t)) w = (Inr b, (opened g w)\<lparr>w_db := d\<rparr>)"
    "db_view D d = (if b
       then with_receipt i uid t (with_assigned [NotificationIdIs i, UserIdIs uid] (SetReadAt t) (data D w))
       else data D w)"
    by (rule session_mark_read [OF assms(1-3), of g i uid t, folded assms(5)]) (rule that)
  let ?h = "\<lambda>g. g\<lparr>read_receipts_recorded_total := Suc (read_receipts_recorded_total g)\<rparr>"
  let ?w = "(opened g w)\<lparr>w_db := d\<rparr>"
  show ?thesis
    by (rule that [of "if b then upd_gateway g ?h ?w else ?w"])
      (use d assms(4) in \<open>simp_all add: mark_read_callback_def\<close>)
qed

end

lemma receipts_total_counted:
  "read_receipts_recorded_total (w_gateway (snd (run (count_message i t) w)) j) = read_receipts_recorded_total (w_gateway w j)"
  by (cases "i = j") (simp_all add: count_message_def)

section \<open>Properties\<close>

text \<open>
  C26. Without a valid ticket nothing happens: for a ticket that is unknown, used or expired the
  socket is never accepted and no frame is sent, no store and no process's memory changes,
  whatever fails; and when Redis and the peer are there, it is closed with code 1008.
\<close>

theorem websocket_rejects_bad_ticket:
  assumes "redis_service R" "websocket_service W" "ticket_entry R w t = None"
    and "run (websocket_endpoint R D W V cfg x t ms) w = (r, w')"
  shows "w_gateway w' = w_gateway w \<and> w_db w' = w_db w \<and> entries (store R w') = entries (store R w) \<and>
    accepted (wires W w') = accepted (wires W w) \<and> frames (wires W w') = frames (wires W w) \<and>
    (redis_up R w \<longrightarrow> ws_up W (w_ws w) x \<longrightarrow>
       r = Inr () \<and> close_frame (wires W w') x = Some (1008, ''Invalid or expired ticket''))"
proof -
  let ?g = "rd_getdel R (ticket_key t) (w_redis w)" and ?c = "ws_close W x 1008 ''Invalid or expired ticket'' (w_ws w)"
  have none: "fst ?g = Some v \<Longrightarrow> v = None" for v
    using realises_Some(1) [OF redis_service.getdel_law [OF assms(1)], of "ticket_key t" "w_redis w" v] assms(3)
    by (simp add: redis_docs)
  have effect: "entries (rd_view R (snd ?g)) = entries (store R w)"
    using realises_effect [OF redis_service.getdel_law [OF assms(1)], of "ticket_key t" "w_redis w"] assms(3)
    by (auto simp: redis_docs)
  have close: "accepted (ws_view W (snd ?c)) = accepted (wires W w) \<and> frames (ws_view W (snd ?c)) = frames (wires W w)"
    using realises_effect [OF websocket_service.close_law [OF assms(2)], of x 1008 "''Invalid or expired ticket''" "w_ws w"]
    by (auto simp: doc_close_socket_def)
  have up: "redis_up R w \<Longrightarrow> fst ?g = Some None"
    using realises_up(1) [OF redis_service.getdel_law [OF assms(1)], of "w_redis w" "ticket_key t"] assms(3)
    by (simp add: redis_docs)
  have peer: "ws_up W (w_ws w) x \<Longrightarrow> fst ?c = Some () \<and> close_frame (ws_view W (snd ?c)) x = Some (1008, ''Invalid or expired ticket'')"
    using realises_up(1,2) [OF websocket_service.close_law [OF assms(2)], of "w_ws w" x] by (simp add: doc_close_socket_def)
  show ?thesis
  proof (cases "fst ?g")
    case None
    with assms(4) effect up show ?thesis by (auto simp: websocket_endpoint_def redeem_ticket_def)
  next
    case (Some v)
    with none have "fst ?g = Some None" by simp
    with assms(4) effect close peer show ?thesis
      by (auto simp: websocket_endpoint_def redeem_ticket_def split: option.splits)
  qed
qed

theorem websocket_rejects_bad_ticket_witness:
  "close_frame (wires mem_websockets (snd (run (websocket_endpoint mem_redis mem_database mem_websockets std_pydantic
     default_settings 4 ''abc'' []) start_world))) 4 = Some (1008, ''Invalid or expired ticket'')"
  using websocket_rejects_bad_ticket [OF mem.redis_service_axioms memws.websocket_service_axioms _ prod.collapse [symmetric],
      of start_world "''abc''" mem_database std_pydantic default_settings 4 "[]"]
  by simp

text \<open>
  C9. A connection leaves nothing behind: whatever the client sends, however serving it ends (a
  disconnect, bad JSON, a binary frame, a failing transport or database), the user's socket, the
  registry entry and the presence are gone when the endpoint is through. This is for a connection
  whose ticket is good and whose \<open>accept\<close> is answered, with Redis up; of its later sends, and of the database, nothing is
  assumed.
\<close>

theorem websocket_leaves_nothing:
  assumes "redis_service R" "database_service D" "websocket_service W" "redis_up R w" "fst (ws_accept W x (w_ws w)) = Some ()"
    and "valid_settings cfg" "value_of (store R w) (ticket_key t) = Some u"
    and "w' = snd (run (websocket_endpoint R D W V cfg x t ms) w)"
  shows "socket_of w' (instance_id cfg) u = None \<and> registered R w' u = None \<and>
    entries (store R w') (presence_key u) = None"
proof -
  have "platform R D W" using assms(1-3) by (intro platform.intro stores.intro)
  from platform.endpoint_leaves [OF this assms(4-7), of V ms] assms(8) show ?thesis by simp
qed

lemma default_instance [simp]: "instance_id default_settings = ''instance-1''" "backlog_limit default_settings = 100"
  by (simp_all add: default_settings_def)

text \<open>A user with two tickets.\<close>

definition ticket_world :: "(rstate, dbstate, wstate \<times> nat list) world" where
  "ticket_world =
     snd (run (await (issue_ticket mem_redis 10 (uuid_str 7)) (\<lambda>_. issue_ticket mem_redis 10 (uuid_str 7))) sample_world)"

lemma token_simps: "w_token (mem_world t) n = ''t'' @ show_nat n"
  by (simp add: mem_world_def)

lemma ticket_world_facts:
  "value_of (store mem_redis ticket_world) (ticket_key ''t0'') = Some (uuid_str 7)"
  "value_of (store mem_redis ticket_world) (ticket_key ''t1'') = Some (uuid_str 7)"
  "w_db ticket_world = sample_db" "w_ws ticket_world = (empty_sockets, [])"
  "w_gateway ticket_world i = new_gateway" "w_now ticket_world = start_time"
  by (simp_all add: ticket_world_def mem.run_issue_ticket token_simps) (simp_all add: mem_redis_def show_nat.simps digit_char_def)

theorem websocket_leaves_nothing_witness:
  "socket_of (snd (run (websocket_endpoint mem_redis mem_database leaving_websockets std_pydantic default_settings 4 ''t0''
     [TextFrame ''{}'', BinaryFrame]) ticket_world)) ''instance-1'' (uuid_str 7) = None"
proof -
  have "fst (ws_accept leaving_websockets 4 (w_ws ticket_world)) = Some ()"
    by (simp add: leaving_websockets_def mem_websockets_def ticket_world_facts)
  from websocket_leaves_nothing [OF mem.redis_service_axioms memdb.database_service_axioms
      leaving.websocket_service_axioms _ this _ ticket_world_facts(1) HOL.refl, where cfg = default_settings
      and V = std_pydantic and ms = "[TextFrame ''{}'', BinaryFrame]"]
  show ?thesis by simp
qed

text \<open>
  C10. The first frame a connection sends is the backlog: the user's oldest unread notifications,
  oldest first, up to the limit, whatever the client does afterwards.
\<close>

theorem websocket_backlog_first:
  assumes "redis_service R" "database_service D" "websocket_service W" "ready R D w" "ws_up W (w_ws w) x"
    and "valid_settings cfg" "value_of (store R w) (ticket_key t) = Some u" "py_UUID u = Some uid"
    and "\<forall>n\<in>set (notifications (data D w)). n_user_id n = uid \<longrightarrow> is_object (n_payload n)"
    and "unread = filter (\<lambda>n. n_user_id n = uid \<and> n_read_at n = None) (notifications (data D w))"
    and "w' = snd (run (websocket_endpoint R D W V cfg x t ms) w)"
  shows "\<exists>rows es fs. sorted (map n_created_at rows) \<and>
    length rows = min (nat (backlog_limit cfg)) (length unread) \<and> mset rows \<subseteq># mset unread \<and>
    (\<forall>m\<in>set unread - set rows. \<forall>n\<in>set rows. n_created_at n \<le> n_created_at m) \<and>
    those (map envelope_of_row rows) = Some es \<and>
    frames (wires W w') x = frames (wires W w) x @ dump_BacklogMessage V es # fs"
proof -
  have "platform R D W" using assms(1-3) by (intro platform.intro stores.intro)
  then show ?thesis
    by (rule platform.backlog_page [OF _ assms(4-9), of V ms, folded assms(10,11)]) blast
qed

lemma sample_objects: "\<forall>n\<in>set (notifications (mem_view sample_db)). is_object (n_payload n)"
  by (simp add: sample_row_def)

lemma ticket_world_ready: "ready mem_redis mem_database ticket_world"
  by (simp add: ready_def ticket_world_facts)

theorem websocket_backlog_first_witness:
  "\<exists>es fs. length es = 2 \<and>
     frames (wires mem_websockets (snd (run (websocket_endpoint mem_redis mem_database mem_websockets std_pydantic
       default_settings 4 ''t0'' []) ticket_world))) 4 = dump_BacklogMessage std_pydantic es # fs"
proof -
  have length: "those (map f xs) = Some ys \<Longrightarrow> length ys = length xs"
    for f :: "notification \<Rightarrow> notification_envelope option" and xs ys
    by (induction xs arbitrary: ys) (auto split: option.splits)
  from websocket_backlog_first [OF mem.redis_service_axioms memdb.database_service_axioms
      memws.websocket_service_axioms ticket_world_ready _ valid_default_settings ticket_world_facts(1) _ _ HOL.refl HOL.refl,
      where x = 4 and V = std_pydantic and ms = "[]" and uid = 7]
  obtain rows es fs where "length rows = Suc (Suc 0)" "those (map envelope_of_row rows) = Some es"
    "frames (wires mem_websockets (snd (run (websocket_endpoint mem_redis mem_database mem_websockets std_pydantic
       default_settings 4 ''t0'' []) ticket_world))) 4 = dump_BacklogMessage std_pydantic es # fs"
    using sample_objects by (auto simp: ticket_world_facts empty_sockets_def)
  with length show ?thesis by (metis numeral_2_eq_2)
qed

text \<open>
  C25. A read receipt from a client within its rate limit: if the user owns the notification, its
  row gets the time of receipt and one receipt is recorded, for that user; if not, no table
  changes. Either way the client gets no reply.
\<close>

theorem receipt_message_marks_read:
  assumes "redis_service R" "database_service D" "pydantic_service V" "ready R D w" "valid_settings cfg"
    and "counts R conn w k" "count_of k < 2 ^ 63 - 1" "admits (rate_limit_messages cfg) k"
    and "py_UUID u = Some uid" "is_object raw" "obj_get raw ''type'' = Some (JStr ''read_receipt'')"
    and "obj_get raw ''notification_id'' = Some (JStr (uuid_str i))"
  shows "\<exists>w' r. run (message_router R D V cfg u conn raw) w = (Inr None, w') \<and> tables_ok (data D w') \<and>
    committed (data D w') = (if owned (data D w) i uid
      then marked i uid (w_now w) r (committed (data D w)) else committed (data D w)) \<and>
    rr_notification_id r = i \<and> rr_user_id r = uid \<and> rr_read_at r = w_now w"
proof -
  let ?w = "redis_service.counted R cfg conn raw w"
  have up: "redis_up R w" "db_up D (w_db w)" "idle (data D w)" "tables_ok (data D w)"
    using assms(4) by (simp_all add: ready_def)
  note c = redis_service.counted_facts [OF assms(1) up(1) assms(5-7), where raw = raw]
  have db: "db_up D (w_db ?w)" "idle (data D ?w)" "tables_ok (data D ?w)" using up c(3) by simp_all
  define b where "b = owned (data D ?w) i uid"
  obtain w' where w': "run (mark_read_callback D (instance_id cfg) i u (w_now w)) ?w = (Inr (), w')"
    "data D w' = (if b then with_receipt i uid (w_now w)
         (with_assigned [NotificationIdIs i, UserIdIs uid] (SetReadAt (w_now w)) (data D w)) else data D w)"
    using database_service.run_mark_read_callback [OF assms(2) db assms(9) b_def] c(3) by metis
  have "parse_ReadReceiptMessage V raw = Some i"
    using assms(10-12) pydantic_service.uuid_law [OF assms(3)]
    by (simp add: parse_ReadReceiptMessage_def type_is_def)
  then have "run (dispatch R V cfg (mark_read_callback D (instance_id cfg)) u raw) ?w = (Inr None, w')"
    using assms(11) w'(1) c(2) by (simp add: dispatch_def message_type_of_def)
  then have run: "run (message_router R D V cfg u conn raw) w = (Inr None, w')"
    using c(8) assms(8,10) by (simp add: message_router_def)
  let ?r = "\<lparr>rr_id = next_row (data D w), rr_notification_id = i, rr_user_id = uid, rr_read_at = w_now w\<rparr>"
  have "committed (data D w') = (if b then marked i uid (w_now w) ?r (committed (data D w)) else committed (data D w))"
    using w'(2) by (simp add: with_receipt_def with_assigned_def marked_def)
  moreover have "tables_ok (data D w')" using w'(2) tables_ok_keeps(3) [OF up(3,4)] up(4) by simp
  moreover have "b = owned (data D w) i uid" using b_def c(3) by simp
  ultimately show ?thesis using run by (intro exI [of _ w'] exI [of _ ?r]) simp
qed

definition receipt_message :: "uuid \<Rightarrow> json" where
  "receipt_message i = JObj [(''type'', JStr ''read_receipt''), (''notification_id'', JStr (uuid_str i))]"

theorem receipt_message_marks_read_witness:
  "\<exists>w'. run (message_router mem_redis mem_database std_pydantic default_settings (uuid_str 7) ''c'' (receipt_message 101))
      ticket_world = (Inr None, w') \<and>
    map n_read_at (notifications (data mem_database w')) = [Some start_time, None, Some start_time, None]"
proof -
  have "counts mem_redis ''c'' ticket_world None" "admits (rate_limit_messages default_settings) None"
    by (simp_all add: counts_def ticket_world_def mem.run_issue_ticket token_simps admits_def default_settings_def)
      (simp add: mem_redis_def)
  from receipt_message_marks_read [OF mem.redis_service_axioms memdb.database_service_axioms std.pydantic_service_axioms
      ticket_world_ready valid_default_settings this(1) _ this(2), where u = "uuid_str 7" and uid = 7
      and raw = "receipt_message 101" and i = 101]
  show ?thesis by (auto simp: receipt_message_def marked_def ticket_world_facts)
qed

text \<open>
  C27. A reconnection can lose its entries: when a user opens a second connection before the first
  has noticed its disconnect, the cleanup of the first removes the socket, registry entry and
  presence of the second, which stays open and is served on, unreachable for live delivery.
\<close>

theorem websocket_reconnect_race:
  assumes "redis_service R" "database_service D" "websocket_service W" "ready R D w"
    and "valid_settings cfg" "ws_up W (w_ws w) x1" "ws_up W (w_ws w) x2"
    and "value_of (store R w) (ticket_key t1) = Some u" "value_of (store R w) (ticket_key t2) = Some u" "t1 \<noteq> t2"
    and "py_UUID u = Some uid"
    and "\<forall>n\<in>set (notifications (data D w)). n_user_id n = uid \<longrightarrow> is_object (n_payload n)"
  shows "\<exists>conn w'. reachable {websocket_endpoint R D W V cfg x1 t1 [], websocket_endpoint R D W V cfg x2 t2 ms} w
      ([serving R D W V cfg x2 u ms conn, Return ()], w') \<and>
    accepted (wires W w') x2 \<and> close_frame (wires W w') = close_frame (wires W w) \<and>
    socket_of w' (instance_id cfg) u = None \<and> registered R w' u = None \<and> entries (store R w') (presence_key u) = None"
proof -
  have "platform R D W" using assms(1-3) by (intro platform.intro stores.intro)
  then show ?thesis by (rule platform.reconnect_race [OF _ assms(4-12)])
qed

theorem websocket_reconnect_race_witness:
  "\<exists>conn w'. reachable {websocket_endpoint mem_redis mem_database mem_websockets std_pydantic default_settings 4 ''t0'' [],
        websocket_endpoint mem_redis mem_database mem_websockets std_pydantic default_settings 5 ''t1'' []} ticket_world
      ([serving mem_redis mem_database mem_websockets std_pydantic default_settings 5 (uuid_str 7) [] conn, Return ()], w') \<and>
    accepted (wires mem_websockets w') 5 \<and> socket_of w' ''instance-1'' (uuid_str 7) = None"
  using websocket_reconnect_race [OF mem.redis_service_axioms memdb.database_service_axioms
      memws.websocket_service_axioms ticket_world_ready valid_default_settings _ _ ticket_world_facts(1,2),
      where ?x1.0 = 4 and ?x2.0 = 5 and V = std_pydantic and ms = "[]" and uid = 7]
    sample_objects
  by (auto simp: ticket_world_facts)

text \<open>
  C28. A registration that fails leaks the connection: the entries are made before the \<open>try\<close>
  statement, so when Redis refuses the registration the endpoint ends with the error while the
  process goes on holding, and counting, the socket.
\<close>

theorem websocket_registration_leaks:
  assumes "websocket_service W" "ws_up W (w_ws w) x"
    and "fst (rd_getdel R (ticket_key t) (w_redis w)) = Some (Some u)"
    and "fst (rd_set R (registry_key u) (instance_id cfg) (Some (presence_ttl_seconds cfg))
           (snd (rd_getdel R (ticket_key t) (w_redis w)))) = None"
  shows "\<exists>w'. run (websocket_endpoint R D W V cfg x t ms) w = (Inl RedisError, w') \<and>
    socket_of w' (instance_id cfg) u = Some x \<and>
    active_connections (w_gateway w' (instance_id cfg)) = length (connections (w_gateway w' (instance_id cfg)))"
  using assms(3,4) websocket_service.ws_up_simps(1) [OF assms(1,2)]
  by (auto simp: websocket_endpoint_def enter_def redeem_ticket_def uuid4_def register_def doc_accept_def
      set_connections_def update_conv')

text \<open>A Redis that answers reads but refuses writes.\<close>

definition readonly_redis :: "rstate redis" where
  "readonly_redis = mem_redis\<lparr>rd_set := (\<lambda>_ _ _ s. (None, s)), rd_up := (\<lambda>_. False)\<rparr>"

interpretation readonly: redis_service readonly_redis
  by unfold_locales (simp_all add: readonly_redis_def mem_redis_def realises_def prod_eq_iff)

theorem websocket_registration_leaks_witness:
  "\<exists>w'. run (websocket_endpoint readonly_redis mem_database mem_websockets std_pydantic default_settings 4 ''t0'' []) ticket_world
      = (Inl RedisError, w') \<and> socket_of w' ''instance-1'' (uuid_str 7) = Some 4"
  using websocket_registration_leaks [where R = readonly_redis, OF memws.websocket_service_axioms, where w = ticket_world and x = 4
      and cfg = default_settings and t = "''t0''" and u = "uuid_str 7" and D = mem_database and V = std_pydantic and ms = "[]"] ticket_world_facts(1)
  by (auto simp: ticket_world_facts readonly_redis_def mem_redis_def redis_docs)

end
