(* ===== verification/Auth_Api.thy ===== *)
theory Auth_Api
  imports Gateway
begin

text \<open>
  \<open>app/api/routes/auth.py\<close>: exchanging a bearer JWT for a WebSocket ticket.
\<close>

section \<open>The code\<close>

text \<open>Python's truth value of a JSON value.\<close>

fun py_truthy :: "json \<Rightarrow> bool" where
  "py_truthy JNull = False"
| "py_truthy (JBool b) = b"
| "py_truthy (JInt i) = (i \<noteq> 0)"
| "py_truthy (JFloat n k) = (n \<noteq> 0)"
| "py_truthy (JStr s) = (s \<noteq> [])"
| "py_truthy (JList xs) = (xs \<noteq> [])"
| "py_truthy (JObj m) = (m \<noteq> [])"
| "py_truthy _ = True"

text \<open>
  \<open>jwt.decode(token, key, algorithms)\<close> of PyJWT, a parameter: the claims, or \<open>None\<close> for an
  \<open>InvalidTokenError\<close>.
\<close>

type_synonym jwt = "string \<Rightarrow> string \<Rightarrow> string list \<Rightarrow> json option"

definition decode_user_id :: "jwt \<Rightarrow> settings \<Rightarrow> string \<Rightarrow> ('r, 'd, 'w, string) task" where
  "decode_user_id jwt_decode cfg credentials =
     (case jwt_decode credentials (jwt_secret_key cfg) [jwt_algorithm cfg] of
        None \<Rightarrow> Raise (HTTPException 401 ''Invalid or expired token'')
      | Some claims \<Rightarrow>
          (let user_id = (case obj_get claims ''sub'' of None \<Rightarrow> JNull | Some v \<Rightarrow> v) in
           if \<not> py_truthy user_id then Raise (HTTPException 401 ''Token missing subject claim'')
           else
             (case py_UUID (py_str user_id) of
                None \<Rightarrow> Raise (HTTPException 401 ''Token subject claim must be a UUID'')
              | Some _ \<Rightarrow> Return (py_str user_id))))"

record ws_ticket_response =
  wtr_ticket :: string
  wtr_expires_in :: int

definition issue_ws_ticket ::
  "'r redis \<Rightarrow> jwt \<Rightarrow> settings \<Rightarrow> string \<Rightarrow> ('r, 'd, 'w, ws_ticket_response) task" where
  "issue_ws_ticket R jwt_decode cfg credentials =
     await (decode_user_id jwt_decode cfg credentials) (\<lambda>user_id.
     await (issue_ticket R (ws_ticket_ttl_seconds cfg) user_id) (\<lambda>ticket.
     Return \<lparr>wtr_ticket = ticket, wtr_expires_in = ws_ticket_ttl_seconds cfg\<rparr>))"

section \<open>Who gets a ticket\<close>

text \<open>The subject a token is accepted for, and why one is refused.\<close>

definition accepted_subject :: "jwt \<Rightarrow> settings \<Rightarrow> string \<Rightarrow> string option" where
  "accepted_subject jwt_decode cfg credentials =
     Option.bind (jwt_decode credentials (jwt_secret_key cfg) [jwt_algorithm cfg]) (\<lambda>claims.
     Option.bind (obj_get claims ''sub'') (\<lambda>v.
       if py_truthy v \<and> is_user_id (py_str v) then Some (py_str v) else None))"

lemma run_decode_user_id:
  "\<exists>detail. run (decode_user_id jwt_decode cfg credentials) w =
     (case accepted_subject jwt_decode cfg credentials of
        Some u \<Rightarrow> (Inr u, w) | None \<Rightarrow> (Inl (HTTPException 401 detail), w))"
  by (auto simp: decode_user_id_def accepted_subject_def is_user_id_def Let_def split: option.splits)

section \<open>Properties\<close>

text \<open>
  C19. Only a token that verifies and whose subject is a UUID buys a ticket; the ticket is then
  redeemed for that very subject while it is younger than the lifetime that was announced, and for
  nobody after. Any other token is answered with 401 and leaves everything as it was.
\<close>

theorem ws_ticket_for_verified_subject:
  assumes "redis_service R" "redis_up R w" "valid_settings cfg"
  shows "(\<exists>detail. accepted_subject jwt_decode cfg credentials = None \<and>
        run (issue_ws_ticket R jwt_decode cfg credentials) w = (Inl (HTTPException 401 detail), w)) \<or>
    (\<exists>u resp w'. accepted_subject jwt_decode cfg credentials = Some u \<and> is_user_id u \<and>
        run (issue_ws_ticket R jwt_decode cfg credentials) w = (Inr resp, w') \<and>
        wtr_expires_in resp = ws_ticket_ttl_seconds cfg \<and>
        (\<forall>d. fst (run (redeem_ticket R (wtr_ticket resp)) (elapse R d w')) =
          Inr (if d < 1000 * nat (wtr_expires_in resp) then Some u else None)))"
proof -
  obtain detail where decode: "run (decode_user_id jwt_decode cfg credentials) w =
     (case accepted_subject jwt_decode cfg credentials of
        Some u \<Rightarrow> (Inr u, w) | None \<Rightarrow> (Inl (HTTPException 401 detail), w))"
    using run_decode_user_id by blast
  show ?thesis
  proof (cases "accepted_subject jwt_decode cfg credentials")
    case None
    with decode show ?thesis by (simp add: issue_ws_ticket_def)
  next
    case (Some u)
    let ?ttl = "ws_ticket_ttl_seconds cfg"
    have ttl: "0 < ?ttl" using assms(3) by (simp add: valid_settings_def)
    obtain t w' where issue: "run (issue_ticket R ?ttl u) w = (Inr t, w')"
      using redis_service.run_issue_ticket [OF assms(1,2) ttl] by blast
    have "run (issue_ws_ticket R jwt_decode cfg credentials) w = (Inr \<lparr>wtr_ticket = t, wtr_expires_in = ?ttl\<rparr>, w')"
      using decode Some issue by (simp add: issue_ws_ticket_def)
    moreover have "is_user_id u"
      using Some by (auto simp: accepted_subject_def bind_eq_Some_conv split: if_splits)
    ultimately show ?thesis
      using Some redis_service.redeem_issued [OF assms(1,2) ttl issue] by auto
  qed
qed

text \<open>A verifier that knows one token, and refuses the rest.\<close>

definition sample_jwt :: jwt where
  "sample_jwt token key algorithms =
     (if token = ''good'' then Some (JObj [(''sub'', JStr (uuid_str 7))]) else None)"

lemma default_ticket_ttl [simp]: "ws_ticket_ttl_seconds default_settings = 10"
  by (simp add: default_settings_def)

lemma uuid_str_nonempty: "uuid_str u \<noteq> []"
proof
  assume "uuid_str u = []"
  then have "py_UUID [] = Some u" by (metis py_UUID_str)
  then show False by (simp add: py_UUID_def strip_chars_def)
qed

lemma sample_subject: "accepted_subject sample_jwt cfg ''good'' = Some (uuid_str 7)"
  "accepted_subject sample_jwt cfg ''bad'' = None"
  by (simp_all add: accepted_subject_def sample_jwt_def uuid_str_nonempty)

theorem ws_ticket_for_verified_subject_witness:
  "\<exists>resp w'. run (issue_ws_ticket mem_redis sample_jwt default_settings ''good'') start_world = (Inr resp, w') \<and>
     fst (run (redeem_ticket mem_redis (wtr_ticket resp)) (elapse mem_redis 9999 w')) = Inr (Some (uuid_str 7))"
  using ws_ticket_for_verified_subject [OF mem.redis_service_axioms, of start_world default_settings sample_jwt "''good''"]
  by (auto simp: sample_subject)

text \<open>
  A user id that is a UUID in another spelling (upper case, braces, no hyphens) is accepted but
  kept as it is spelled: the connection is registered under that spelling, while notifications are
  looked up under the canonical one, so whether the user can be found live is unchanged by their
  connecting.
\<close>

theorem noncanonical_user_not_found:
  assumes "redis_service R" "websocket_service W" "redis_up R w" "ws_up W (w_ws w) x"
    and "valid_settings cfg" "py_UUID u = Some uid" "u \<noteq> uuid_str uid"
  shows "\<exists>conn w'. run (enter R W cfg x u) w = (Inr conn, w') \<and> socket_of w' (instance_id cfg) u = Some x \<and>
    value_of (store R w') (registry_key u) = Some (instance_id cfg) \<and>
    owner_of (store R w') uid = owner_of (store R w) uid"
proof -
  have "edge R W" using assms(1,2) by (rule edge.intro)
  then obtain conn w' where w': "run (enter R W cfg x u) w = (Inr conn, w')"
    "w_gateway w' = (w_gateway w)(instance_id cfg :=
       set_connections (AList.update u x (connections (w_gateway w (instance_id cfg)))) (w_gateway w (instance_id cfg)))"
    "entries (store R w') = (entries (store R w))
       (registry_key u \<mapsto> (instance_id cfg, Some (1000 * nat (presence_ttl_seconds cfg))),
        presence_key u \<mapsto> (''online'', Some (1000 * nat (presence_ttl_seconds cfg))),
        last_seen_key u \<mapsto> (isoformat (w_now w), None))"
    by (rule edge.run_enter [OF _ assms(3) websocket_service.accepts [OF assms(2,4)] assms(5), of u])
  have "liveness_key g \<noteq> presence_key u" "liveness_key g \<noteq> last_seen_key u" "registry_key v \<noteq> presence_key u"
      "registry_key v \<noteq> last_seen_key u" for g v
    by (simp_all add: presence_key_def last_seen_key_def liveness_key_def registry_key_def)
  then have "owner_of (store R w') uid = owner_of (store R w) uid"
    using assms(7) w'(3) by (auto simp: owner_of_def split: option.splits)
  then show ?thesis
    by (intro exI [of _ conn] exI [of _ w']) (use w' in \<open>simp add: update_conv'\<close>)
qed

theorem noncanonical_user_not_found_witness:
  "\<exists>conn w'. run (enter mem_redis mem_websockets default_settings 4 (hex_string 32 (unat (7::uuid)))) start_world = (Inr conn, w') \<and>
     owner_of (store mem_redis w') 7 = None"
  using noncanonical_user_not_found [OF mem.redis_service_axioms memws.websocket_service_axioms _ _ _ py_UUID_hex(1) py_UUID_hex(2),
      of start_world 4 default_settings 7]
  by (auto simp: owner_of_def)

end
