(* ===== verification/Log_Format.thy ===== *)
theory Log_Format
  imports World
begin

text \<open>
  \<open>app/core/logging_config.py\<close>: how a log record becomes a line of JSON, and the configuration of the
  root logger.
\<close>

section \<open>The code\<close>

text \<open>
  The attributes of \<open>logging.LogRecord("", 0, "", 0, "", (), None)\<close>, which the code asks for when it is loaded: the list
  is that of Python 3.11, the version the image is built with.
\<close>

definition reserved_attrs :: "string list" where
  "reserved_attrs =
     [''name'', ''msg'', ''args'', ''levelname'', ''levelno'', ''pathname'', ''filename'', ''module'',
      ''exc_info'', ''exc_text'', ''stack_info'', ''lineno'', ''funcName'', ''created'', ''msecs'',
      ''relativeCreated'', ''thread'', ''threadName'', ''processName'', ''process'']"

text \<open>
  A value in a record: one \<open>json.dumps\<close> prints, or an object it hands to \<open>default=str\<close>, with
  what \<open>str\<close> makes of it.
\<close>

datatype log_value = Plain json | Other string

fun encoded :: "log_value \<Rightarrow> json" where
  "encoded (Plain j) = j"
| "encoded (Other s) = JStr s"

text \<open>
  A record: the attributes the formatter names, its \<open>__dict__\<close> in order, and the text of
  its traceback, if it has one.
\<close>

record log_record =
  lr_created :: datetime
  lr_levelname :: string
  lr_name :: string
  lr_message :: string
  lr_dict :: "(string \<times> log_value) list"
  lr_exception :: "string option"

definition core_entry :: "string \<Rightarrow> log_record \<Rightarrow> (string \<times> json) list" where
  "core_entry i r =
     [(''timestamp'', JStr (isoformat (lr_created r))), (''level'', JStr (lr_levelname r)),
      (''logger'', JStr (lr_name r)), (''instance_id'', JStr i),
      (''message'', JStr (lr_message r))]"

text \<open>One round of the loop over the attributes.\<close>

definition add_attr :: "(string \<times> json) list \<Rightarrow> string \<times> log_value \<Rightarrow> (string \<times> json) list" where
  "add_attr entry kv =
     (if fst kv \<notin> set reserved_attrs \<and> fst kv \<notin> fst ` set entry
      then AList.update (fst kv) (encoded (snd kv)) entry else entry)"

definition log_entry :: "string \<Rightarrow> log_record \<Rightarrow> (string \<times> json) list" where
  "log_entry i r =
     (let entry = foldl add_attr (core_entry i r) (lr_dict r) in
      case lr_exception r of None \<Rightarrow> entry | Some text \<Rightarrow> AList.update ''exception'' (JStr text) entry)"

definition format_record :: "string \<Rightarrow> log_record \<Rightarrow> string" where
  "format_record i r = dumps (JObj (log_entry i r))"

text \<open>
  The root logger: the instance ids of its JSON handlers, and its level. \<open>setLevel\<close> refuses a
  name it does not know, after the handler has been installed.
\<close>

record root_logger =
  rl_handlers :: "string list"
  rl_level :: nat

definition level_number :: "string \<Rightarrow> nat option" where
  "level_number = map_of
     [(''CRITICAL'', 50), (''FATAL'', 50), (''ERROR'', 40), (''WARN'', 30), (''WARNING'', 30),
      (''INFO'', 20), (''DEBUG'', 10), (''NOTSET'', 0)]"

definition configure_logging :: "string \<Rightarrow> string \<Rightarrow> root_logger \<Rightarrow> (exn + unit) \<times> root_logger" where
  "configure_logging level i lg =
     (let lg = lg\<lparr>rl_handlers := []\<rparr>;
          lg = lg\<lparr>rl_handlers := rl_handlers lg @ [i]\<rparr> in
      case level_number level of
        None \<Rightarrow> (Inl ValueError, lg)
      | Some n \<Rightarrow> (Inr (), lg\<lparr>rl_level := n\<rparr>))"

section \<open>A line of text\<close>

text \<open>What \<open>json.dumps\<close> writes is printable ASCII, so it never breaks a line.\<close>

definition printable :: "char \<Rightarrow> bool" where
  "printable c \<longleftrightarrow> 32 \<le> (of_char c :: nat) \<and> (of_char c :: nat) \<le> 126"

lemma printable_digit [simp]: "d < 16 \<Longrightarrow> printable (digit_char d)"
  by (erule less_16_cases) (simp_all add: printable_def digit_char_def)

lemma printable_dec [simp]: "is_dec_digit c \<Longrightarrow> printable c"
  by (simp add: printable_def is_dec_digit_def)

lemma printable_numbers:
  "c \<in> set (show_nat n) \<Longrightarrow> printable c" "c \<in> set (show_int i) \<Longrightarrow> printable c"
  "c \<in> set (show_float i k) \<Longrightarrow> printable c" "c \<in> set (hex_string w n) \<Longrightarrow> printable c"
proof -
  show nat: "c \<in> set (show_nat n) \<Longrightarrow> printable c" for n
    by (simp add: show_nat_digits)
  show "c \<in> set (show_int i) \<Longrightarrow> printable c"
    using nat by (auto simp: show_int_def split: if_splits) (simp add: printable_def)
  show "c \<in> set (show_float i k) \<Longrightarrow> printable c"
    using nat by (auto simp: show_float_def show_frac_def split: if_splits) (simp_all add: printable_def)
  show "c \<in> set (hex_string w n) \<Longrightarrow> printable c"
    by (auto dest: hex_string_chars)
qed

lemma printable_escape: "c \<in> set (escape_char d) \<Longrightarrow> printable c"
proof -
  have special: "printable (CHR 0x22)" "printable (CHR 0x5C)" "printable (CHR ''b'')" "printable (CHR ''t'')"
    "printable (CHR ''n'')" "printable (CHR ''f'')" "printable (CHR ''r'')" "printable (CHR ''u'')"
    by (simp_all add: printable_def)
  assume "c \<in> set (escape_char d)"
  then consider "c = CHR 0x5C" | "c = d" "d = CHR 0x22 \<or> d = CHR 0x5C \<or> printable d"
    | "c \<in> {CHR ''b'', CHR ''t'', CHR ''n'', CHR ''f'', CHR ''r'', CHR ''u''}" | "c \<in> set (hex_string 4 (of_char d))"
    unfolding escape_char_def Let_def printable_def by (force split: if_splits)
  then show ?thesis using special by cases (auto dest: printable_numbers(4))
qed

lemma printable_quote: "c \<in> set (quote s) \<Longrightarrow> printable c"
  by (auto simp: quote_def dest: printable_escape) (simp_all add: printable_def)

lemma printable_dumps:
  "\<forall>c\<in>set (dumps v). printable c" "\<forall>c\<in>set (dumps_tail vs). printable c"
  "\<forall>c\<in>set (dumps_members m). printable c"
proof (induction v and vs and m rule: dumps_dumps_tail_dumps_members.induct)
qed (auto dest: printable_numbers printable_quote, simp_all add: printable_def)

section \<open>The entry\<close>

lemma map_of_add_attrs:
  "map_of (foldl add_attr entry kvs) k =
     (case map_of entry k of
        Some v \<Rightarrow> Some v
      | None \<Rightarrow> if k \<in> set reserved_attrs then None else map_option encoded (map_of kvs k))"
proof (induction kvs arbitrary: entry)
  case (Cons kv kvs)
  have "map_of (add_attr entry kv) k =
    (if k = fst kv \<and> k \<notin> set reserved_attrs \<and> map_of entry k = None then Some (encoded (snd kv)) else map_of entry k)"
    by (auto simp: add_attr_def update_conv' map_of_eq_None_iff)
  then show ?case by (cases kv) (simp add: Cons.IH split: option.splits)
qed (simp split: option.splits)

lemma add_attrs_wf:
  assumes "wf_json (JObj entry)" "list_all (\<lambda>(k, v). wf_json (encoded v)) kvs"
  shows "wf_json (JObj (foldl add_attr entry kvs))"
  using assms
proof (induction kvs arbitrary: entry)
  case (Cons kv kvs)
  then have "wf_json (JObj (add_attr entry kv))"
    by (auto simp: add_attr_def update_fresh split: prod.splits)
  with Cons show ?case by simp
qed simp

lemma update_wf: "wf_json (JObj entry) \<Longrightarrow> wf_json v \<Longrightarrow> wf_json (JObj (AList.update k v entry))"
proof -
  have "list_all (\<lambda>(k, v). wf_json v) (AList.update k v entry)"
    if "list_all (\<lambda>(k, v). wf_json v) entry" "wf_json v"
    using that by (induction entry) auto
  then show "wf_json (JObj entry) \<Longrightarrow> wf_json v \<Longrightarrow> wf_json (JObj (AList.update k v entry))"
    by (simp add: distinct_update)
qed

text \<open>The five fields every line has.\<close>

abbreviation core_names :: "string set" where
  "core_names \<equiv> {''timestamp'', ''level'', ''logger'', ''instance_id'', ''message''}"

lemma core_entry_facts:
  "wf_json (JObj (core_entry i r))" "map_of (core_entry i r) k = None \<longleftrightarrow> k \<notin> core_names"
  "''exception'' \<notin> core_names"
  by (auto simp: core_entry_def)

lemma map_of_log_entry:
  "k \<in> core_names \<Longrightarrow> map_of (log_entry i r) k = map_of (core_entry i r) k"
  "k \<notin> core_names \<Longrightarrow> k \<noteq> ''exception'' \<or> lr_exception r = None \<Longrightarrow> map_of (log_entry i r) k =
     (if k \<in> set reserved_attrs then None else map_option encoded (map_of (lr_dict r) k))"
  "lr_exception r = Some t \<Longrightarrow> map_of (log_entry i r) ''exception'' = Some (JStr t)"
proof -
  show "map_of (log_entry i r) k = map_of (core_entry i r) k" if "k \<in> core_names"
  proof -
    from that have "k \<noteq> ''exception''" using core_entry_facts(3) by metis
    moreover have "map_of (core_entry i r) k \<noteq> None" using that core_entry_facts(2) by metis
    then obtain v where "map_of (core_entry i r) k = Some v" by (rule not_None_eq [THEN iffD1, THEN exE])
    ultimately show ?thesis
      by (simp add: log_entry_def Let_def map_of_add_attrs update_conv' split: option.splits)
  qed
  show "map_of (log_entry i r) k =
      (if k \<in> set reserved_attrs then None else map_option encoded (map_of (lr_dict r) k))"
    if "k \<notin> core_names" "k \<noteq> ''exception'' \<or> lr_exception r = None"
    using that(2) core_entry_facts(2) [THEN iffD2, OF that(1)]
    by (auto simp: log_entry_def Let_def map_of_add_attrs update_conv' split: option.splits)
  show "lr_exception r = Some t \<Longrightarrow> map_of (log_entry i r) ''exception'' = Some (JStr t)"
    by (simp add: log_entry_def Let_def update_conv')
qed

lemma wf_log_entry:
  "list_all (\<lambda>(k, v). wf_json (encoded v)) (lr_dict r) \<Longrightarrow> wf_json (JObj (log_entry i r))"
  unfolding log_entry_def Let_def
  by (cases "lr_exception r")
    (auto simp del: wf_json.simps intro!: update_wf add_attrs_wf core_entry_facts(1), simp)

section \<open>Properties\<close>

text \<open>
  C38. A log line can be read back: it is one line of printable ASCII that parses to an object with the
  record's time, level, logger, instance and message, which no attribute of the record can
  override; every other attribute that is not Python's own, nor named \<open>exception\<close>, is there with its value, and
  under that name the traceback is there if the record has one.
\<close>

theorem log_line_reads_back:
  assumes "list_all (\<lambda>(k, v). wf_json (encoded v)) (lr_dict r)"
  shows "\<exists>m. loads (format_record i r) = Some (JObj m) \<and> (\<forall>c\<in>set (format_record i r). printable c) \<and>
    map_of m ''timestamp'' = Some (JStr (isoformat (lr_created r))) \<and>
    map_of m ''level'' = Some (JStr (lr_levelname r)) \<and> map_of m ''logger'' = Some (JStr (lr_name r)) \<and>
    map_of m ''instance_id'' = Some (JStr i) \<and> map_of m ''message'' = Some (JStr (lr_message r)) \<and>
    (\<forall>k. k \<notin> {''timestamp'', ''level'', ''logger'', ''instance_id'', ''message'', ''exception''} \<longrightarrow> map_of m k =
       (if k \<in> set reserved_attrs then None else map_option encoded (map_of (lr_dict r) k))) \<and>
    (\<forall>t. lr_exception r = Some t \<longrightarrow> map_of m ''exception'' = Some (JStr t))"
proof (intro exI conjI)
  let ?m = "log_entry i r"
  show "loads (format_record i r) = Some (JObj ?m)"
    unfolding format_record_def by (rule loads_dumps) (rule wf_log_entry [OF assms])
  show "\<forall>c\<in>set (format_record i r). printable c"
    unfolding format_record_def by (rule printable_dumps)
qed (auto simp: map_of_log_entry core_entry_def)

definition sample_record :: log_record where
  "sample_record =
     \<lparr>lr_created = start_time, lr_levelname = ''WARNING'', lr_name = ''app.request'',
      lr_message = [CHR 0x0A, CHR 0x22], lr_dict = [(''level'', Plain (JInt 1)), (''args'', Other ''x''),
        (''user_id'', Other ''u'')], lr_exception = Some ''ValueError''\<rparr>"

theorem log_line_reads_back_witness:
  "\<exists>m. loads (format_record ''i1'' sample_record) = Some (JObj m) \<and> map_of m ''level'' = Some (JStr ''WARNING'') \<and>
     map_of m ''args'' = None \<and> map_of m ''user_id'' = Some (JStr ''u'')"
proof -
  have "list_all (\<lambda>(k, v). wf_json (encoded v)) (lr_dict sample_record)" by (simp add: sample_record_def)
  from log_line_reads_back [OF this, of "''i1''"] show ?thesis
    by (auto simp: sample_record_def reserved_attrs_def)
qed

end
