(* ===== verification/Middleware.thy ===== *)
theory Middleware
  imports Auth_Api Log_Format
begin

text \<open>
  \<open>app/api/middleware.py\<close>, stacked as \<open>create_app\<close> of \<open>app/main.py\<close> does, around the routes; and the log line
  a request leaves.
\<close>

section \<open>HTTP messages\<close>

text \<open>
  The headers of Starlette are a parameter: \<open>headers.get(name)\<close> and \<open>headers[name] = value\<close>, where
  names are the same in any case.
\<close>

definition lower_char :: "char \<Rightarrow> char" where
  "lower_char c = (let n = of_char c :: nat in if 65 \<le> n \<and> n \<le> 90 then char_of (n + 32) else c)"

definition header_name :: "string \<Rightarrow> string" where
  "header_name = map lower_char"

record 'h headers =
  hd_get :: "'h \<Rightarrow> string \<Rightarrow> string option"
  hd_set :: "string \<Rightarrow> string \<Rightarrow> 'h \<Rightarrow> 'h"

locale header_service =
  fixes H :: "'h headers"
  assumes get_set: "hd_get H (hd_set H n v h) m = (if header_name m = header_name n then Some v else hd_get H h m)"

definition std_headers :: "(string \<times> string) list headers" where
  "std_headers = \<lparr>hd_get = (\<lambda>h n. map_of h (header_name n)), hd_set = (\<lambda>n. AList.update (header_name n))\<rparr>"

interpretation std_headers: header_service std_headers
  by unfold_locales (simp add: std_headers_def update_conv')

record 'h http_request =
  rq_method :: string
  rq_path :: string
  rq_headers :: 'h

record 'h http_response =
  rs_status_code :: nat
  rs_headers :: 'h
  rs_body :: string

section \<open>The code\<close>

definition REQUEST_ID_HEADER :: string where
  "REQUEST_ID_HEADER = ''X-Request-ID''"

text \<open>\<open>round(x / 10)\<close> for \<open>round(duration_ms, 2)\<close>, halves to even; the clock is in microseconds.\<close>

definition round_tenth :: "int \<Rightarrow> int" where
  "round_tenth x = round_half_even x 10"

text \<open>\<open>RequestLoggingMiddleware.dispatch\<close>; the default of \<open>get\<close> is drawn whether it is needed or not.\<close>

definition request_logging_dispatch ::
  "'h headers \<Rightarrow> string \<Rightarrow> 'h http_request \<Rightarrow> ('r, 'd, 'w, 'h http_response) task \<Rightarrow> ('r, 'd, 'w, 'h http_response) task" where
  "request_logging_dispatch H i request call_next =
     await uuid4 (\<lambda>default.
     let request_id = (case hd_get H (rq_headers request) REQUEST_ID_HEADER of
                         None \<Rightarrow> uuid_str default | Some v \<Rightarrow> v) in
     await (read_state w_time) (\<lambda>start.
     await call_next (\<lambda>response.
     await (read_state w_time) (\<lambda>now.
     let response = response\<lparr>rs_headers := hd_set H REQUEST_ID_HEADER request_id (rs_headers response)\<rparr> in
     await (log_line i (RequestServed request_id (rq_method request) (rq_path request)
              (rs_status_code response) (make_float (round_tenth (now - start)) 2))) (\<lambda>_.
     Return response)))))"

definition security_headers :: "(string \<times> string) list" where
  "security_headers =
     [(''X-Content-Type-Options'', ''nosniff''), (''X-Frame-Options'', ''DENY''),
      (''Referrer-Policy'', ''no-referrer''),
      (''Permissions-Policy'', ''geolocation=(), camera=(), microphone=()'')]"

text \<open>\<open>SecurityHeadersMiddleware.dispatch\<close>.\<close>

definition security_headers_dispatch ::
  "'h headers \<Rightarrow> ('r, 'd, 'w, 'h http_response) task \<Rightarrow> ('r, 'd, 'w, 'h http_response) task" where
  "security_headers_dispatch H call_next =
     await call_next (\<lambda>response.
     Return (response\<lparr>rs_headers := foldl (\<lambda>h (name, value). hd_set H name value h) (rs_headers response) security_headers\<rparr>))"

text \<open>
  FastAPI between the middleware and a route, a parameter: it renders what the route returns
  (\<open>render\<close>) and turns an \<open>HTTPException\<close> into a response (\<open>on_error\<close>); it passes every other exception on.
\<close>

definition handled ::
  "('a \<Rightarrow> 'h http_response) \<Rightarrow> (nat \<Rightarrow> string \<Rightarrow> 'h http_response) \<Rightarrow> ('r, 'd, 'w, 'a) task \<Rightarrow>
    ('r, 'd, 'w, 'h http_response) task" where
  "handled render on_error endpoint =
     try_except (await endpoint (\<lambda>a. Return (render a)))
       (\<lambda>e. case e of HTTPException status detail \<Rightarrow> Some (Return (on_error status detail)) | _ \<Rightarrow> None)"

text \<open>The stack of \<open>create_app\<close>: the middleware added last is the outermost.\<close>

definition http_app ::
  "'h headers \<Rightarrow> string \<Rightarrow> 'h http_request \<Rightarrow> ('r, 'd, 'w, 'h http_response) task \<Rightarrow> ('r, 'd, 'w, 'h http_response) task" where
  "http_app H i request call_next =
     request_logging_dispatch H i request (security_headers_dispatch H call_next)"

text \<open>The record \<open>logger.info\<close> makes of the line.\<close>

definition request_record :: "datetime \<Rightarrow> string \<Rightarrow> string \<Rightarrow> string \<Rightarrow> nat \<Rightarrow> json \<Rightarrow> log_record" where
  "request_record t request_id method path status duration_ms =
     \<lparr>lr_created = t, lr_levelname = ''INFO'', lr_name = ''app.request'',
      lr_message = method @ '' '' @ path @ '' '' @ show_nat status,
      lr_dict = map (\<lambda>k. (k, Other [])) reserved_attrs @
        [(''request_id'', Plain (JStr request_id)), (''method'', Plain (JStr method)),
         (''path'', Plain (JStr path)), (''status_code'', Plain (JInt (int status))),
         (''duration_ms'', Plain duration_ms)],
      lr_exception = None\<rparr>"

section \<open>What the stack does\<close>

text \<open>The headers a response ends up with.\<close>

definition stamped :: "'h headers \<Rightarrow> string \<Rightarrow> 'h http_response \<Rightarrow> 'h http_response \<Rightarrow> bool" where
  "stamped H request_id resp resp' \<longleftrightarrow>
     rs_status_code resp' = rs_status_code resp \<and> rs_body resp' = rs_body resp \<and>
     (\<forall>n. hd_get H (rs_headers resp') n =
        (if header_name n = header_name REQUEST_ID_HEADER then Some request_id
         else case map_of (map (apfst header_name) security_headers) (header_name n) of
           Some v \<Rightarrow> Some v
         | None \<Rightarrow> hd_get H (rs_headers resp) n))"

lemma run_uuid4 [simp, coro_simps]:
  "run uuid4 w = (Inr (w_uuid4 w (w_draws w)), w\<lparr>w_draws := Suc (w_draws w)\<rparr>)"
  by (simp add: uuid4_def)

lemma run_handled:
  "run (handled render on_error endpoint) w =
     (case run endpoint w of
        (Inr a, w') \<Rightarrow> (Inr (render a), w')
      | (Inl (HTTPException status detail), w') \<Rightarrow> (Inr (on_error status detail), w')
      | (Inl e, w') \<Rightarrow> (Inl e, w'))"
  by (auto simp: handled_def split: prod.splits sum.splits exn.splits)

lemma stamped_found:
  assumes "stamped H request_id resp resp'"
  shows "hd_get H (rs_headers resp') REQUEST_ID_HEADER = Some request_id"
    "hd_get H (rs_headers resp') ''X-Frame-Options'' = Some ''DENY''"
  using assms
  by (simp_all add: stamped_def)
    (simp_all add: header_name_def lower_char_def REQUEST_ID_HEADER_def security_headers_def char_of_def)

context header_service
begin

lemma get_folded:
  "hd_get H (foldl (\<lambda>h (name, value). hd_set H name value h) h kvs) n =
     (case map_of (rev (map (apfst header_name) kvs)) (header_name n) of Some v \<Rightarrow> Some v | None \<Rightarrow> hd_get H h n)"
  by (induction kvs arbitrary: h) (auto simp: get_set map_add_def split: option.splits)

lemma stamped_stack:
  "stamped H request_id resp
     (resp\<lparr>rs_headers := hd_set H REQUEST_ID_HEADER request_id
        (foldl (\<lambda>h (name, value). hd_set H name value h) (rs_headers resp) security_headers)\<rparr>)"
proof -
  have "map_of (rev (map (apfst header_name) security_headers)) = map_of (map (apfst header_name) security_headers)"
    by (rule map_of_eqI) (auto simp: security_headers_def header_name_def lower_char_def)
  then show ?thesis by (simp add: stamped_def get_set get_folded)
qed

end

section \<open>The line of a request\<close>

lemma wf_make_float: "0 < k \<Longrightarrow> wf_json (make_float n k)"
proof (induction n k rule: make_float.induct)
  case (2 n k)
  then show ?case by (auto simp: norm_float_def)
qed simp

lemma request_line:
  assumes "0 < k" "r = request_record t request_id method path st (make_float n k)"
  shows "\<exists>m. loads (format_record i r) = Some (JObj m) \<and>
    map_of m ''request_id'' = Some (JStr request_id) \<and> map_of m ''method'' = Some (JStr method) \<and>
    map_of m ''path'' = Some (JStr path) \<and> map_of m ''status_code'' = Some (JInt (int st))"
proof (intro exI conjI)
  have attrs: "k \<in> {''request_id'', ''method'', ''path'', ''status_code''} \<Longrightarrow> k \<notin> set reserved_attrs \<and> k \<notin> core_names \<and> k \<noteq> ''exception''" for k
    by (auto simp: reserved_attrs_def)
  have "map_of (map (\<lambda>k. (k, Other [])) reserved_attrs) k = None" if "k \<notin> set reserved_attrs" for k
    using that by (simp add: map_of_eq_None_iff image_image)
  note find = map_of_log_entry(2) attrs this
  show "loads (format_record i r) = Some (JObj (log_entry i r))"
    unfolding format_record_def
    by (intro loads_dumps wf_log_entry)
      (simp add: assms request_record_def list_all_iff wf_make_float)
  show "map_of (log_entry i r) ''request_id'' = Some (JStr request_id)"
    "map_of (log_entry i r) ''method'' = Some (JStr method)"
    "map_of (log_entry i r) ''path'' = Some (JStr path)"
    "map_of (log_entry i r) ''status_code'' = Some (JInt (int st))"
    by (subst find(1); simp add: find assms(2) request_record_def map_add_def)+
qed

context header_service
begin

text \<open>The stack around an endpoint that ends in an answer, and around one that does not.\<close>

lemma run_http_app:
  assumes "run endpoint (w\<lparr>w_draws := Suc (w_draws w)\<rparr>) = (r, w1)"
    and "request_id = (case hd_get H (rq_headers request) REQUEST_ID_HEADER of
           None \<Rightarrow> uuid_str (w_uuid4 w (w_draws w)) | Some v \<Rightarrow> v)"
  shows "r = Inl e \<Longrightarrow> run (http_app H i request endpoint) w = (Inl e, w1)"
    and "r = Inr resp \<Longrightarrow> \<exists>resp' n. stamped H request_id resp resp' \<and>
      run (http_app H i request endpoint) w = (Inr resp', upd_gateway i (\<lambda>g. g\<lparr>log := log g @
         [RequestServed request_id (rq_method request) (rq_path request) (rs_status_code resp) (make_float n 2)]\<rparr>) w1)"
proof -
  show "r = Inl e \<Longrightarrow> run (http_app H i request endpoint) w = (Inl e, w1)"
    using assms(1) by (simp add: http_app_def request_logging_dispatch_def security_headers_dispatch_def Let_def)
  assume r: "r = Inr resp"
  show "\<exists>resp' n. stamped H request_id resp resp' \<and>
      run (http_app H i request endpoint) w = (Inr resp', upd_gateway i (\<lambda>g. g\<lparr>log := log g @
         [RequestServed request_id (rq_method request) (rq_path request) (rs_status_code resp) (make_float n 2)]\<rparr>) w1)"
    by (intro exI conjI, rule stamped_stack)
      (use assms r in \<open>simp add: http_app_def request_logging_dispatch_def security_headers_dispatch_def Let_def\<close>)
qed

end

section \<open>Properties\<close>

text \<open>
  C32. Every answer of a route, an error it raises as an \<open>HTTPException\<close> included, reaches the caller with
  its status and body, stamped with the four security headers and with the caller's own request id
  or a fresh one, all other headers as they were, and leaves exactly one line in the log; the
  line, formatted, reads back with that id, the method, the path and the status. Any other
  exception passes the middleware by: no header is set and nothing is logged.
\<close>

theorem answers_are_stamped:
  assumes "header_service H" "run endpoint (w\<lparr>w_draws := Suc (w_draws w)\<rparr>) = (r, w1)"
    and "request_id = (case hd_get H (rq_headers request) REQUEST_ID_HEADER of
           None \<Rightarrow> uuid_str (w_uuid4 w (w_draws w)) | Some v \<Rightarrow> v)"
    and "answer = (case r of Inr a \<Rightarrow> Some (render a) | Inl (HTTPException st d) \<Rightarrow> Some (on_error st d) | Inl _ \<Rightarrow> None)"
  shows "case answer of
      None \<Rightarrow> run (http_app H i request (handled render on_error endpoint)) w = (map_sum id render r, w1)
    | Some resp \<Rightarrow>
        \<exists>resp' ms. stamped H request_id resp resp' \<and>
          run (http_app H i request (handled render on_error endpoint)) w =
            (Inr resp', upd_gateway i (\<lambda>g. g\<lparr>log := log g @
               [RequestServed request_id (rq_method request) (rq_path request) (rs_status_code resp) ms]\<rparr>) w1) \<and>
          (\<forall>t. \<exists>m. loads (format_record i (request_record t request_id (rq_method request) (rq_path request)
               (rs_status_code resp) ms)) = Some (JObj m) \<and>
             map_of m ''request_id'' = Some (JStr request_id) \<and> map_of m ''method'' = Some (JStr (rq_method request)) \<and>
             map_of m ''path'' = Some (JStr (rq_path request)) \<and>
             map_of m ''status_code'' = Some (JInt (int (rs_status_code resp))))"
proof (cases answer)
  case None
  then obtain e where "r = Inl e" "run (handled render on_error endpoint) (w\<lparr>w_draws := Suc (w_draws w)\<rparr>) = (Inl e, w1)"
    using assms(2,4) by (auto simp: run_handled split: sum.splits exn.splits)
  from header_service.run_http_app(1) [OF assms(1) this(2) assms(3) HOL.refl] None this(1) show ?thesis by simp
next
  case (Some resp)
  then have "run (handled render on_error endpoint) (w\<lparr>w_draws := Suc (w_draws w)\<rparr>) = (Inr resp, w1)"
    using assms(2,4) by (auto simp: run_handled split: sum.splits exn.splits)
  from header_service.run_http_app(2) [OF assms(1) this assms(3) HOL.refl, of i]
  obtain resp' n where "stamped H request_id resp resp'"
    "run (http_app H i request (handled render on_error endpoint)) w = (Inr resp', upd_gateway i (\<lambda>g. g\<lparr>log := log g @
       [RequestServed request_id (rq_method request) (rq_path request) (rs_status_code resp) (make_float n 2)]\<rparr>) w1)"
    by blast
  with Some request_line [where n = n and k = 2 and i = i] show ?thesis by simp blast
qed

text \<open>A request for a ticket with a bad token, and one with a good token while Redis takes no writes.\<close>

definition sample_request :: "(string \<times> string) list http_request" where
  "sample_request = \<lparr>rq_method = ''POST'', rq_path = ''/auth/ws-ticket'', rq_headers = [(''x-request-id'', ''abc'')]\<rparr>"

abbreviation sample_error :: "nat \<Rightarrow> string \<Rightarrow> (string \<times> string) list http_response" where
  "sample_error st d \<equiv> \<lparr>rs_status_code = st, rs_headers = [], rs_body = d\<rparr>"

abbreviation sample_app ::
  "rstate redis \<Rightarrow> string \<Rightarrow> (rstate, dbstate, wstate \<times> nat list, (string \<times> string) list http_response) task" where
  "sample_app R token \<equiv> http_app std_headers ''i'' sample_request
     (handled (\<lambda>t. sample_error 200 (wtr_ticket t)) sample_error (issue_ws_ticket R sample_jwt default_settings token))"

lemma sample_routes:
  "run (issue_ws_ticket mem_redis sample_jwt default_settings ''bad'') w = (Inl (HTTPException 401 ''Invalid or expired token''), w)"
  "fst (run (issue_ws_ticket readonly_redis sample_jwt default_settings ''good'') w) = Inl RedisError"
  by (simp_all add: issue_ws_ticket_def decode_user_id_def sample_jwt_def uuid_str_nonempty issue_ticket_def
      token_urlsafe_def readonly_redis_def)

theorem answers_are_stamped_witness:
  "(\<exists>resp w'. run (sample_app mem_redis ''bad'') start_world = (Inr resp, w') \<and> rs_status_code resp = 401 \<and>
      hd_get std_headers (rs_headers resp) ''X-Frame-Options'' = Some ''DENY'' \<and>
      hd_get std_headers (rs_headers resp) REQUEST_ID_HEADER = Some ''abc'') \<and>
   fst (run (sample_app readonly_redis ''good'') start_world) = Inl RedisError"
proof -
  let ?w = "start_world\<lparr>w_draws := Suc (w_draws start_world)\<rparr>"
  have id: "hd_get std_headers (rq_headers sample_request) REQUEST_ID_HEADER = Some ''abc''"
    by (simp add: std_headers_def sample_request_def REQUEST_ID_HEADER_def header_name_def lower_char_def char_of_def bit_0)
  obtain w1 where failed: "run (issue_ws_ticket readonly_redis sample_jwt default_settings ''good'') ?w = (Inl RedisError, w1)"
    using sample_routes(2) by (metis prod.collapse)
  note stamp = answers_are_stamped [OF std_headers.header_service_axioms _ HOL.refl HOL.refl, where request = sample_request
      and i = "''i''" and on_error = sample_error and render = "\<lambda>t. sample_error 200 (wtr_ticket t)" and w = start_world]
  obtain resp w' where answer: "run (sample_app mem_redis ''bad'') start_world = (Inr resp, w')"
    "stamped std_headers ''abc'' (sample_error 401 ''Invalid or expired token'') resp"
    using stamp [OF sample_routes(1)] by (auto simp: id)
  then have "rs_status_code resp = 401" by (simp add: stamped_def)
  moreover have "fst (run (sample_app readonly_redis ''good'') start_world) = Inl RedisError"
    using stamp [OF failed] by simp
  ultimately show ?thesis using answer stamped_found [OF answer(2)] by blast
qed

end
