(* ===== verification/History_Api.thy ===== *)
theory History_Api
  imports Schemas Durable_Store
begin

text \<open>
  \<open>app/api/routes/history.py\<close>: the pages of a user's notifications, newest first, and the receipts
  of a notification.
\<close>

section \<open>The code\<close>

text \<open>FastAPI answers 422 when \<open>limit\<close> is not within 1 and 200; the model validates each row.\<close>

definition validated :: "notification list \<Rightarrow> notification_read list option" where
  "validated rows =
     (if list_all (\<lambda>row. is_object (n_payload row)) rows then Some (map read_of_row rows) else None)"

definition history_endpoint ::
  "'d database \<Rightarrow> string \<Rightarrow> uuid \<Rightarrow> int \<Rightarrow> datetime option \<Rightarrow> ('r, 'd, 'w, history_page) task" where
  "history_endpoint D i user_id limit before =
     (if \<not> (1 \<le> limit \<and> limit \<le> 200) then Raise (HTTPException 422 ''limit'')
      else
        await (get_session D i (\<lambda>session. get_history D session user_id limit before)) (\<lambda>rows.
          case validated rows of
            None \<Rightarrow> Raise ValidationError
          | Some reads \<Rightarrow>
              (let next_cursor = (if int (length reads) = limit
                                  then Some (nr_created_at (last reads)) else None) in
               Return \<lparr>hp_notifications = reads, hp_next_cursor = next_cursor\<rparr>)))"

definition read_receipts_endpoint ::
  "'d database \<Rightarrow> string \<Rightarrow> uuid \<Rightarrow> ('r, 'd, 'w, read_receipt_read list) task" where
  "read_receipts_endpoint D i notification_id =
     await (get_session D i (\<lambda>session. get_read_receipts D session notification_id)) (\<lambda>rows.
     Return (map receipt_of_row rows))"

section \<open>Newest first\<close>

abbreviation newer :: "notification \<Rightarrow> notification \<Rightarrow> bool" where
  "newer m n \<equiv> n_created_at n < n_created_at m"

lemma filter_same_key: "distinct (map f xs) \<Longrightarrow> k \<in> set xs \<Longrightarrow> filter (\<lambda>x. f k = f x) xs = [k]"
proof (induction xs)
  case (Cons x xs)
  show ?case
  proof (cases "k = x")
    case True
    with Cons.prems(1) show ?thesis by (auto simp: filter_empty_conv)
  next
    case False
    with Cons.prems have "k \<in> set xs" "f x \<noteq> f k" by (auto simp: image_iff)
    with Cons show ?thesis by auto
  qed
qed simp

lemma sort_key_distinct:
  assumes "mset ys = mset xs" "sorted (map f ys)" "distinct (map f ys)"
  shows "sort_key f xs = ys"
proof (rule properties_for_sort_key)
  have "distinct (map f xs)" using assms(1,3) by (metis distinct_map mset_eq_imp_distinct_iff mset_eq_setD)
  then show "filter (\<lambda>x. f k = f x) ys = filter (\<lambda>x. f k = f x) xs" if "k \<in> set ys" for k
    using that assms(1,3) mset_eq_setD [OF assms(1)] by (simp add: filter_same_key)
qed (use assms in auto)

lemma newest_first_unique:
  assumes "mset xs = mset (filter p L)" "sorted_wrt newer L"
  shows "sort_rows CreatedDesc xs = filter p L"
proof -
  let ?ys = "rev (filter p L)"
  have "sorted_wrt newer (filter p L)" using assms(2) by (rule sorted_wrt_filter)
  then have desc: "sorted_wrt (\<lambda>m n. newer n m) ?ys" by (simp add: sorted_wrt_rev)
  have "sorted (map n_created_at ?ys)" "distinct (map n_created_at ?ys)"
    using desc strict_sorted_iff [of "map n_created_at ?ys"] unfolding sorted_wrt_map by blast+
  with assms(1) have "sort_key n_created_at (rev xs) = ?ys" by (intro sort_key_distinct) simp_all
  then show ?thesis by (simp add: sort_rows_def)
qed

lemma newest_first:
  assumes "distinct (map n_created_at xs)"
  shows "sorted_wrt newer (sort_rows CreatedDesc xs)"
proof -
  let ?ys = "sort_key n_created_at (rev xs)"
  have "distinct (map n_created_at ?ys)"
    using assms by (metis distinct_map distinct_rev mset_eq_imp_distinct_iff mset_sort set_rev set_sort)
  then have "sorted_wrt (<) (map n_created_at ?ys)" by (simp add: strict_sorted_iff)
  then show ?thesis by (simp add: sort_rows_def sorted_wrt_rev sorted_wrt_map)
qed

text \<open>The rows after a given one.\<close>

lemma filter_older:
  assumes "sorted_wrt newer (A @ x # B)"
  shows "filter (\<lambda>n. n_created_at n < n_created_at x) (A @ x # B) = B"
  using assms by (auto simp: sorted_wrt_append filter_empty_conv filter_id_conv dest: less_asym)

section \<open>Reading all pages\<close>

text \<open>
  A client that starts without a cursor and follows \<open>next_cursor\<close> until there is none, giving up
  after \<open>n\<close> requests.
\<close>

primrec fetch_pages ::
  "'d database \<Rightarrow> string \<Rightarrow> uuid \<Rightarrow> int \<Rightarrow> nat \<Rightarrow> datetime option \<Rightarrow> ('r, 'd, 'w) world \<Rightarrow> notification_read list option" where
  "fetch_pages D i u limit 0 before w = None"
| "fetch_pages D i u limit (Suc n) before w =
     (case run (history_endpoint D i u limit before) w of
        (Inl e, w') \<Rightarrow> None
      | (Inr page, w') \<Rightarrow>
          (case hp_next_cursor page of
             None \<Rightarrow> Some (hp_notifications page)
           | Some t \<Rightarrow> map_option (\<lambda>rest. hp_notifications page @ rest) (fetch_pages D i u limit n (Some t) w')))"

context database_service
begin

lemma run_history:
  fixes w :: "('r, 'd, 'w) world" and before :: "datetime option"
  assumes "db_up D (w_db w)" "idle (data D w)" "1 \<le> limit" "limit \<le> 200"
    and "\<forall>n\<in>set (notifications (data D w)). n_user_id n = u \<longrightarrow> is_object (n_payload n)"
  defines "rows \<equiv> take (nat limit) (sort_rows CreatedDesc (scan (data D w)
      (filter (matches (UserIdIs u # (case before of None \<Rightarrow> [] | Some t \<Rightarrow> [CreatedBefore t])))
        (notifications (data D w)))))"
  obtains w' where "run (history_endpoint D i u limit before) w =
      (Inr \<lparr>hp_notifications = map read_of_row rows,
            hp_next_cursor = (if length rows = nat limit then Some (n_created_at (last rows)) else None)\<rparr>, w')"
    "data D w' = data D w" "db_up D (w_db w')"
proof -
  let ?o = "opened i w" and ?sid = "session_of i w"
  have does: "db_does D (get_history D ?sid u limit before) ?o rows (data D w)"
    using select_does(2) [of ?o limit ?sid u before] assms(1-3) unfolding rows_def opened_frame by simp
  obtain d where d: "run (get_session D i (\<lambda>s. get_history D s u limit before)) w = (Inr rows, ?o\<lparr>w_db := d\<rparr>)"
    "db_view D d = data D w" "db_up D d"
    by (rule session_does [where body = "\<lambda>s. get_history D s u limit before", OF does assms(2)]) (rule that)
  have "set rows \<subseteq> set (filter (matches [UserIdIs u]) (notifications (data D w)))"
    using mset_eq_setD [OF scan_law]
    by (auto simp: rows_def dest!: in_set_takeD split: option.splits)
  then have "list_all (\<lambda>row. is_object (n_payload row)) rows" using assms(5) by (auto simp: list_all_iff)
  then have "validated rows = Some (map read_of_row rows)" by (simp add: validated_def)
  moreover have "rows \<noteq> []" if "length rows = nat limit" using that assms(3) by auto
  ultimately show ?thesis
    by (intro that [of "?o\<lparr>w_db := d\<rparr>"])
      (use d assms(3,4) in \<open>auto simp: history_endpoint_def read_of_row_def last_map Let_def\<close>)
qed

lemma fetch_pages_rest:
  fixes w :: "('r, 'd, 'w) world"
  assumes "1 \<le> limit" "limit \<le> 200" "idle s" "sorted_wrt newer L"
    and "mset L = mset (filter (\<lambda>n. n_user_id n = u) (notifications s))"
    and "\<forall>n\<in>set (notifications s). n_user_id n = u \<longrightarrow> is_object (n_payload n)"
    and "db_up D (w_db w)" "data D w = s" "L = P @ Q" "length Q < fuel"
    and "filter (\<lambda>n. case before of None \<Rightarrow> True | Some t \<Rightarrow> n_created_at n < t) L = Q"
  shows "fetch_pages D i u limit fuel before w = Some (map read_of_row Q)"
  using assms(7-11)
proof (induction fuel arbitrary: w before P Q)
  case (Suc fuel)
  let ?q = "\<lambda>n. case before of None \<Rightarrow> True | Some t \<Rightarrow> n_created_at n < t"
  let ?found = "filter (matches (UserIdIs u # (case before of None \<Rightarrow> [] | Some t \<Rightarrow> [CreatedBefore t]))) (notifications s)"
  have "?found = filter ?q (filter (\<lambda>n. n_user_id n = u) (notifications s))"
    by (auto intro!: filter_cong split: option.splits)
  then have "mset ?found = mset (filter ?q L)" using assms(5) by (metis mset_filter)
  then have "mset (scan s ?found) = mset (filter ?q L)" using scan_law [of "w_db w"] Suc.prems(2) by simp
  then have page: "sort_rows CreatedDesc (scan s ?found) = Q"
    using newest_first_unique [OF _ assms(4)] Suc.prems(5) by metis
  obtain w' where w': "run (history_endpoint D i u limit before) w =
      (Inr \<lparr>hp_notifications = map read_of_row (take (nat limit) Q),
            hp_next_cursor = (if length (take (nat limit) Q) = nat limit
              then Some (n_created_at (last (take (nat limit) Q))) else None)\<rparr>, w')"
    "data D w' = s" "db_up D (w_db w')"
    by (rule run_history [of w limit u i before]) (use Suc.prems(1,2) assms(1-3,6) page in simp_all)
  show ?case
  proof (cases "length (take (nat limit) Q) = nat limit")
    case False
    then have "take (nat limit) Q = Q" by simp
    with False w'(1) show ?thesis by simp
  next
    case True
    moreover have "0 < nat limit" using assms(1) by simp
    ultimately obtain A x where A: "take (nat limit) Q = A @ [x]" by (metis length_0_conv less_not_refl rev_exhaust)
    have L: "L = (P @ A) @ x # drop (nat limit) Q"
      using Suc.prems(3) A append_take_drop_id [of "nat limit" Q] by simp
    have "fetch_pages D i u limit fuel (Some (n_created_at x)) w' = Some (map read_of_row (drop (nat limit) Q))"
    proof (rule Suc.IH [OF w'(3,2)])
      show "L = (P @ A @ [x]) @ drop (nat limit) Q" using L by simp
      show "length (drop (nat limit) Q) < fuel" using Suc.prems(4) \<open>0 < nat limit\<close> True by simp
      show "filter (\<lambda>n. case Some (n_created_at x) of None \<Rightarrow> True | Some t \<Rightarrow> n_created_at n < t) L = drop (nat limit) Q"
        using filter_older [of "P @ A" x "drop (nat limit) Q"] assms(4) L by (simp only: option.case)
    qed
    moreover have "map read_of_row (take (nat limit) Q) @ map read_of_row (drop (nat limit) Q) = map read_of_row Q"
      by (metis append_take_drop_id map_append)
    ultimately show ?thesis using w'(1) True A by simp
  qed
qed simp

lemma nth_last_append: "xs \<noteq> [] \<Longrightarrow> (map f xs @ ys) ! (length xs - 1) = f (last xs)"
  by (simp add: nth_append last_conv_nth)

text \<open>
  Any rows, also of the same instant: there is an end, every row read is one of the user's, and those after
  the end of a page are older than its last one.
\<close>

lemma fetch_pages_ends:
  fixes w :: "('r, 'd, 'w) world" and u :: uuid
  defines "older s before \<equiv> filter (\<lambda>n. n_user_id n = u \<and> (case before of None \<Rightarrow> True | Some t \<Rightarrow> n_created_at n < t)) (notifications s)"
  assumes "1 \<le> limit" "limit \<le> 200" "idle s" "\<forall>n\<in>set (notifications s). n_user_id n = u \<longrightarrow> is_object (n_payload n)"
    and "db_up D (w_db w)" "data D w = s" "length (older s before) < fuel"
  shows "\<exists>rows. fetch_pages D i u limit fuel before w = Some rows \<and> (\<forall>r\<in>set rows. \<exists>n\<in>set (older s before). r = read_of_row n) \<and>
    (\<forall>j r. 0 < j \<longrightarrow> nat limit dvd j \<longrightarrow> j \<le> length rows \<longrightarrow> r \<in> set (drop j rows) \<longrightarrow> nr_created_at r < nr_created_at (rows ! (j - 1)))"
  using assms(6-8)
proof (induction fuel arbitrary: w before)
  case (Suc fuel)
  let ?l = "nat limit"
  let ?page = "take ?l (sort_rows CreatedDesc (scan s (older s before)))"
  have l: "0 < ?l" using assms(2) by simp
  have found: "filter (matches (UserIdIs u # (case before of None \<Rightarrow> [] | Some t \<Rightarrow> [CreatedBefore t]))) (notifications s) = older s before"
    unfolding older_def by (intro filter_cong) (auto split: option.splits)
  have "set (sort_rows CreatedDesc (scan s (older s before))) = set (older s before)"
    using mset_eq_setD [OF scan_law [of "w_db w"]] Suc.prems(2) by simp
  then have page: "set ?page \<subseteq> set (older s before)" using set_take_subset by metis
  obtain w' where w': "run (history_endpoint D i u limit before) w =
      (Inr \<lparr>hp_notifications = map read_of_row ?page,
            hp_next_cursor = (if length ?page = ?l then Some (n_created_at (last ?page)) else None)\<rparr>, w')"
    "data D w' = s" "db_up D (w_db w')"
    by (rule run_history [of w limit u i before]) (use Suc.prems(1,2) assms(2-5) found in simp_all)
  show ?case
  proof (cases "length ?page = ?l")
    case False
    then have short: "length ?page < ?l" by simp
    have "fetch_pages D i u limit (Suc fuel) before w = Some (map read_of_row ?page)"
      by (simp only: fetch_pages.simps w'(1) False if_False prod.case sum.case history_page.select_convs option.case)
    moreover have "\<not> (0 < j \<and> ?l dvd j \<and> j \<le> length (map read_of_row ?page))" for j
      using short by (auto dest: dvd_imp_le)
    ultimately show ?thesis using page by (intro exI [of _ "map read_of_row ?page"]) auto
  next
    case True
    let ?x = "last ?page" and ?t = "n_created_at (last ?page)"
    have "?x \<in> set ?page" using True l by (intro last_in_set) auto
    with page have x: "?x \<in> set (older s before)" by blast
    then have below: "case before of None \<Rightarrow> True | Some b \<Rightarrow> ?t < b" unfolding older_def by simp
    have rest: "older s (Some ?t) = filter (\<lambda>n. n_created_at n < ?t) (older s before)"
      using below unfolding older_def by (auto intro!: filter_cong split: option.splits)
    have "length (older s (Some ?t)) < length (older s before)"
      unfolding rest using x by (intro length_filter_less) auto
    then have "length (older s (Some ?t)) < fuel" using Suc.prems(3) by simp
    from Suc.IH [OF w'(3,2) this] obtain rows where rows: "fetch_pages D i u limit fuel (Some ?t) w' = Some rows"
      "\<forall>r\<in>set rows. \<exists>n\<in>set (older s (Some ?t)). r = read_of_row n"
      "\<And>j r. 0 < j \<Longrightarrow> ?l dvd j \<Longrightarrow> j \<le> length rows \<Longrightarrow> r \<in> set (drop j rows) \<Longrightarrow> nr_created_at r < nr_created_at (rows ! (j - 1))"
      by blast
    let ?all = "map read_of_row ?page @ rows"
    have len: "length (map read_of_row ?page) = ?l" using True by simp
    have ends: "nr_created_at r < nr_created_at (?all ! (j - 1))"
      if j: "0 < j" "?l dvd j" "j \<le> length ?all" "r \<in> set (drop j ?all)" for j r
    proof (cases "j = ?l")
      case True
      have "r \<in> set rows" using j(4) len True by simp
      then have "nr_created_at r < ?t" using rows(2) by (fastforce simp: rest read_of_row_def)
      moreover have "?all ! (j - 1) = read_of_row ?x"
        using nth_last_append [of ?page read_of_row rows] \<open>?x \<in> set ?page\<close> True \<open>length ?page = ?l\<close> by force
      ultimately show ?thesis by (simp add: read_of_row_def)
    next
      case False
      with j(1,2) have big: "?l < j" using dvd_imp_le by fastforce
      have "nr_created_at r < nr_created_at (rows ! (j - ?l - 1))"
        by (rule rows(3)) (use j len big in \<open>simp_all add: dvd_diff_nat\<close>)
      moreover have "?all ! (j - 1) = rows ! (j - ?l - 1)"
        using len big by (simp only: nth_append) (simp add: diff_commute)
      ultimately show ?thesis by simp
    qed
    have "fetch_pages D i u limit (Suc fuel) before w = Some ?all"
      by (simp only: fetch_pages.simps w'(1) True HOL.refl if_True prod.case sum.case history_page.select_convs option.case rows(1)
          option.map)
    moreover have "\<forall>r\<in>set ?all. \<exists>n\<in>set (older s before). r = read_of_row n"
      using page rows(2) unfolding rest by auto
    ultimately show ?thesis using ends by blast
  qed
qed simp

end

section \<open>Properties\<close>

text \<open>
  C16. Following the cursors reads the whole history: when no two notifications of the user were
  created at the same instant, the pages put together are exactly the user's notifications, each
  once, newest first, and the last page is reached after at most one request more than there are
  notifications.
\<close>

theorem history_pages_complete:
  assumes "database_service D" "db_up D (w_db w)" "idle (data D w)" "1 \<le> limit" "limit \<le> 200"
    and "mine = filter (\<lambda>n. n_user_id n = u) (notifications (data D w))"
    and "distinct (map n_created_at mine)" "\<forall>n\<in>set mine. is_object (n_payload n)" "length mine < fuel"
  shows "\<exists>rows. mset rows = mset mine \<and> sorted_wrt newer rows \<and>
    fetch_pages D i u limit fuel None w = Some (map read_of_row rows)"
proof -
  let ?L = "sort_rows CreatedDesc mine"
  have "length ?L = length mine" by (metis mset_sort_rows size_mset)
  then have "fetch_pages D i u limit fuel None w = Some (map read_of_row ?L)"
    using assms newest_first [OF assms(7)]
    by (intro database_service.fetch_pages_rest [where s = "data D w" and L = ?L and P = "[]"]) auto
  then show ?thesis using newest_first [OF assms(7)] by (intro exI [of _ ?L]) simp
qed

theorem history_pages_complete_witness:
  "\<exists>rows. length rows = 3 \<and> fetch_pages mem_database ''i1'' 7 2 4 None sample_world = Some (map read_of_row rows)"
proof -
  obtain rows where "mset rows = mset (filter (\<lambda>n. n_user_id n = 7) (notifications (data mem_database sample_world)))"
    "fetch_pages mem_database ''i1'' 7 2 4 None sample_world = Some (map read_of_row rows)"
    using history_pages_complete [OF memdb.database_service_axioms _ _ _ _ HOL.refl, of sample_world 2 7 4 "''i1''"]
    by (auto simp: sample_row_def)
  moreover from this(1) have "length rows = 3" by (simp flip: size_mset)
  ultimately show ?thesis by blast
qed

text \<open>
  C40. Rows that share an instant can be lost between pages: the cursor is a time and the next page
  starts strictly below it. Whenever a page, the first or any later one, ends at a row and another notification of the user was
  created at the same instant but has not been read yet, that notification is on no page at all. (The pages
  come to an end, so this is all a client ever gets.)
\<close>

theorem history_pages_lose_ties:
  assumes "database_service D" "db_up D (w_db w)" "idle (data D w)" "tables_ok (data D w)" "1 \<le> limit" "limit \<le> 200"
    and "mine = filter (\<lambda>n. n_user_id n = u) (notifications (data D w))"
    and "\<forall>n\<in>set mine. is_object (n_payload n)" "length mine < fuel"
  shows "\<exists>rows. fetch_pages D i u limit fuel None w = Some rows \<and>
    (\<forall>j m. 0 < j \<and> nat limit dvd j \<and> j \<le> length rows \<and> m \<in> set mine \<and> n_created_at m = nr_created_at (rows ! (j - 1)) \<and>
       n_notification_id m \<notin> nr_notification_id ` set (take j rows) \<longrightarrow>
       n_notification_id m \<notin> nr_notification_id ` set rows)"
proof -
  have "\<forall>n\<in>set (notifications (data D w)). n_user_id n = u \<longrightarrow> is_object (n_payload n)" using assms(7,8) by simp
  from database_service.fetch_pages_ends [OF assms(1,5,6,3) this assms(2) HOL.refl, where before = None and fuel = fuel and i = i]
  obtain rows where rows: "fetch_pages D i u limit fuel None w = Some rows" "\<forall>r\<in>set rows. \<exists>n\<in>set mine. r = read_of_row n"
    "\<And>j r. 0 < j \<Longrightarrow> nat limit dvd j \<Longrightarrow> j \<le> length rows \<Longrightarrow> r \<in> set (drop j rows) \<Longrightarrow> nr_created_at r < nr_created_at (rows ! (j - 1))"
    using assms(7,9) by auto
  have inj: "inj_on n_notification_id (set mine)"
    using assms(4,7) unique_by_committed by (fastforce simp: tables_ok_def distinct_map inj_on_def)
  have "n_notification_id m \<notin> nr_notification_id ` set rows"
    if j: "0 < j" "nat limit dvd j" "j \<le> length rows" and m: "m \<in> set mine" "n_created_at m = nr_created_at (rows ! (j - 1))"
      "n_notification_id m \<notin> nr_notification_id ` set (take j rows)" for j m
  proof
    assume "n_notification_id m \<in> nr_notification_id ` set rows"
    then obtain r where r: "r \<in> set rows" "nr_notification_id r = n_notification_id m" by force
    with m(3) have "r \<notin> set (take j rows)" by force
    with r(1) have "r \<in> set (drop j rows)" by (metis Un_iff append_take_drop_id set_append)
    with rows(3) [OF j] m(2) have "nr_created_at r < n_created_at m" by simp
    moreover obtain n where "n \<in> set mine" "r = read_of_row n" using rows(2) r(1) by blast
    moreover from this r(2) inj_onD [OF inj _ _ m(1)] have "n = m" by (simp add: read_of_row_def)
    ultimately show False by (simp add: read_of_row_def)
  qed
  with rows(1) show ?thesis by blast
qed

definition tied_db :: dbstate where
  "tied_db = (empty_db start_time)\<lparr>notifications :=
     [sample_row 1 101 7 3 None, sample_row 2 102 7 2 None, sample_row 3 103 7 2 None, sample_row 4 104 7 1 None], next_row := 5\<rparr>"

theorem history_pages_lose_ties_witness:
  "\<exists>rows. fetch_pages mem_database ''i1'' 7 2 10 None (start_world\<lparr>w_db := tied_db\<rparr>) = Some rows \<and>
     take 2 (map nr_notification_id rows) = [101, 102] \<and> 103 \<notin> nr_notification_id ` set rows"
proof -
  let ?w = "start_world\<lparr>w_db := tied_db\<rparr> :: (rstate, dbstate, wstate \<times> nat list) world" and ?s = "data mem_database (start_world\<lparr>w_db := tied_db\<rparr>)"
  let ?L = "[sample_row 1 101 7 3 None, sample_row 2 102 7 2 None, sample_row 3 103 7 2 None, sample_row 4 104 7 1 None]"
  have db: "db_up mem_database (w_db ?w)" "idle ?s" "tables_ok ?s" "notifications ?s = ?L" "scan ?s = (\<lambda>ns. ns)"
    by (simp_all add: tied_db_def sample_row_def empty_db_def mem_view_def idle_def tables_ok_def unique_by_def ids_below_def)
  have mine: "filter (\<lambda>n. n_user_id n = 7) ?L = ?L" "filter (matches [UserIdIs 7]) ?L = ?L" "\<forall>n\<in>set ?L. is_object (n_payload n)"
    by (simp_all add: sample_row_def)
  have sorted: "sort_rows CreatedDesc ?L = ?L" by (simp add: sort_rows_def sample_row_def less_eq_datetime_def date_key_def)
  obtain rows where rows: "fetch_pages mem_database ''i1'' 7 2 10 None ?w = Some rows"
    and lost: "\<And>j m. 0 < j \<Longrightarrow> 2 dvd j \<Longrightarrow> j \<le> length rows \<Longrightarrow> m \<in> set ?L \<Longrightarrow> n_created_at m = nr_created_at (rows ! (j - 1)) \<Longrightarrow>
       n_notification_id m \<notin> nr_notification_id ` set (take j rows) \<Longrightarrow> n_notification_id m \<notin> nr_notification_id ` set rows"
    using history_pages_lose_ties [OF memdb.database_service_axioms db(1-3) _ _ HOL.refl, of 2 7 10 "''i1''"] mine
    unfolding db(4) by (auto simp del: set_simps)
  obtain w1 where page: "run (history_endpoint mem_database ''i1'' 7 2 None) ?w =
      (Inr \<lparr>hp_notifications = map read_of_row (take 2 ?L), hp_next_cursor = Some (n_created_at (last (take 2 ?L)))\<rparr>, w1)"
    by (rule memdb.run_history [OF db(1,2), of 2 7 "''i1''" None]) (use db(4,5) mine sorted in \<open>simp_all del: mem_database_simps\<close>)
  from rows obtain rest where rest: "rows = map read_of_row (take 2 ?L) @ rest"
    unfolding numeral_eq_Suc pred_numeral_simps fetch_pages.simps using page by (auto simp: numeral_eq_Suc)
  then have "n_notification_id (sample_row 3 103 7 2 None) \<notin> nr_notification_id ` set rows"
    by (intro lost [of 2]) (simp_all add: sample_row_def read_of_row_def)
  then have "103 \<notin> nr_notification_id ` set rows" by (simp add: sample_row_def)
  moreover have "take 2 (map nr_notification_id rows) = [101, 102]" by (simp add: rest sample_row_def read_of_row_def)
  ultimately show ?thesis using rows by blast
qed

end
