(* ===== verification/Ops_Api.thy ===== *)
theory Ops_Api
  imports Gateway
begin

text \<open>
  \<open>app/api/routes/presence.py\<close> and \<open>health.py\<close>: a user's presence, and the state of an instance and of
  the services it depends on.
\<close>

section \<open>Presence\<close>

definition get_presence :: "'r redis \<Rightarrow> string \<Rightarrow> ('r, 'd, 'w, presence_read) task" where
  "get_presence R user_id =
     await (get_presence_info R user_id) (\<lambda>info.
     Return \<lparr>pr_user_id = pi_user_id info, pr_status = status_value (pi_status info),
             pr_last_seen = pi_last_seen info\<rparr>)"

section \<open>Metrics\<close>

text \<open>
  \<open>GET /metrics\<close>: \<open>render_latest\<close> is \<open>generate_latest\<close> of prometheus_client, which reads the metrics of
  the process, and the content type it goes with.
\<close>

definition metrics_endpoint :: "(gateway \<Rightarrow> string \<times> string) \<Rightarrow> string \<Rightarrow> ('r, 'd, 'w, string \<times> string) task" where
  "metrics_endpoint render_latest i = read_state (\<lambda>w. render_latest (w_gateway w i))"

section \<open>Health\<close>

text \<open>
  \<open>asyncio.wait_for(p, timeout)\<close>: \<open>late s\<close> says that the call awaited in state \<open>s\<close> has no answer when
  the time is up. Then \<open>p\<close> is cancelled, and the \<open>CancelledError\<close> it ends with becomes a
  \<open>TimeoutError\<close>.
\<close>

primrec wait_for :: "('s \<Rightarrow> bool) \<Rightarrow> ('s, 'a) coro \<Rightarrow> ('s, 'a) coro" where
  "wait_for late (Return a) = Return a"
| "wait_for late (Raise e) = Raise e"
| "wait_for late (Act f) = Act (\<lambda>s. map_prod (wait_for late) id (f s))"
| "wait_for late (Await f c) =
     Await (\<lambda>s. if late s then (try_except c (except_only CancelledError (Raise TimeoutError)), s)
                else map_prod (wait_for late) id (f s)) c"

definition check_database :: "'d database \<Rightarrow> string \<Rightarrow> ('r, 'd, 'w, unit) task" where
  "check_database D i = get_session D i (\<lambda>session. db_io (db_select_one D session))"

definition health_check ::
  "'r redis \<Rightarrow> 'd database \<Rightarrow> (('r, 'd, 'w) world \<Rightarrow> bool) \<Rightarrow> settings \<Rightarrow> ('r, 'd, 'w, health_check) task" where
  "health_check R D late cfg =
     await (try_except (await (wait_for late (redis_io (rd_ping R))) (\<lambda>_. Return ''connected''))
             (except_Exception (Return ''unavailable''))) (\<lambda>redis_status.
     await (try_except (await (wait_for late (check_database D (instance_id cfg))) (\<lambda>_. Return ''connected''))
             (except_Exception (Return ''unavailable''))) (\<lambda>database_status.
     await (active_connection_count (instance_id cfg)) (\<lambda>active.
     Return \<lparr>hc_status = (if redis_status = ''connected'' \<and> database_status = ''connected''
                          then ''healthy'' else ''degraded''),
             hc_instance_id = instance_id cfg, hc_redis = redis_status, hc_database = database_status,
             hc_active_connections = active\<rparr>)))"

section \<open>What \<open>wait_for\<close> does\<close>

lemma wait_for_in_time: "(\<And>s. \<not> late s) \<Longrightarrow> run (wait_for late p) s = run p s"
  by (induction p arbitrary: s rule: coro_induct) (simp_all add: case_prod_unfold)

lemma wait_for_io:
  "run (wait_for late (io e f)) s = (if late s then (Inl TimeoutError, s) else run (io e f) s)"
  by (auto simp: io_def except_only_def split: option.splits prod.splits)

text \<open>Code without an awaited call is not affected by the deadline.\<close>

inductive quick :: "('s, 'a) coro \<Rightarrow> bool" where
  "quick (Return a)"
| "quick (Raise e)"
| "(\<And>s. quick (fst (f s))) \<Longrightarrow> quick (Act f)"

lemma quick_sync: "quick (sync f)"
  by (auto simp: sync_def intro!: quick.intros split: prod.splits)

lemma quick_await: "quick p \<Longrightarrow> (\<And>a. quick (k a)) \<Longrightarrow> quick (await p k)"
  by (induction rule: quick.induct) (auto intro!: quick.intros)

lemma run_wait_for_quick:
  "quick p \<Longrightarrow> run (wait_for late (await p k)) s =
     (case run p s of (Inl e, s') \<Rightarrow> (Inl e, s') | (Inr a, s') \<Rightarrow> run (wait_for late (k a)) s')"
  by (induction arbitrary: s rule: quick.induct) (simp_all add: case_prod_unfold)

lemma quick_factory: "quick (get_session_factory i :: ('r, 'd, 'w, nat) task)" "quick (fresh :: ('r, 'd, 'w, nat) task)"
  by (auto simp: get_session_factory_def get_engine_def in_gateway_def fresh_def
      intro!: quick_await quick_sync quick.intros split: option.splits)

text \<open>A call, and another one in a \<open>finally\<close>, under a deadline.\<close>

lemma run_wait_for_finally:
  fixes f :: "'s \<Rightarrow> 'a option \<times> 's" and g :: "'s \<Rightarrow> unit option \<times> 's"
  assumes "e \<noteq> CancelledError"
  shows "run (wait_for late (try_finally (io e f) (io e g))) s =
    (if late s then (case g s of (None, t) \<Rightarrow> (Inl e, t) | (Some _, t) \<Rightarrow> (Inl TimeoutError, t))
     else (case f s of (r, t) \<Rightarrow>
       if late t then (Inl TimeoutError, t)
       else (case g t of
           (None, u) \<Rightarrow> (Inl e, u)
         | (Some _, u) \<Rightarrow> (case r of None \<Rightarrow> Inl e | Some a \<Rightarrow> Inr a, u))))"
proof (cases "late s")
  case True
  with assms show ?thesis by (auto simp: io_def except_only_def split: option.splits prod.splits)
next
  case False
  obtain r t where f: "f s = (r, t)" by fastforce
  obtain c u where g: "g t = (c, u)" by fastforce
  from False f g show ?thesis
    by (cases r; cases c; cases "late t") (simp_all add: io_def except_only_def)
qed

text \<open>
  The check of the database: \<open>SELECT 1\<close> in a session of its own, which is closed. Each of the two calls has to be
  answered, and in time.
\<close>

definition database_answers ::
  "'d database \<Rightarrow> (('r, 'd, 'w) world \<Rightarrow> bool) \<Rightarrow> string \<Rightarrow> ('r, 'd, 'w) world \<Rightarrow> bool" where
  "database_answers D late i w \<longleftrightarrow>
     (let sid = session_of i w; asked = opened i w; (answer, d) = db_select_one D sid (w_db asked);
          closing = asked\<lparr>w_db := d\<rparr> in
      \<not> late asked \<and> answer \<noteq> None \<and> \<not> late closing \<and> fst (db_close D sid d) \<noteq> None)"

lemma run_check_database:
  fixes w :: "('r, 'd, 'w) world"
  obtains d r where "run (wait_for late (check_database D i)) w = (r, (opened i w)\<lparr>w_db := d\<rparr>)"
    "if database_answers D late i w then r = Inr () else r \<in> {Inl DbError, Inl TimeoutError}"
proof -
  let ?sid = "session_of i w" and ?o = "opened i w"
  let ?p = "try_finally (db_io (db_select_one D ?sid)) (db_io (db_close D ?sid)) :: ('r, 'd, 'w, unit) task"
  have run: "run (wait_for late (check_database D i)) w = run (wait_for late ?p) ?o"
    by (cases rule: run_factory [of i w])
      (simp add: check_database_def get_session_def run_wait_for_quick quick_factory session_of_def opened_def)
  let ?w1 = "?o\<lparr>w_db := snd (db_select_one D ?sid (w_db ?o))\<rparr>"
  have p: "run (wait_for late ?p) ?o =
    (if late ?o then (if fst (db_close D ?sid (w_db ?o)) = None then Inl DbError else Inl TimeoutError,
        ?o\<lparr>w_db := snd (db_close D ?sid (w_db ?o))\<rparr>)
     else if late ?w1 then (Inl TimeoutError, ?w1)
     else (if fst (db_close D ?sid (w_db ?w1)) = None \<or> fst (db_select_one D ?sid (w_db ?o)) = None then Inl DbError else Inr (),
        ?o\<lparr>w_db := snd (db_close D ?sid (w_db ?w1))\<rparr>))"
    unfolding db_io_def by (subst run_wait_for_finally) (auto split: option.splits)
  have answers: "database_answers D late i w \<longleftrightarrow> \<not> late ?o \<and> fst (db_select_one D ?sid (w_db ?o)) \<noteq> None \<and>
      \<not> late ?w1 \<and> fst (db_close D ?sid (w_db ?w1)) \<noteq> None"
    by (simp add: database_answers_def Let_def case_prod_unfold)
  obtain d r where "run (wait_for late ?p) ?o = (r, ?o\<lparr>w_db := d\<rparr>)"
    "if database_answers D late i w then r = Inr () else r \<in> {Inl DbError, Inl TimeoutError}"
    unfolding p answers by (cases "late ?o"; cases "late ?w1") auto
  with run show ?thesis by (intro that) simp_all
qed

context stores
begin

lemma in_time_answers:
  assumes "db_up D (w_db w)" "\<And>s. \<not> late s"
  shows "database_answers D late i w"
  using assms by (simp add: database_answers_def db_up_simps Let_def case_prod_unfold)

end

section \<open>Properties\<close>

text \<open>
  C31. The health endpoint always answers, whatever is down or slow. Redis is reported as connected exactly
  if it answered the ping in time, the database exactly if it answered both calls of its check, each in time,
  the number of sockets held is reported, and the verdict is \<open>healthy\<close> exactly if both are connected. So with both up
  and in time it is \<open>healthy\<close>, and never when either of them answers nothing.
\<close>

theorem health_check_answers:
  assumes "redis_service R" "database_service D"
    and "v = (if late w then w else w\<lparr>w_redis := snd (rd_ping R (w_redis w))\<rparr>)"
  shows "\<exists>hc w'. run (health_check R D late cfg) w = (Inr hc, w') \<and>
    hc_redis hc = (if \<not> late w \<and> fst (rd_ping R (w_redis w)) \<noteq> None then ''connected'' else ''unavailable'') \<and>
    hc_database hc = (if database_answers D late (instance_id cfg) v then ''connected'' else ''unavailable'') \<and>
    hc_status hc = (if hc_redis hc = ''connected'' \<and> hc_database hc = ''connected'' then ''healthy'' else ''degraded'') \<and>
    hc_active_connections hc = length (connections (w_gateway w (instance_id cfg))) \<and>
    (redis_up R w \<and> db_up D (w_db w) \<and> (\<forall>s. \<not> late s) \<longrightarrow> hc_status hc = ''healthy'') \<and>
    ((\<forall>sid d. fst (db_select_one D sid d) = None) \<longrightarrow> hc_status hc = ''degraded'')"
proof -
  let ?i = "instance_id cfg"
  let ?redis = "if \<not> late w \<and> fst (rd_ping R (w_redis w)) \<noteq> None then ''connected'' else ''unavailable''"
  let ?db = "if database_answers D late ?i v then ''connected'' else ''unavailable''"
  have redis: "run (try_except (await (wait_for late (redis_io (rd_ping R))) (\<lambda>_. Return ''connected''))
      (except_Exception (Return ''unavailable''))) w = (Inr ?redis, v)"
    by (auto simp: redis_io_def wait_for_io except_Exception_def assms(3) split: option.splits)
  obtain d r where check: "run (wait_for late (check_database D ?i)) v = (r, (opened ?i v)\<lparr>w_db := d\<rparr>)"
    "if database_answers D late ?i v then r = Inr () else r \<in> {Inl DbError, Inl TimeoutError}"
    by (rule run_check_database [of late D ?i v])
  let ?w = "(opened ?i v)\<lparr>w_db := d\<rparr>"
  have db: "run (try_except (await (wait_for late (check_database D ?i)) (\<lambda>_. Return ''connected''))
      (except_Exception (Return ''unavailable''))) v = (Inr ?db, ?w)"
    using check by (auto simp: except_Exception_def split: if_splits)
  have count: "connections (w_gateway ?w ?i) = connections (w_gateway w ?i)" by (simp add: assms(3))
  let ?hc = "\<lparr>hc_status = (if ?redis = ''connected'' \<and> ?db = ''connected'' then ''healthy'' else ''degraded''),
      hc_instance_id = ?i, hc_redis = ?redis, hc_database = ?db,
      hc_active_connections = length (connections (w_gateway w ?i))\<rparr>"
  have run: "run (health_check R D late cfg) w = (Inr ?hc, ?w)"
    unfolding health_check_def by (simp only: run_await redis db run_manager(6) count run.simps prod.case sum.case)
  have ready: "?redis = ''connected''" "?db = ''connected''"
    if "redis_up R w" "db_up D (w_db w)" "\<forall>s. \<not> late s"
  proof -
    show "?redis = ''connected''"
      using that redis_service.up_simps(31) [OF assms(1) that(1)] by (simp add: redis_docs)
    have "db_up D (w_db v)" using that(2) assms(3) by simp
    with stores.in_time_answers [OF stores.intro [OF assms(1,2)], of v late ?i] that(3)
    show "?db = ''connected''" by simp
  qed
  have "\<not> database_answers D late ?i v" if "\<forall>sid d. fst (db_select_one D sid d) = None"
    using that by (simp add: database_answers_def Let_def case_prod_unfold)
  with ready show ?thesis by (intro exI [of _ ?hc] exI [of _ ?w] conjI run) auto
qed

text \<open>A database that answers no \<open>SELECT 1\<close>.\<close>

definition mute_database :: "dbstate database" where
  "mute_database = mem_database\<lparr>db_select_one := (\<lambda>_ d. (None, d)), db_up := (\<lambda>_. False)\<rparr>"

lemma realises_down: "realises view up f g \<Longrightarrow> realises view (\<lambda>_. False) f g"
  by (simp add: realises_def)

interpretation mute: database_service mute_database
proof -
  note down = realises_down [OF memdb.insert_law] realises_down [OF memdb.update_law] realises_down [OF memdb.select_law]
    realises_down [OF memdb.receipt_law] realises_down [OF memdb.receipts_law] realises_down [OF memdb.commit_law]
    realises_down [OF memdb.dispose_law] realises_down [OF memdb.session_law]
  have one: "realises view (\<lambda>_. False) (\<lambda>d. (None, d)) g" for view :: "'x \<Rightarrow> 'y" and g :: "'y \<Rightarrow> unit option \<times> 'y"
    by (simp add: realises_def)
  show "database_service mute_database"
    unfolding database_service_def mute_database_def
    using down memdb.insert_waits memdb.scan_law memdb.scan_receipts_law by (simp add: one)
qed

theorem health_check_answers_witness:
  "(\<exists>hc w'. run (health_check mem_redis mem_database (\<lambda>_. False) default_settings) start_world = (Inr hc, w') \<and>
      hc_status hc = ''healthy'') \<and>
   (\<exists>hc w'. run (health_check mem_redis mute_database (\<lambda>_. False) default_settings) start_world = (Inr hc, w') \<and>
      hc_redis hc = ''connected'' \<and> hc_database hc = ''unavailable'' \<and> hc_status hc = ''degraded'')"
proof -
  note checked = health_check_answers [OF mem.redis_service_axioms _ HOL.refl, where late = "\<lambda>_. False" and w = start_world
      and cfg = default_settings]
  have ping: "fst (rd_ping mem_redis (w_redis start_world)) = Some ()" by (simp add: mem_redis_def redis_docs)
  have mute: "\<not> database_answers mute_database late i w" for late i and w :: "(rstate, dbstate, wstate \<times> nat list) world"
    by (simp add: database_answers_def mute_database_def)
  have "\<exists>hc w'. run (health_check mem_redis mem_database (\<lambda>_. False) default_settings) start_world = (Inr hc, w') \<and>
      hc_status hc = ''healthy''"
    using checked [OF memdb.database_service_axioms] mem_database_simps(1) by (elim exE conjE) (intro exI conjI, assumption, simp)
  moreover have "\<exists>hc w'. run (health_check mem_redis mute_database (\<lambda>_. False) default_settings) start_world = (Inr hc, w') \<and>
      hc_redis hc = ''connected'' \<and> hc_database hc = ''unavailable'' \<and> hc_status hc = ''degraded''"
    using checked [OF mute.database_service_axioms] ping mute by (elim exE conjE) (intro exI conjI, assumption, simp_all)
  ultimately show ?thesis by (rule conjI)
qed

end
