(* ===== verification/Http_Routes.thy ===== *)
theory Http_Routes
  imports Middleware History_Api Ops_Api
begin

text \<open>
  The HTTP side of an instance as a caller meets it: the routes of \<open>app/api/routes\<close> with their paths, what
  FastAPI makes of their results, and the application \<open>create_app\<close> of \<open>app/main.py\<close> puts together.
\<close>

section \<open>Answers as JSON\<close>

definition dump_time :: "pydantic \<Rightarrow> datetime option \<Rightarrow> json" where
  "dump_time V t = (case t of None \<Rightarrow> JNull | Some d \<Rightarrow> JStr (pd_datetime_text V d))"

definition dump_WSTicketResponse :: "ws_ticket_response \<Rightarrow> json" where
  "dump_WSTicketResponse r = JObj [(''ticket'', JStr (wtr_ticket r)), (''expires_in'', JInt (wtr_expires_in r))]"

definition dump_NotificationCreateResponse :: "notification_create_response \<Rightarrow> json" where
  "dump_NotificationCreateResponse r =
     JObj [(''notification_id'', JStr (uuid_str (ncr_notification_id r))), (''persisted'', JBool (ncr_persisted r)),
           (''delivered_live'', JBool (ncr_delivered_live r))]"

definition dump_NotificationRead :: "pydantic \<Rightarrow> notification_read \<Rightarrow> json" where
  "dump_NotificationRead V n =
     JObj [(''notification_id'', JStr (uuid_str (nr_notification_id n))), (''user_id'', JStr (uuid_str (nr_user_id n))),
           (''type'', JStr (nr_type n)), (''payload'', nr_payload n),
           (''created_at'', JStr (pd_datetime_text V (nr_created_at n))),
           (''delivered_live'', JBool (nr_delivered_live n)), (''read_at'', dump_time V (nr_read_at n))]"

definition dump_NotificationHistoryPage :: "pydantic \<Rightarrow> history_page \<Rightarrow> json" where
  "dump_NotificationHistoryPage V p =
     JObj [(''notifications'', JList (map (dump_NotificationRead V) (hp_notifications p))),
           (''next_cursor'', dump_time V (hp_next_cursor p))]"

definition dump_ReadReceiptRead :: "pydantic \<Rightarrow> read_receipt_read \<Rightarrow> json" where
  "dump_ReadReceiptRead V r =
     JObj [(''notification_id'', JStr (uuid_str (rrr_notification_id r))), (''user_id'', JStr (uuid_str (rrr_user_id r))),
           (''read_at'', JStr (pd_datetime_text V (rrr_read_at r)))]"

definition dump_PresenceRead :: "pydantic \<Rightarrow> presence_read \<Rightarrow> json" where
  "dump_PresenceRead V p =
     JObj [(''user_id'', JStr (pr_user_id p)), (''status'', JStr (pr_status p)), (''last_seen'', dump_time V (pr_last_seen p))]"

definition dump_HealthCheck :: "health_check \<Rightarrow> json" where
  "dump_HealthCheck h =
     JObj [(''status'', JStr (hc_status h)), (''instance_id'', JStr (hc_instance_id h)), (''redis'', JStr (hc_redis h)),
           (''database'', JStr (hc_database h)), (''active_connections'', JInt (int (hc_active_connections h)))]"

section \<open>Routes\<close>

text \<open>A request once its path, query and credentials are read; bodies are still JSON.\<close>

datatype api_call =
    IssueTicket string
  | CreateNotification json
  | GetPresence string
  | GetHistory uuid int "datetime option"
  | GetReadReceipts uuid
  | GetHealth
  | GetMetrics

text \<open>Method and path, as the decorators of the routes have them.\<close>

fun route_of :: "api_call \<Rightarrow> string \<times> string" where
  "route_of (IssueTicket _) = (''POST'', ''/auth/ws-ticket'')"
| "route_of (CreateNotification _) = (''POST'', ''/notifications'')"
| "route_of (GetPresence user_id) = (''GET'', ''/presence/'' @ user_id)"
| "route_of (GetHistory _ _ _) = (''GET'', ''/notifications/history'')"
| "route_of (GetReadReceipts n) = (''GET'', ''/notifications/'' @ uuid_str n @ ''/read-receipts'')"
| "route_of GetHealth = (''GET'', ''/health'')"
| "route_of GetMetrics = (''GET'', ''/metrics'')"

text \<open>
  FastAPI, Starlette and prometheus_client, a parameter: the text of a JSON answer and of an error answer, what
  becomes of the outcome of a route (\<open>web_route\<close>) and of the outcome of the whole stack (\<open>web_outside\<close>), and the
  metrics of a process. What is relied on is documented behaviour: the text of a JSON answer reads back; a route
  that returns is answered with 200 and that body, an \<open>HTTPException\<close> with its status and detail, and any other
  exception goes on to the middleware; what comes out of the middleware is the answer, or 500 for an exception;
  and a task that is cancelled ends without an answer.
\<close>

record 'h web =
  web_json :: "json \<Rightarrow> string"
  web_error :: "nat \<Rightarrow> string \<Rightarrow> string"
  web_route :: "exn + string \<Rightarrow> exn + 'h http_response"
  web_outside :: "exn + 'h http_response \<Rightarrow> exn + 'h http_response"
  web_latest :: "gateway \<Rightarrow> string \<times> string"

locale web_service =
  fixes F :: "'h web"
  assumes json_law: "wf_json j \<Longrightarrow> loads (web_json F j) = Some j"
    and route_ok: "\<exists>resp. web_route F (Inr body) = Inr resp \<and> rs_status_code resp = 200 \<and> rs_body resp = body"
    and route_http: "\<exists>resp. web_route F (Inl (HTTPException status detail)) = Inr resp \<and>
      rs_status_code resp = status \<and> rs_body resp = web_error F status detail"
    and route_other: "(\<And>status detail. e \<noteq> HTTPException status detail) \<Longrightarrow> web_route F (Inl e) = Inl e"
    and outside_ok: "web_outside F (Inr resp) = Inr resp"
    and outside_error: "is_Exception e \<Longrightarrow>
      \<exists>resp. web_outside F (Inl e) = Inr resp \<and> rs_status_code resp = 500 \<and> rs_body resp = ''Internal Server Error''"
    and outside_cancelled: "\<not> is_Exception e \<Longrightarrow> web_outside F (Inl e) = Inl e"

definition std_web :: "(string \<times> string) list web" where
  "std_web =
     (let answer = (\<lambda>status body. \<lparr>rs_status_code = status, rs_headers = [], rs_body = body\<rparr>);
          error = (\<lambda>_ detail. dumps (JObj [(''detail'', JStr detail)])) in
      \<lparr>web_json = dumps, web_error = error,
       web_route = (\<lambda>r. case r of
           Inr body \<Rightarrow> Inr (answer 200 body)
         | Inl (HTTPException status detail) \<Rightarrow> Inr (answer status (error status detail))
         | Inl e \<Rightarrow> Inl e),
       web_outside = (\<lambda>r. case r of
           Inr resp \<Rightarrow> Inr resp
         | Inl e \<Rightarrow> if is_Exception e then Inr (answer 500 ''Internal Server Error'') else Inl e),
       web_latest = (\<lambda>g. (show_nat (active_connections g), ''text/plain''))\<rparr>)"

lemma std_web_simps [simp]:
  "web_json std_web = dumps" "web_latest std_web g = (show_nat (active_connections g), ''text/plain'')"
  by (simp_all add: std_web_def Let_def)

interpretation std_web: web_service std_web
  by unfold_locales (auto simp: std_web_def Let_def loads_dumps split: exn.splits)

text \<open>A task whose outcome the framework makes another outcome of.\<close>

definition outcome_of :: "('s, 'a) coro \<Rightarrow> ('s, exn + 'a) coro" where
  "outcome_of p = try_except (await p (\<lambda>a. Return (Inr a))) (\<lambda>e. Some (Return (Inl e)))"

definition framed :: "(exn + 'a \<Rightarrow> exn + 'b) \<Rightarrow> ('s, 'a) coro \<Rightarrow> ('s, 'b) coro" where
  "framed f p = await (outcome_of p) (\<lambda>r. case f r of Inl e \<Rightarrow> Raise e | Inr b \<Rightarrow> Return b)"

lemma run_framed [simp]: "run (framed f p) w = apfst f (run p w)"
proof -
  have "run (outcome_of p) w = (Inr (fst (run p w)), snd (run p w))"
    by (simp add: outcome_of_def case_prod_unfold split: sum.split)
  then show ?thesis by (simp add: framed_def apfst_def map_prod_def case_prod_unfold split: sum.split)
qed

lemma obeys_framed [obeys_rules]: "obeys rel p \<Longrightarrow> obeys rel (framed f p)"
  unfolding framed_def outcome_of_def by (intro obeys_rules) (auto intro: obeys_rules split: sum.splits)

text \<open>The body of the answer; a request that does not validate is refused with 422.\<close>

definition endpoint ::
  "'h web \<Rightarrow> 'r redis \<Rightarrow> 'd database \<Rightarrow> pydantic \<Rightarrow> jwt \<Rightarrow> (('r, 'd, 'w) world \<Rightarrow> bool) \<Rightarrow> settings \<Rightarrow> string option \<Rightarrow>
    api_call \<Rightarrow> ('r, 'd, 'w, string) task" where
  "endpoint F R D V J late cfg client call =
     (case call of
        IssueTicket credentials \<Rightarrow>
          await (issue_ws_ticket R J cfg credentials) (\<lambda>a. Return (web_json F (dump_WSTicketResponse a)))
      | CreateNotification body \<Rightarrow>
          (case parse_NotificationCreate V body of
             None \<Rightarrow> Raise (HTTPException 422 ''body'')
           | Some nc \<Rightarrow>
               await (create_notification R D cfg client nc) (\<lambda>a. Return (web_json F (dump_NotificationCreateResponse a))))
      | GetPresence user_id \<Rightarrow> await (get_presence R user_id) (\<lambda>a. Return (web_json F (dump_PresenceRead V a)))
      | GetHistory user_id limit before \<Rightarrow>
          await (history_endpoint D (instance_id cfg) user_id limit before)
            (\<lambda>a. Return (web_json F (dump_NotificationHistoryPage V a)))
      | GetReadReceipts n \<Rightarrow>
          await (read_receipts_endpoint D (instance_id cfg) n)
            (\<lambda>a. Return (web_json F (JList (map (dump_ReadReceiptRead V) a))))
      | GetHealth \<Rightarrow> await (Ops_Api.health_check R D late cfg) (\<lambda>a. Return (web_json F (dump_HealthCheck a)))
      | GetMetrics \<Rightarrow> await (metrics_endpoint (web_latest F) (instance_id cfg)) (\<lambda>a. Return (fst a)))"

text \<open>
  The application: the routes inside the two middleware classes, and the framework between them and around all of it.
\<close>

definition create_app ::
  "'h headers \<Rightarrow> 'h web \<Rightarrow> 'r redis \<Rightarrow> 'd database \<Rightarrow> pydantic \<Rightarrow> jwt \<Rightarrow> (('r, 'd, 'w) world \<Rightarrow> bool) \<Rightarrow> settings \<Rightarrow>
    string option \<Rightarrow> 'h \<Rightarrow> api_call \<Rightarrow> ('r, 'd, 'w, 'h http_response) task" where
  "create_app H F R D V J late cfg client headers call =
     framed (web_outside F)
       (http_app H (instance_id cfg)
          \<lparr>rq_method = fst (route_of call), rq_path = snd (route_of call), rq_headers = headers\<rparr>
          (framed (web_route F) (endpoint F R D V J late cfg client call)))"

section \<open>What a caller gets\<close>

text \<open>The answer by what becomes of the endpoint.\<close>

fun status_of :: "exn + 'a \<Rightarrow> nat" where
  "status_of (Inr _) = 200"
| "status_of (Inl (HTTPException status _)) = status"
| "status_of (Inl _) = 500"

fun body_of :: "'h web \<Rightarrow> exn + string \<Rightarrow> string" where
  "body_of F (Inr body) = body"
| "body_of F (Inl (HTTPException status detail)) = web_error F status detail"
| "body_of F (Inl _) = ''Internal Server Error''"

text \<open>
  What the middleware leaves behind: the line of the request, and not even that for an exception that is no
  \<open>HTTPException\<close>, which passes it by.
\<close>

definition passes_by :: "exn + 'a \<Rightarrow> bool" where
  "passes_by r \<longleftrightarrow> (\<exists>e. r = Inl e \<and> (\<forall>status detail. e \<noteq> HTTPException status detail))"

definition leaves_line :: "string \<Rightarrow> api_call \<Rightarrow> nat \<Rightarrow> ('r, 'd, 'w) world \<Rightarrow> ('r, 'd, 'w) world \<Rightarrow> bool" where
  "leaves_line i call status w w' \<longleftrightarrow> (\<exists>request_id ms. w' = upd_gateway i (\<lambda>g. g\<lparr>log := log g @
     [RequestServed request_id (fst (route_of call)) (snd (route_of call)) status ms]\<rparr>) w)"

definition logged :: "string \<Rightarrow> ('r, 'd, 'w) world \<Rightarrow> ('r, 'd, 'w) world \<Rightarrow> bool" where
  "logged i w w' \<longleftrightarrow> (\<exists>lines. w' = upd_gateway i (\<lambda>g. g\<lparr>log := log g @ lines\<rparr>) w)"

lemma logged_refl: "logged i w w"
  by (auto simp: logged_def upd_gateway_def intro: exI [of _ "[]"])

lemma leaves_line_logged: "leaves_line i call st w w' \<Longrightarrow> logged i w w'"
  by (auto simp: leaves_line_def logged_def)

locale http_side = header_service H + web_service F
  for H :: "'h headers" and F :: "'h web"
begin

lemma run_create_app:
  assumes "run (endpoint F R D V J late cfg client call) (w\<lparr>w_draws := Suc (w_draws w)\<rparr>) = (r, w1)" "r \<noteq> Inl CancelledError"
  obtains resp w' where "run (create_app H F R D V J late cfg client headers call) w = (Inr resp, w')"
    "rs_status_code resp = status_of r" "rs_body resp = body_of F r"
    "if passes_by r then w' = w1 else leaves_line (instance_id cfg) call (status_of r) w1 w'"
proof -
  let ?q = "\<lparr>rq_method = fst (route_of call), rq_path = snd (route_of call), rq_headers = headers\<rparr>"
  let ?p = "framed (web_route F) (endpoint F R D V J late cfg client call)"
  have p: "run ?p (w\<lparr>w_draws := Suc (w_draws w)\<rparr>) = (web_route F r, w1)" using assms(1) by simp
  show ?thesis
  proof (cases "passes_by r")
    case True
    then obtain e where e: "r = Inl e" "web_route F r = Inl e" by (auto simp: passes_by_def route_other)
    with assms(2) have exn: "is_Exception e" by (auto simp: is_Exception_def)
    have status: "status_of r = 500" "body_of F r = ''Internal Server Error''"
      using True e(1) by (cases e; simp add: passes_by_def)+
    have "run (http_app H (instance_id cfg) ?q ?p) w = (Inl e, w1)"
      using run_http_app(1) [where request = ?q, OF p HOL.refl e(2)] .
    moreover obtain resp where "web_outside F (Inl e) = Inr resp" "rs_status_code resp = 500" "rs_body resp = ''Internal Server Error''"
      using outside_error [OF exn] by blast
    ultimately show ?thesis using True status by (intro that) (auto simp: create_app_def)
  next
    case False
    obtain resp where resp: "web_route F r = Inr resp" "rs_status_code resp = status_of r" "rs_body resp = body_of F r"
    proof (cases r rule: status_of.cases)
      case (2 status detail)
      with that show thesis using route_http [of status detail] by auto
    qed (use that route_ok False in \<open>auto simp: passes_by_def\<close>)
    from run_http_app(2) [where request = ?q and i = "instance_id cfg", OF p HOL.refl resp(1)]
    obtain resp' id ms where resp': "stamped H id resp resp'"
      "run (http_app H (instance_id cfg) ?q ?p) w = (Inr resp', upd_gateway (instance_id cfg) (\<lambda>g. g\<lparr>log := log g @
         [RequestServed id (fst (route_of call)) (snd (route_of call)) (rs_status_code resp) ms]\<rparr>) w1)"
      by auto
    then have "run (create_app H F R D V J late cfg client headers call) w =
        (Inr resp', upd_gateway (instance_id cfg) (\<lambda>g. g\<lparr>log := log g @
          [RequestServed id (fst (route_of call)) (snd (route_of call)) (status_of r) ms]\<rparr>) w1)"
      using resp(2) by (simp add: create_app_def outside_ok)
    then show ?thesis
      by (rule that) (use resp'(1) resp(2,3) False in \<open>auto simp: stamped_def leaves_line_def\<close>)
  qed
qed

text \<open>In short: nothing but a line in the log.\<close>

lemma run_create_app_logged:
  assumes "run (endpoint F R D V J late cfg client call) (w\<lparr>w_draws := Suc (w_draws w)\<rparr>) = (r, w1)" "r \<noteq> Inl CancelledError"
  obtains resp w' where "run (create_app H F R D V J late cfg client headers call) w = (Inr resp, w')"
    "rs_status_code resp = status_of r" "rs_body resp = body_of F r" "logged (instance_id cfg) w1 w'"
proof -
  obtain resp w' where w': "run (create_app H F R D V J late cfg client headers call) w = (Inr resp, w')"
    "rs_status_code resp = status_of r" "rs_body resp = body_of F r"
    "if passes_by r then w' = w1 else leaves_line (instance_id cfg) call (status_of r) w1 w'"
    by (rule run_create_app [OF assms])
  from this(4) have "logged (instance_id cfg) w1 w'" by (cases "passes_by r") (auto intro: leaves_line_logged logged_refl)
  with w'(1-3) show ?thesis by (rule that)
qed

end

interpretation std_app: http_side std_headers std_web
  by unfold_locales

section \<open>The application of one process\<close>

abbreviation sample_app_call :: "api_call \<Rightarrow> (rstate, dbstate, wstate \<times> nat list, (string \<times> string) list http_response) task" where
  "sample_app_call \<equiv> create_app std_headers std_web mem_redis mem_database std_pydantic sample_jwt (\<lambda>_. False) default_settings None []"

definition sample_json :: "uuid \<Rightarrow> json" where
  "sample_json i =
     JObj [(''notification_id'', JStr (uuid_str i)), (''user_id'', JStr (uuid_str 7)),
           (''type'', JStr ''message.received'')]"

lemma parse_sample_json: "parse_NotificationCreate std_pydantic (sample_json i) = Some (sample_create i)"
  using sample_type std.uuid_law
  by (simp add: parse_NotificationCreate_def sample_json_def parse_payload_def sample_create_def)

section \<open>What a route raises\<close>

text \<open>A task that raises neither an \<open>HTTPException\<close> nor, run on its own, a \<open>CancelledError\<close>.\<close>

named_theorems plain_rules \<open>tasks that raise no HTTPException\<close>

definition plain_exn :: "exn \<Rightarrow> bool" where
  "plain_exn e \<longleftrightarrow> e \<noteq> CancelledError \<and> (\<forall>status detail. e \<noteq> HTTPException status detail)"

definition plain :: "('s, 'a) coro \<Rightarrow> bool" where
  "plain p \<longleftrightarrow> (\<forall>s e. fst (run p s) = Inl e \<longrightarrow> plain_exn e)"

lemma plain_Return [plain_rules]: "plain (Return a)"
  by (simp add: plain_def)

lemma plain_Raise: "plain_exn e \<Longrightarrow> plain (Raise e)"
  by (simp add: plain_def)

lemma plain_await [plain_rules]: "plain p \<Longrightarrow> (\<And>a. plain (k a)) \<Longrightarrow> plain (await p k)"
  unfolding plain_def by (auto split: prod.splits sum.splits) (metis fst_conv)+

lemma plain_try_finally [plain_rules]: "plain p \<Longrightarrow> plain q \<Longrightarrow> plain (try_finally p q)"
  unfolding plain_def by (auto split: prod.splits sum.splits) (metis fst_conv)+

lemma plain_sync [plain_rules]: "plain (sync f)"
  by (simp add: plain_def)

lemma plain_option [plain_rules]:
  "(x = None \<Longrightarrow> plain p) \<Longrightarrow> (\<And>a. x = Some a \<Longrightarrow> plain (q a)) \<Longrightarrow> plain (case x of None \<Rightarrow> p | Some a \<Rightarrow> q a)"
  by (cases x) simp_all

lemma plain_if [plain_rules]: "(b \<Longrightarrow> plain p) \<Longrightarrow> (\<not> b \<Longrightarrow> plain q) \<Longrightarrow> plain (if b then p else q)"
  by simp

lemma plain_calls [plain_rules]:
  "plain (redis_io f)" "plain (db_io g)" "plain (in_gateway i h)" "plain fresh"
  "plain (Raise ValueError)" "plain (Raise ValidationError)"
  by (auto simp: plain_def plain_exn_def split: option.splits)

lemma plain_get_session [plain_rules]: "(\<And>sid. plain (body sid)) \<Longrightarrow> plain (get_session D i body)"
  unfolding get_session_def get_session_factory_def get_engine_def by (intro plain_rules)

lemma plain_store_and_deliver: "plain (store_and_deliver R D cfg body sid)"
  unfolding store_and_deliver_def create_def mark_seen_def deliver_live_def live_owner_def lookup_def is_alive_def
    publish_to_instance_def mark_delivered_live_def Let_def
  by (intro plain_rules)

lemma plain_get_presence: "plain (get_presence R u)"
  unfolding get_presence_def get_presence_info_def get_status_def get_last_seen_def by (intro plain_rules)

lemma plain_reads:
  "1 \<le> limit \<Longrightarrow> limit \<le> 200 \<Longrightarrow> plain (history_endpoint D i u limit before)" "plain (read_receipts_endpoint D i n)"
  unfolding history_endpoint_def read_receipts_endpoint_def get_history_def get_read_receipts_def Let_def
  by (simp only: not_True_eq_False simp_thms if_False) (intro plain_rules)+

lemma plain_health_check:
  fixes late :: "('r, 'd, 'w) world \<Rightarrow> bool"
  shows "plain (health_check R D late cfg)"
  unfolding plain_def
proof (intro allI impI)
  fix w :: "('r, 'd, 'w) world" and e
  let ?i = "instance_id cfg"
  let ?redis = "try_except (await (wait_for late (redis_io (rd_ping R))) (\<lambda>_. Return ''connected''))
      (except_Exception (Return ''unavailable'')) :: ('r, 'd, 'w, string) task"
  let ?db = "try_except (await (wait_for late (check_database D ?i)) (\<lambda>_. Return ''connected''))
      (except_Exception (Return ''unavailable'')) :: ('r, 'd, 'w, string) task"
  have redis: "\<exists>a. fst (run ?redis v) = Inr a" for v
    by (auto simp: redis_io_def wait_for_io except_Exception_def split: option.splits)
  have db: "\<exists>a. fst (run ?db v) = Inr a" for v
  proof -
    obtain d r where "run (wait_for late (check_database D ?i)) v = (r, (opened ?i v)\<lparr>w_db := d\<rparr>)"
      "if database_answers D late ?i v then r = Inr () else r \<in> {Inl DbError, Inl TimeoutError}"
      by (rule run_check_database [of late D ?i v])
    then show ?thesis by (auto simp: except_Exception_def split: if_splits)
  qed
  obtain a v where a: "run ?redis w = (Inr a, v)" using redis [of w] by (metis prod.collapse)
  obtain b v' where b: "run ?db v = (Inr b, v')" using db [of v] by (metis prod.collapse)
  assume "fst (run (health_check R D late cfg) w) = Inl e"
  then show "plain_exn e"
    unfolding health_check_def by (simp only: run_await a b run_manager(6) run.simps prod.case sum.case fst_conv Inr_not_Inl)
qed

section \<open>Requests that are refused\<close>

text \<open>The status a request is refused with, and why; \<open>w\<close> is the state its route starts in.\<close>

definition refusal ::
  "'r redis \<Rightarrow> pydantic \<Rightarrow> jwt \<Rightarrow> settings \<Rightarrow> string option \<Rightarrow> api_call \<Rightarrow> ('r, 'd, 'w) world \<Rightarrow> nat option" where
  "refusal R V J cfg client call w =
     (case call of
        IssueTicket credentials \<Rightarrow> if accepted_subject J cfg credentials = None then Some 401 else None
      | CreateNotification body \<Rightarrow>
          if parse_NotificationCreate V body = None then Some 422
          else if fst (run (allow R (api_rate_limit_requests cfg) (api_rate_limit_window_seconds cfg) (caller_key client)) w)
                  = Inr False then Some 429
          else None
      | GetHistory _ limit _ \<Rightarrow> if limit < 1 \<or> 200 < limit then Some 422 else None
      | _ \<Rightarrow> None)"

text \<open>Only the calls of \<open>c\<close> have been counted.\<close>

definition counted_only :: "'r redis \<Rightarrow> string \<Rightarrow> ('r, 'd, 'w) world \<Rightarrow> ('r, 'd, 'w) world \<Rightarrow> bool" where
  "counted_only R c w v \<longleftrightarrow> (\<exists>r. v = w\<lparr>w_redis := r\<rparr> \<and>
     (\<forall>k. k \<noteq> rate_limit_key c \<longrightarrow> entries (rd_view R r) k = entries (store R w) k) \<and>
     subscribers (rd_view R r) = subscribers (store R w) \<and> deliveries (rd_view R r) = deliveries (store R w))"

context redis_service
begin

lemma allow_counts: "counted_only R c w (snd (run (allow R limit window c) w))"
proof -
  let ?p = "token_bucket_script (rate_limit_key c) limit window"
  have "snd (run (allow R limit window c) w) = w\<lparr>w_redis := snd (rd_eval R ?p (w_redis w))\<rparr>"
    by (simp add: allow_def split: option.split)
  with realises_effect [OF eval_law [of ?p], of "w_redis w"] show ?thesis
    by (auto simp: counted_only_def script_others)
qed

lemma run_refused:
  assumes "refusal R V J cfg client call w = Some st"
  obtains detail v where "run (endpoint F R D V J late cfg client call) w = (Inl (HTTPException st detail), v)"
    "if st = 429 then counted_only R (caller_key client) w v else v = w"
proof (cases call)
  case (IssueTicket credentials)
  with assms have st: "st = 401" "accepted_subject J cfg credentials = None" by (auto simp: refusal_def split: if_splits)
  obtain detail where "run (decode_user_id J cfg credentials) w = (Inl (HTTPException 401 detail), w)"
    using run_decode_user_id [of J cfg credentials w] st(2) by auto
  with IssueTicket st(1) show ?thesis by (intro that) (simp_all add: endpoint_def issue_ws_ticket_def)
next
  case (CreateNotification body)
  show ?thesis
  proof (cases "parse_NotificationCreate V body")
    case None
    with CreateNotification assms have "st = 422" by (simp add: refusal_def)
    with CreateNotification None show ?thesis by (intro that) (simp_all add: endpoint_def)
  next
    case (Some nc)
    let ?allow = "allow R (api_rate_limit_requests cfg) (api_rate_limit_window_seconds cfg) (caller_key client)"
    obtain r v where allow: "run ?allow w = (r, v)" by fastforce
    with CreateNotification Some assms have "st = 429" "r = Inr False" by (auto simp: refusal_def split: if_splits)
    moreover have "counted_only R (caller_key client) w v" using allow_counts [of "caller_key client" w] allow by (metis snd_conv)
    ultimately show ?thesis using CreateNotification Some allow
      by (intro that) (simp_all add: endpoint_def create_notification_def)
  qed
next
  case (GetHistory u limit before)
  with assms have st: "st = 422" "\<not> (1 \<le> limit \<and> limit \<le> 200)" by (auto simp: refusal_def split: if_splits)
  have "run (history_endpoint D (instance_id cfg) u limit before) w = (Inl (HTTPException 422 ''limit''), w)"
    unfolding history_endpoint_def by (subst if_P [OF st(2)]) simp
  with GetHistory st(1) show ?thesis by (intro that) (simp_all add: endpoint_def)
qed (use assms in \<open>simp_all add: refusal_def\<close>)

end

lemma plain_endpoint:
  assumes "refusal R V J cfg client call w = None" "fst (run (endpoint F R D V J late cfg client call) w) = Inl e"
  shows "plain_exn e"
proof -
  have plain: "plain_exn e" if "plain p" "run (endpoint F R D V J late cfg client call) w = run p w" for p :: "('a, 'b, 'c, string) task"
    using that assms(2) by (simp add: plain_def)
  have whole: "plain_exn e" if "plain (endpoint F R D V J late cfg client call)"
    using plain [OF that HOL.refl] .
  show ?thesis
  proof (cases call)
    case (IssueTicket credentials)
    with assms(1) obtain u where "run (decode_user_id J cfg credentials) w = (Inr u, w)"
      using run_decode_user_id [of J cfg credentials w] by (auto simp: refusal_def split: option.splits if_splits)
    with IssueTicket show ?thesis
      by (intro plain [of "await (issue_ticket R (ws_ticket_ttl_seconds cfg) u) (\<lambda>ticket. Return (web_json F (dump_WSTicketResponse
            \<lparr>wtr_ticket = ticket, wtr_expires_in = ws_ticket_ttl_seconds cfg\<rparr>)))"])
        (auto simp: endpoint_def issue_ws_ticket_def issue_ticket_def token_urlsafe_def intro!: plain_rules split: option.split)
  next
    case (CreateNotification body)
    with assms(1) obtain nc where nc: "parse_NotificationCreate V body = Some nc" by (auto simp: refusal_def split: if_splits)
    let ?allow = "allow R (api_rate_limit_requests cfg) (api_rate_limit_window_seconds cfg) (caller_key client) :: ('a, 'b, 'c, bool) task"
    obtain r v where allow: "run ?allow w = (r, v)" by fastforce
    with assms(1) CreateNotification nc have r: "r \<noteq> Inr False" by (auto simp: refusal_def split: if_splits)
    show ?thesis
    proof (cases r)
      case (Inl x)
      have "plain ?allow" unfolding allow_def by (intro plain_rules)
      with allow Inl have "plain_exn x" by (auto simp: plain_def dest!: spec [of _ w])
      with assms(2) CreateNotification nc allow Inl show ?thesis by (simp add: endpoint_def create_notification_def)
    next
      case (Inr ok)
      let ?rest = "await (has_seen R (nc_notification_id nc)) (\<lambda>seen.
           if seen then Return (response nc False False)
           else get_session D (instance_id cfg) (store_and_deliver R D cfg nc))"
      have "plain (?rest :: ('a, 'b, 'c, notification_create_response) task)"
        unfolding has_seen_def by (intro plain_rules plain_store_and_deliver)
      moreover have "fst (run ?rest v) = Inl e"
        using assms(2) CreateNotification nc allow Inr r
        by (simp add: endpoint_def create_notification_def case_prod_unfold split: sum.splits if_splits)
      ultimately show ?thesis by (auto simp: plain_def)
    qed
  next
    case (GetHistory u limit before)
    with assms(1) have "1 \<le> limit" "limit \<le> 200" by (auto simp: refusal_def split: if_splits)
    with GetHistory show ?thesis by (intro whole) (auto simp: endpoint_def intro!: plain_rules plain_reads(1))
  next
    case (GetPresence u)
    then show ?thesis by (intro whole) (auto simp: endpoint_def intro!: plain_rules plain_get_presence)
  next
    case (GetReadReceipts n)
    then show ?thesis by (intro whole) (auto simp: endpoint_def intro!: plain_rules plain_reads(2))
  next
    case GetHealth
    then show ?thesis by (intro whole) (auto simp: endpoint_def intro!: plain_rules plain_health_check)
  next
    case GetMetrics
    then show ?thesis by (intro whole) (auto simp: endpoint_def metrics_endpoint_def intro!: plain_rules)
  qed
qed

section \<open>Requests that only read\<close>

text \<open>All the \<open>GET\<close> requests, with any parameters, to any instance.\<close>

definition get_requests ::
  "'h headers \<Rightarrow> 'h web \<Rightarrow> 'r redis \<Rightarrow> 'd database \<Rightarrow> pydantic \<Rightarrow> jwt \<Rightarrow> ('r, 'd, 'w, 'h http_response) task set" where
  "get_requests H F R D V J =
     {p. \<exists>late cfg client headers call. p = create_app H F R D V J late cfg client headers call \<and> fst (route_of call) = ''GET''}"

text \<open>
  Everything a user or another instance could notice is as it was: what Redis holds, the committed rows, the
  sockets, and of each process all but its log and its engine.
\<close>

definition undisturbed :: "'r redis \<Rightarrow> 'd database \<Rightarrow> ('r, 'd, 'w) world \<Rightarrow> ('r, 'd, 'w) world \<Rightarrow> bool" where
  "undisturbed R D w w' \<longleftrightarrow> store R w' = store R w \<and> committed (data D w') = committed (data D w) \<and> w_ws w' = w_ws w \<and>
     (\<forall>i. (w_gateway w' i)\<lparr>engine := None, session_factory := None, log := []\<rparr> =
          (w_gateway w i)\<lparr>engine := None, session_factory := None, log := []\<rparr>)"

lemma steps_undisturbed: "steps (undisturbed R D)"
  by unfold_locales (auto simp: undisturbed_def)

text \<open>A step in the memory of one process that touches no more than its log and its engine.\<close>

lemma undisturbed_gateway:
  assumes "\<And>g. (f g)\<lparr>engine := None, session_factory := None, log := []\<rparr> = g\<lparr>engine := None, session_factory := None, log := []\<rparr>"
  shows "obeys (undisturbed R D) (in_gateway i f)"
  unfolding in_gateway_def by (rule obeys_sync) (simp add: undisturbed_def upd_gateway_def assms)

lemma undisturbed_local [obeys_rules]:
  "obeys (undisturbed R D) fresh" "obeys (undisturbed R D) uuid4" "obeys (undisturbed R D) (read_state q)"
  "obeys (undisturbed R D) (log_line i ev)"
  by (auto simp: fresh_def uuid4_def log_line_def undisturbed_def intro!: obeys_sync undisturbed_gateway)

lemma undisturbed_redis:
  assumes "realises (rd_view R) up f g" "\<And>s. snd (g s) = s"
  shows "obeys (undisturbed R D) (redis_io f)"
  using realises_effect [OF assms(1)] assms(2) by (intro obeys_redis_io) (auto simp: undisturbed_def)

lemma undisturbed_db:
  fixes D :: "'d database" and R :: "'r redis"
  assumes "realises (db_view D) up f g" "\<And>s. committed (snd (g s)) = committed s"
  shows "obeys (undisturbed R D) (db_io f :: ('r, 'd, 'w, 'a) task)"
proof (rule obeys_db_io)
  fix w :: "('r, 'd, 'w) world"
  have "committed (db_view D (snd (f (w_db w)))) = committed (data D w)"
    using realises_effect [OF assms(1), of "w_db w"] assms(2) [of "data D w"] by (elim disjE) simp_all
  then show "undisturbed R D w (w\<lparr>w_db := snd (f (w_db w))\<rparr>)" by (simp add: undisturbed_def)
qed

lemma obeys_wait_for:
  assumes "steps rel" "obeys rel p"
  shows "obeys rel (wait_for late p)"
proof -
  have "safe rel p (\<lambda>_ _. True) s \<Longrightarrow> safe rel (wait_for late p) (\<lambda>_ _. True) s" for s
  proof (induction p arbitrary: s rule: coro_induct)
    case (Await f c)
    have "safe rel (try_except c (except_only CancelledError (Raise TimeoutError))) (\<lambda>_ _. True) s'"
      if "safe rel c (\<lambda>_ _. True) s'" for s'
      unfolding safe_try_except by (rule safe_mono [OF that]) (auto simp: except_only_def split: sum.splits)
    with Await steps.refl [OF assms(1)] show ?case by auto
  qed auto
  with assms(2) show ?thesis by (simp add: obeys_def)
qed

lemma obeys_http_app:
  assumes "obeys (undisturbed R D) p"
  shows "obeys (undisturbed R D) (http_app H i request p)"
  unfolding http_app_def request_logging_dispatch_def security_headers_dispatch_def Let_def
  by (intro obeys_rules assms)

context stores
begin

lemma undisturbed_session:
  "(\<And>sid. obeys (undisturbed R D) (body sid)) \<Longrightarrow> obeys (undisturbed R D) (get_session D i body)"
  unfolding get_session_def get_session_factory_def get_engine_def
  by (intro obeys_rules undisturbed_gateway undisturbed_db [OF session_law]) (simp_all add: committed_docs)

lemma undisturbed_reads:
  "obeys (undisturbed R D) (get_presence R u)" "obeys (undisturbed R D) (history_endpoint D i v limit before)"
  "obeys (undisturbed R D) (read_receipts_endpoint D i n)" "obeys (undisturbed R D) (health_check R D late cfg)"
  "obeys (undisturbed R D) (metrics_endpoint g i)"
proof -
  note redis = undisturbed_redis [OF get_law] undisturbed_redis [OF ping_law]
  note db = undisturbed_db [OF select_law] undisturbed_db [OF receipts_law] undisturbed_db [OF one_law]
  show "obeys (undisturbed R D) (get_presence R u)"
    unfolding get_presence_def get_presence_info_def get_status_def get_last_seen_def
    by (intro obeys_rules redis) (simp_all add: redis_docs)
  show "obeys (undisturbed R D) (history_endpoint D i v limit before)"
    unfolding history_endpoint_def get_history_def Let_def
    by (intro obeys_rules undisturbed_session db) (simp_all add: doc_select_notifications_def)
  show "obeys (undisturbed R D) (read_receipts_endpoint D i n)"
    unfolding read_receipts_endpoint_def get_read_receipts_def
    by (intro obeys_rules undisturbed_session db) (simp_all add: doc_select_receipts_def)
  have "obeys (undisturbed R D) (redis_io (rd_ping R))" by (intro redis) (simp add: redis_docs)
  moreover have "obeys (undisturbed R D) (check_database D (instance_id cfg))"
    unfolding check_database_def by (intro undisturbed_session db) (simp add: doc_select_one_def)
  ultimately show "obeys (undisturbed R D) (health_check R D late cfg)"
    unfolding health_check_def active_connection_count_def
    by (auto simp: except_Exception_Some intro!: obeys_rules obeys_wait_for steps_undisturbed)
  show "obeys (undisturbed R D) (metrics_endpoint g i)"
    unfolding metrics_endpoint_def by (intro obeys_rules)
qed

lemma undisturbed_get: "p \<in> get_requests H F R D V J \<Longrightarrow> obeys (undisturbed R D) p"
proof -
  have "obeys (undisturbed R D) (endpoint F R D V J late cfg client call)" if "fst (route_of call) = ''GET''" for late cfg client call
    using that by (cases call) (auto simp: endpoint_def intro!: obeys_rules undisturbed_reads)
  then show "p \<in> get_requests H F R D V J \<Longrightarrow> obeys (undisturbed R D) p"
    by (auto simp: get_requests_def create_app_def intro!: obeys_framed obeys_http_app)
qed

end

section \<open>Properties\<close>

text \<open>
  C17. A request that is refused changes nothing. A ticket for a token that is not accepted is refused with 401, a
  notification that does not validate or a page of the history with a limit outside 1 to 200 with 422, all three
  before anything is done: the state is the old one but for the line of the request in the log (and the draw of its
  id). A notification is refused with 429 when the rate limiter does not admit the caller, and then only the count
  of that caller in Redis has changed: nothing is stored, published or marked as seen. Every other request is
  answered with 200 or 500 by its instance, whatever fails.
\<close>

theorem refused_requests_change_nothing:
  assumes "header_service H" "web_service F" "redis_service R"
  shows "\<exists>resp w'. run (create_app H F R D V J late cfg client headers call) w = (Inr resp, w') \<and>
    (let before = w\<lparr>w_draws := Suc (w_draws w)\<rparr> in
     case refusal R V J cfg client call before of
       Some st \<Rightarrow> rs_status_code resp = st \<and> (\<exists>v. leaves_line (instance_id cfg) call st v w' \<and>
         (if st = 429 then counted_only R (caller_key client) before v else v = before))
     | None \<Rightarrow> rs_status_code resp \<in> {200, 500})"
proof -
  note web = http_side.intro [OF assms(1,2)]
  let ?w = "w\<lparr>w_draws := Suc (w_draws w)\<rparr>"
  let ?p = "endpoint F R D V J late cfg client call"
  show ?thesis
  proof (cases "refusal R V J cfg client call ?w")
    case (Some st)
    obtain detail v where v: "run ?p ?w = (Inl (HTTPException st detail), v)"
      "if st = 429 then counted_only R (caller_key client) ?w v else v = ?w"
      by (rule redis_service.run_refused [OF assms(3) Some])
    obtain resp w' where "run (create_app H F R D V J late cfg client headers call) w = (Inr resp, w')"
      "rs_status_code resp = st" "leaves_line (instance_id cfg) call st v w'"
      by (rule http_side.run_create_app [OF web v(1)]) (auto simp: passes_by_def)
    with v(2) Some show ?thesis by (auto simp: Let_def)
  next
    case None
    obtain r v where r: "run ?p ?w = (r, v)" by fastforce
    have plain: "r = Inl e \<Longrightarrow> plain_exn e" for e using plain_endpoint [OF None, of F D late e] r by simp
    then have "r \<noteq> Inl CancelledError" by (auto simp: plain_exn_def)
    then obtain resp w' where "run (create_app H F R D V J late cfg client headers call) w = (Inr resp, w')"
      "rs_status_code resp = status_of r"
      by (rule http_side.run_create_app [OF web r])
    moreover have "status_of r \<in> {200, 500}"
      using plain by (cases r rule: status_of.cases) (auto simp: plain_exn_def)
    ultimately show ?thesis using None by (auto simp: Let_def)
  qed
qed

theorem refused_requests_change_nothing_witness:
  "(\<exists>resp w'. run (sample_app_call (IssueTicket ''bad'')) start_world = (Inr resp, w') \<and> rs_status_code resp = 401 \<and>
      w_redis w' = w_redis start_world \<and> w_db w' = w_db start_world) \<and>
   (\<exists>resp w'. run (create_app std_headers std_web mem_redis mem_database std_pydantic sample_jwt (\<lambda>_. False)
        (default_settings\<lparr>api_rate_limit_requests := 0\<rparr>) None [] (CreateNotification (sample_json 105))) start_world = (Inr resp, w') \<and>
      rs_status_code resp = 429 \<and> w_db w' = w_db start_world \<and> \<not> seen mem_redis w' 105)"
proof -
  let ?w = "start_world\<lparr>w_draws := Suc (w_draws start_world)\<rparr>" and ?cfg = "default_settings\<lparr>api_rate_limit_requests := 0\<rparr>"
  note refused = refused_requests_change_nothing [OF std_headers.header_service_axioms std_web.web_service_axioms
      mem.redis_service_axioms, where w = start_world and D = mem_database and V = std_pydantic and J = sample_jwt
      and late = "\<lambda>_. False" and client = None and headers = "[]"]
  have bad: "refusal mem_redis std_pydantic sample_jwt default_settings None (IssueTicket ''bad'') ?w = Some 401"
    by (simp add: refusal_def accepted_subject_def sample_jwt_def)
  have limited: "refusal mem_redis std_pydantic sample_jwt ?cfg None (CreateNotification (sample_json 105)) ?w = Some 429"
  proof -
    have "counts mem_redis (caller_key None) ?w None" by (simp add: counts_def)
    from mem.run_allow(1) [OF _ this, of "api_rate_limit_window_seconds ?cfg" 0]
    show ?thesis by (simp add: refusal_def parse_sample_json default_settings_def admits_def)
  qed
  from refused [of default_settings "IssueTicket ''bad''"] bad
  have "\<exists>resp w'. run (sample_app_call (IssueTicket ''bad'')) start_world = (Inr resp, w') \<and> rs_status_code resp = 401 \<and>
      w_redis w' = w_redis start_world \<and> w_db w' = w_db start_world"
    by (auto simp: Let_def leaves_line_def)
  moreover from refused [of ?cfg "CreateNotification (sample_json 105)"] limited
  have "\<exists>resp w'. run (create_app std_headers std_web mem_redis mem_database std_pydantic sample_jwt (\<lambda>_. False)
        ?cfg None [] (CreateNotification (sample_json 105))) start_world = (Inr resp, w') \<and>
      rs_status_code resp = 429 \<and> w_db w' = w_db start_world \<and> \<not> seen mem_redis w' 105"
    by (auto simp: Let_def leaves_line_def counted_only_def)
  ultimately show ?thesis by (rule conjI)
qed

text \<open>
  C37. The \<open>GET\<close> requests change nothing anybody could notice: whatever any number of them do, interleaved on any
  number of instances, failing and cancelled at any point, what Redis holds, the rows in the tables, the sockets,
  the connections and the metrics of every process stay as they were; only logs are written and engines
  opened. In particular asking for a presence does not refresh it, and asking for the history marks nothing as read.
\<close>

theorem get_requests_change_nothing:
  assumes "redis_service R" "database_service D" "reachable (get_requests H F R D V J) w (ps, w')"
  shows "undisturbed R D w w'"
proof -
  have "obeys (undisturbed R D) p" if "p \<in> get_requests H F R D V J" for p
    using that by (rule stores.undisturbed_get [OF stores.intro [OF assms(1,2)]])
  then show ?thesis by (rule obeys_reachable [OF steps_undisturbed assms(3)])
qed

theorem get_requests_change_nothing_witness:
  "\<exists>resp w'. reachable (get_requests std_headers std_web mem_redis mem_database std_pydantic sample_jwt) sample_world
      ([Return resp], w') \<and> rs_status_code resp = 200 \<and> store mem_redis w' = store mem_redis sample_world \<and>
    committed (data mem_database w') = committed (data mem_database sample_world)"
proof -
  let ?P = "get_requests std_headers std_web mem_redis mem_database std_pydantic sample_jwt"
  let ?call = "GetPresence (uuid_str 7)" and ?w = "sample_world\<lparr>w_draws := Suc (w_draws sample_world)\<rparr>"
  obtain body v where "run (endpoint std_web mem_redis mem_database std_pydantic sample_jwt (\<lambda>_. False) default_settings None ?call) ?w =
      (Inr body, v)"
    by (simp add: endpoint_def get_presence_def get_presence_info_def get_status_def get_last_seen_def mem_redis_def redis_docs
        presence_status_of_def)
  then obtain resp w' where w': "run (sample_app_call ?call) sample_world = (Inr resp, w')" "rs_status_code resp = 200"
    by (rule std_app.run_create_app) auto
  have "fst (route_of ?call) = ''GET''" by (simp only: route_of.simps fst_conv)
  then have "sample_app_call ?call \<in> ?P" unfolding get_requests_def by blast
  from started_reachable [OF this reachable.initial leads_return [OF w'(1)]]
  have reached: "reachable ?P sample_world ([Return resp], w')" by simp
  from get_requests_change_nothing [OF mem.redis_service_axioms memdb.database_service_axioms this] reached w'(2)
  show ?thesis by (auto simp: undisturbed_def)
qed

end
