(* ===== verification/Application.thy ===== *)
theory Application
  imports Http_Routes
begin

text \<open>
  \<open>app/main.py\<close>: what an instance does when it starts and stops, and everything that may run in any
  number of instances at once.
\<close>

section \<open>Starting and stopping an instance\<close>

text \<open>\<open>lifespan\<close> up to its \<open>yield\<close>: the handle of the subscription. Starting a loop spawns a task.\<close>

definition lifespan_start :: "'r redis \<Rightarrow> settings \<Rightarrow> ('r, 'd, 'w, nat) task" where
  "lifespan_start R cfg =
     await (subscriber_start R (instance_id cfg)) (\<lambda>pubsub.
     await (liveness_start R (instance_id cfg) (instance_liveness_ttl_seconds cfg)) (\<lambda>_.
     await (log_line (instance_id cfg) (InstanceReady (instance_id cfg))) (\<lambda>_.
     Return pubsub)))"

primrec forget_each :: "'r redis \<Rightarrow> string list \<Rightarrow> ('r, 'd, 'w, unit) task" where
  "forget_each R [] = Return ()"
| "forget_each R (user_id # user_ids) =
     await (unregister R user_id) (\<lambda>_.
     await (mark_offline R user_id) (\<lambda>_.
     forget_each R user_ids))"

text \<open>
  The \<open>finally\<close> of \<open>lifespan\<close>. The arguments are what is left of the three background tasks once
  they are cancelled, the handle of the subscription, and the closing of the Redis client.
\<close>

definition lifespan_stop ::
  "'r redis \<Rightarrow> 'd database \<Rightarrow> 'w websockets \<Rightarrow> settings \<Rightarrow> ('r, 'd, 'w, unit) task \<Rightarrow> ('r, 'd, 'w, unit) task \<Rightarrow>
    ('r, 'd, 'w, unit) task \<Rightarrow> nat \<Rightarrow> ('r, 'd, 'w, unit) task \<Rightarrow> ('r, 'd, 'w, unit) task" where
  "lifespan_stop R D W cfg liveness reconciliation listening pubsub aclose =
     await (close_all W (instance_id cfg) 1001 ''Server shutting down'') (\<lambda>disconnected_user_ids.
     await (forget_each R disconnected_user_ids) (\<lambda>_.
     await (stop_loop liveness) (\<lambda>_.
     await (stop_loop reconciliation) (\<lambda>_.
     await (subscriber_stop R listening (Some pubsub)) (\<lambda>_.
     await aclose (\<lambda>_.
     dispose_engine D (instance_id cfg)))))))"

text \<open>
  The background tasks \<open>lifespan\<close> starts: the subscriber, of which \<open>published\<close> arrives, and the two loops, of
  which \<open>n\<close> rounds are run before they are cancelled.
\<close>

definition background_tasks ::
  "'r redis \<Rightarrow> 'w websockets \<Rightarrow> settings \<Rightarrow> pubsub_message list \<Rightarrow> nat \<Rightarrow> ('r, 'd, 'w, unit) task list" where
  "background_tasks R W cfg published n =
     [listen (instance_id cfg) (deliver W (instance_id cfg)) published,
      reconciliation_run R (instance_id cfg) (heartbeat_interval_seconds cfg * 2) n,
      liveness_run R (instance_id cfg) (instance_liveness_ttl_seconds cfg) n]"

text \<open>
  All of \<open>lifespan\<close>: \<open>served\<close> is what the server does at the \<open>yield\<close>. A failing start does not get as far as the
  \<open>try\<close>.
\<close>

definition lifespan ::
  "'r redis \<Rightarrow> 'd database \<Rightarrow> 'w websockets \<Rightarrow> settings \<Rightarrow> ('r, 'd, 'w, unit) task \<Rightarrow> ('r, 'd, 'w, unit) task \<Rightarrow>
    ('r, 'd, 'w, unit) task \<Rightarrow> ('r, 'd, 'w, unit) task \<Rightarrow> ('r, 'd, 'w, unit) task \<Rightarrow> ('r, 'd, 'w, unit) task" where
  "lifespan R D W cfg liveness reconciliation listening aclose served =
     await (lifespan_start R cfg) (\<lambda>pubsub.
       try_finally served (lifespan_stop R D W cfg liveness reconciliation listening pubsub aclose))"

section \<open>Everything that may run\<close>

definition void :: "('s, 'a) coro \<Rightarrow> ('s, unit) coro" where
  "void p = await p (\<lambda>_. Return ())"

text \<open>
  The requests, connections and background tasks of any number of instances (\<open>cfg\<close> is the
  settings of one of them), with any arguments, and the life of each of these instances. A loop that goes on for
  ever appears with every number of rounds.
\<close>

inductive_set application ::
  "'h headers \<Rightarrow> 'h web \<Rightarrow> 'r redis \<Rightarrow> 'd database \<Rightarrow> 'w websockets \<Rightarrow> pydantic \<Rightarrow> jwt \<Rightarrow> ('r, 'd, 'w, unit) task set"
  for H :: "'h headers" and F :: "'h web" and R :: "'r redis" and D :: "'d database" and W :: "'w websockets"
    and V :: pydantic and J :: jwt where
  request: "void (create_app H F R D V J late cfg client headers call) \<in> application H F R D W V J"
| connection: "websocket_endpoint R D W V cfg socket ticket messages \<in> application H F R D W V J"
| background: "p \<in> set (background_tasks R W cfg published n) \<Longrightarrow> p \<in> application H F R D W V J"
| instance_life: "lifespan R D W cfg (Raise CancelledError) (Raise CancelledError) (Raise CancelledError) (Return ()) suspend
    \<in> application H F R D W V J"

section \<open>What every step of it respects\<close>

context effects
begin

lemma behaves_void: "behaves A p \<Longrightarrow> behaves A (void p)"
  by (auto simp: void_def intro!: app_rules)

lemma rg_wait_for:
  "rgs p (\<lambda>_ S' s'. holds S' s' \<and> T \<subseteq> S') S w \<Longrightarrow> holds S w \<Longrightarrow> T \<subseteq> S \<Longrightarrow>
     rgs (wait_for late p) (\<lambda>_ S' s'. holds S' s' \<and> T \<subseteq> S') S w"
proof (induction p arbitrary: S w rule: coro_induct)
  case (Act f)
  then obtain S' where S': "guar S w S' (snd (f w))" "rgs (fst (f w)) (\<lambda>_ S' s'. holds S' s' \<and> T \<subseteq> S') S' (snd (f w))"
    by auto
  with Act.IH [of w S' "snd (f w)"] guar_holds [OF Act.prems(2) S'(1)] guar_grows [OF S'(1)] Act.prems(3)
  show ?case by (auto intro!: exI [of _ S'])
next
  case (Await f c)
  let ?Q = "\<lambda>_ S' s'. holds S' s' \<and> T \<subseteq> S'"
  let ?g = "\<lambda>s. if late s then (try_except c (except_only CancelledError (Raise TimeoutError)), s)
                else map_prod (wait_for late) id (f s)"
  have "rgs c ?Q S s' \<and> (\<exists>S'. guar S s' S' (snd (?g s')) \<and> rgs (fst (?g s')) ?Q S' (snd (?g s')) \<and> rgs c ?Q S' (snd (?g s')))"
    if s': "rely S w s'" for s'
  proof -
    from Await.prems(1) s' obtain S' where c: "rgs c ?Q S s'" and S': "guar S s' S' (snd (f s'))"
      "rgs (fst (f s')) ?Q S' (snd (f s'))" "rgs c ?Q S' (snd (f s'))" by auto
    have here: "holds S s'" using s' by (rule rely_holds)
    show ?thesis
    proof (cases "late s'")
      case True
      have "rgs (try_except c (except_only CancelledError (Raise TimeoutError))) ?Q S s'"
        unfolding rg_try_except by (rule rg_mono [OF c]) (auto simp: except_only_def split: sum.splits)
      with True c guar_refl [OF here] show ?thesis by auto
    next
      case False
      have "rgs (wait_for late (fst (f s'))) ?Q S' (snd (f s'))"
        using Await.IH(1) [of s' S' "snd (f s')"] S'(1,2) guar_holds [OF here S'(1)] guar_grows [OF S'(1)] Await.prems(3)
        by auto
      with False c S' show ?thesis by auto
    qed
  qed
  then show ?case by simp
qed simp_all

lemma behaves_wait_for: "behaves A p \<Longrightarrow> behaves A (wait_for late p)"
  by (simp add: behaves_def rg_wait_for)

lemma behaves_forget [intro]: "behaves A (forget_each R us)"
  by (induction us) (auto intro!: app_rules behaves_registry behaves_presence)

lemma behaves_lifespan:
  "behaves A (lifespan R D W cfg (Raise CancelledError) (Raise CancelledError) (Raise CancelledError) (Return ()) suspend)"
  by (auto simp: lifespan_def lifespan_start_def lifespan_stop_def stop_loop_def subscriber_stop_def except_only_Some
      intro!: app_rules behaves_subscriber behaves_loops behaves_connections behaves_database behaves_forget)

lemma behaves_background: "p \<in> set (background_tasks R W cfg published n) \<Longrightarrow> behaves A p"
  by (auto simp: background_tasks_def intro!: behaves_subscriber behaves_loops)

lemma behaves_endpoints:
  "behaves A (issue_ws_ticket R J cfg token)" "behaves A (history_endpoint D i u limit before)"
  "behaves A (read_receipts_endpoint D i n)" "behaves A (get_presence R user_id)"
  "behaves A (health_check R D late cfg)" "behaves A (metrics_endpoint render_latest i)"
proof -
  show "behaves A (issue_ws_ticket R J cfg token)"
    by (auto simp: issue_ws_ticket_def decode_user_id_def Let_def is_user_id_def split: option.splits
        intro!: app_rules behaves_tickets user_id_ok)
  show "behaves A (history_endpoint D i u limit before)"
    by (auto simp: history_endpoint_def Let_def intro!: app_rules behaves_in_session behaves_database)
  show "behaves A (read_receipts_endpoint D i n)"
    by (auto simp: read_receipts_endpoint_def intro!: app_rules behaves_in_session behaves_database)
  show "behaves A (get_presence R user_id)"
    by (auto simp: get_presence_def intro!: app_rules behaves_presence)
  have "behaves A (check_database D (instance_id cfg))"
    by (auto simp: check_database_def intro!: app_rules behaves_in_session)
  then show "behaves A (health_check R D late cfg)"
    by (auto simp: health_check_def except_Exception_Some intro!: app_rules behaves_wait_for)
  show "behaves A (metrics_endpoint render_latest i)"
    by (auto simp: metrics_endpoint_def intro!: app_rules)
qed

lemma behaves_http_app:
  assumes "behaves A p"
  shows "behaves A (http_app H i request p)"
proof -
  have "behaves A (uuid4 :: ('r, 'd, 'w, uuid) task)" by (auto simp: uuid4_def drawing intro!: behaves_sync)
  with assms show ?thesis
    by (auto simp: http_app_def request_logging_dispatch_def security_headers_dispatch_def Let_def intro!: app_rules)
qed

lemma behaves_framed: "behaves A p \<Longrightarrow> behaves A (framed f p)"
  by (auto simp: framed_def outcome_of_def split: sum.splits intro!: app_rules)

lemma behaves_create_app: "behaves A (create_app H F R D V J late cfg client headers call)"
proof -
  have "behaves A (endpoint F R D V J late cfg client call)"
    by (cases call) (auto simp: endpoint_def intro!: app_rules behaves_endpoints behaves_create intro: parse_acceptable)
  then show ?thesis
    by (auto simp: create_app_def intro!: behaves_framed behaves_http_app)
qed

lemma behaves_application: "p \<in> application H F R D W V J \<Longrightarrow> behaves A p"
  by (induction rule: application.induct)
    (blast intro: behaves_void behaves_create_app behaves_endpoint behaves_background behaves_lifespan)+

text \<open>What the application can reach.\<close>

lemma application_holds:
  "reachable (application H F R D W V J) w (ps, w') \<Longrightarrow> holds nothing w \<Longrightarrow> holds nothing w'"
  by (rule behaving_pool) (use behaves_application in auto)

end

section \<open>Shutting down\<close>

context edge
begin

lemma run_forget_each:
  assumes "redis_up R w"
  shows "\<exists>r. run (forget_each R us) w = (Inr (), w\<lparr>w_redis := r\<rparr>) \<and> rd_up R r \<and>
    entries (rd_view R r) = (\<lambda>k. if k \<in> registry_key ` set us \<union> presence_key ` set us then None else entries (store R w) k)"
  using assms
proof (induction us arbitrary: w)
  case Nil
  then show ?case by (intro exI [of _ "w_redis w"]) simp
next
  case (Cons u us)
  let ?r1 = "snd (rd_delete R (registry_key u) (w_redis w))"
  let ?r2 = "snd (rd_delete R (presence_key u) ?r1)"
  have up: "rd_up R ?r1" "rd_up R ?r2" using Cons.prems by (simp_all add: up_simps)
  have view: "entries (rd_view R ?r2) = (entries (store R w))(registry_key u := None, presence_key u := None)"
    using Cons.prems up(1) by (simp add: up_simps redis_docs)
  obtain r where r: "run (forget_each R us) (w\<lparr>w_redis := ?r2\<rparr>) = (Inr (), w\<lparr>w_redis := r\<rparr>)" "rd_up R r"
    "entries (rd_view R r) = (\<lambda>k. if k \<in> registry_key ` set us \<union> presence_key ` set us then None
       else entries (rd_view R ?r2) k)"
    using Cons.IH [of "w\<lparr>w_redis := ?r2\<rparr>"] up(2) by (auto cong: if_cong)
  have "run (forget_each R (u # us)) w = (Inr (), w\<lparr>w_redis := r\<rparr>)"
    using Cons.prems up r(1) by (simp add: run_unregister mark_offline_def clear_presence_def up_simps redis_docs)
  with r(2,3) view show ?case by (intro exI [of _ r]) (auto simp: fun_eq_iff)
qed

end

context platform
begin

lemma application_tables:
  "reachable (application H F R D W V J) w (ps, w') \<Longrightarrow> on_data D db_step w w'"
  by (rule obeys_reachable [OF steps_db]) (use behaves_obeys [OF tables.behaves_application steps_db] in blast)+

end

section \<open>An application, and a request it serves\<close>

abbreviation sample_application :: "(rstate, dbstate, wstate \<times> nat list, unit) task set" where
  "sample_application \<equiv> application std_headers std_web mem_redis mem_database mem_websockets std_pydantic sample_jwt"

text \<open>A request that is answered is a task that ends.\<close>

lemma request_reachable:
  assumes "run (endpoint F R D V J late cfg client call) (w\<lparr>w_draws := Suc (w_draws w)\<rparr>) = (r, w1)" "r \<noteq> Inl CancelledError"
    and "http_side H F"
  obtains w' where "reachable (application H F R D W V J) w ([Return ()], w')" "logged (instance_id cfg) w1 w'"
proof -
  obtain resp w' where w': "run (create_app H F R D V J late cfg client headers call) w = (Inr resp, w')"
    "logged (instance_id cfg) w1 w'"
    by (rule http_side.run_create_app_logged [OF assms(3,1,2)])
  let ?p = "create_app H F R D V J late cfg client headers call"
  have "leads (void ?p, w) (Return (), w')" using w'(1) by (intro leads_return) (simp add: void_def)
  then have "reachable (application H F R D W V J) w ([Return ()], w')"
    by (intro started_reachable [OF application.request reachable.initial]) simp_all
  from this w'(2) show ?thesis by (rule that)
qed

lemma sample_served:
  obtains w' where "reachable sample_application sample_world ([Return ()], w')" "seen mem_redis w' 105"
proof -
  let ?w = "sample_world\<lparr>w_draws := Suc (w_draws sample_world)\<rparr>"
  have ready: "ready mem_redis mem_database ?w" "counts mem_redis c ?w None" for c
    by (simp_all add: ready_def counts_def)
  obtain w1 where w1: "run (create_notification mem_redis mem_database default_settings None (sample_create 105)) ?w =
      (Inr (response (sample_create 105) True False), w1)" "seen mem_redis w1 105"
    by (rule memstores.run_create_new [OF ready(1) _ ready(2), where cfg = default_settings
          and body = "sample_create 105" and client = None])
      (auto simp: owner_of_def)
  then have "run (endpoint std_web mem_redis mem_database std_pydantic sample_jwt (\<lambda>_. False) default_settings None
      (CreateNotification (sample_json 105))) ?w =
    (Inr (dumps (dump_NotificationCreateResponse (response (sample_create 105) True False))), w1)"
    by (simp add: endpoint_def parse_sample_json)
  from request_reachable [OF this _ std_app.http_side_axioms]
  obtain w' where w': "reachable sample_application sample_world ([Return ()], w')" "logged ''instance-1'' w1 w'"
    by (auto simp: default_settings_def)
  then have "seen mem_redis w' 105" using w1(2) by (auto simp: logged_def)
  with w'(1) show ?thesis by (rule that)
qed

text \<open>A ticket that was asked for, in any world.\<close>

lemma sample_ticket:
  fixes w :: "(rstate, dbstate, wstate \<times> nat list) world"
  obtains t w' where "reachable sample_application w ([Return ()], w')"
    "value_of (store mem_redis w') (ticket_key t) = Some (uuid_str 7)"
    "w_db w' = w_db w" "w_ws w' = w_ws w" "w_now w' = w_now w" "subscribers (store mem_redis w') = subscribers (store mem_redis w)"
    "\<And>i. connections (w_gateway w' i) = connections (w_gateway w i)"
proof -
  let ?w = "w\<lparr>w_draws := Suc (w_draws w)\<rparr>"
  obtain t v where issue: "run (issue_ticket mem_redis 10 (uuid_str 7)) ?w = (Inr t, v)"
    and v: "value_of (store mem_redis v) (ticket_key t) = Some (uuid_str 7)" "w_db v = w_db w" "w_ws v = w_ws w"
      "w_now v = w_now w" "w_gateway v = w_gateway w" "subscribers (store mem_redis v) = subscribers (store mem_redis w)"
    using mem.run_issue_ticket [of ?w 10 "uuid_str 7"] by (auto simp: mem_redis_def)
  have "run (issue_ws_ticket mem_redis sample_jwt default_settings ''good'') ?w =
      (Inr \<lparr>wtr_ticket = t, wtr_expires_in = 10\<rparr>, v)"
    using issue run_decode_user_id [of sample_jwt default_settings "''good''" ?w]
    by (auto simp: issue_ws_ticket_def sample_subject)
  then have "run (endpoint std_web mem_redis mem_database std_pydantic sample_jwt (\<lambda>_. False) default_settings None
      (IssueTicket ''good'')) ?w = (Inr (dumps (dump_WSTicketResponse \<lparr>wtr_ticket = t, wtr_expires_in = 10\<rparr>)), v)"
    by (simp add: endpoint_def)
  from request_reachable [OF this _ std_app.http_side_axioms]
  obtain w' where reached: "reachable sample_application w ([Return ()], w')" and logged: "logged ''instance-1'' v w'"
    by (auto simp: default_settings_def)
  from logged v show thesis by (intro that [OF reached]) (auto simp: logged_def upd_gateway_def)
qed

section \<open>Properties\<close>

text \<open>
  C21. A graceful shutdown, with both stores up, lets go of every user of the instance: every peer that is still there gets
  the close frame 1001, no socket is held and the gauge is zero, the registry and presence entries
  of its users are gone and no other entry is touched (the liveness key lapses by itself), the subscription is
  closed and the engine given up.
\<close>

theorem shutdown_releases_everything:
  assumes "redis_service R" "database_service D" "websocket_service W" "redis_up R w" "db_up D (w_db w)"
    and "i = instance_id cfg" "users = map fst (connections (w_gateway w i))"
  shows "\<exists>w'. run (lifespan_stop R D W cfg (Raise CancelledError) (Raise CancelledError) (Raise CancelledError) h (Return ())) w
      = (Inr (), w') \<and>
    connections (w_gateway w' i) = [] \<and> active_connections (w_gateway w' i) = 0 \<and> engine (w_gateway w' i) = None \<and>
    (\<forall>u x. socket_of w i u = Some x \<longrightarrow> ws_up W (w_ws w) x \<longrightarrow>
       close_frame (wires W w') x = Some (1001, ''Server shutting down'')) \<and>
    entries (store R w') = (\<lambda>k. if k \<in> registry_key ` set users \<union> presence_key ` set users then None
       else entries (store R w) k) \<and>
    (\<forall>c. h \<notin> set (subscribers (store R w') c))"
proof -
  obtain w1 where close: "run (close_all W i 1001 ''Server shutting down'') w = (Inr users, w1)"
    using run_close_all(1) [where W = W and i = i and c = 1001 and m = "''Server shutting down''" and w = w] assms(7)
    by (metis prod.collapse)
  have closed: "connections (w_gateway w1 i) = []" "active_connections (w_gateway w1 i) = 0"
      "w_redis w1 = w_redis w" "w_db w1 = w_db w"
    using run_close_all(2,3,5,6) [where W = W and i = i and c = 1001 and m = "''Server shutting down''" and w = w]
    unfolding close by simp_all
  have sent: "close_frame (wires W w1) x = Some (1001, ''Server shutting down'')"
    if "socket_of w i u = Some x" "ws_up W (w_ws w) x" for u x
    using websocket_service.close_all_reaches [OF assms(3) that, of 1001 "''Server shutting down''"] close by simp
  have "edge R W" using assms(1,3) by (rule edge.intro)
  moreover have "redis_up R w1" using closed(3) assms(4) by simp
  ultimately obtain r where r: "run (forget_each R users) w1 = (Inr (), w1\<lparr>w_redis := r\<rparr>)" "rd_up R r"
    "entries (rd_view R r) = (\<lambda>k. if k \<in> registry_key ` set users \<union> presence_key ` set users then None
       else entries (store R w) k)"
    using edge.run_forget_each [of R W w1 users] closed(3) by (auto cong: if_cong)
  let ?r = "snd (rd_close R h r)"
  have unsubscribe: "fst (rd_close R h r) = Some ()" "rd_view R ?r = snd (doc_close h (rd_view R r))"
    using realises_up [OF redis_service.close_law [OF assms(1)] r(2)] by (simp_all add: redis_docs)
  let ?w2 = "w1\<lparr>w_redis := ?r\<rparr>"
  let ?g = "\<lambda>g. g\<lparr>engine := None, session_factory := None\<rparr>"
  have "db_up D (w_db ?w2)" using closed(4) assms(5) by simp
  then have "fst (db_dispose D n (w_db ?w2)) = Some ()" for n
    using realises_up(1) [OF database_service.dispose_law [OF assms(2)]] by simp
  then obtain d where dispose: "run (dispose_engine D i) ?w2 = (Inr (), upd_gateway i ?g (?w2\<lparr>w_db := d\<rparr>))"
    by (cases "engine (w_gateway ?w2 i)") (auto simp: dispose_engine_def intro: that [of "w_db ?w2"])
  let ?w' = "upd_gateway i ?g (?w2\<lparr>w_db := d\<rparr>)"
  have "run (lifespan_stop R D W cfg (Raise CancelledError) (Raise CancelledError) (Raise CancelledError) h (Return ())) w
      = (Inr (), ?w')"
    using close r(1) unsubscribe(1) dispose
    by (simp add: lifespan_stop_def stop_loop_def subscriber_stop_def except_only_def flip: assms(6))
  then show ?thesis
    by (intro exI [of _ ?w'])
      (use closed(1,2) sent r(3) unsubscribe(2) in \<open>simp add: doc_close_def cong: if_cong\<close>)
qed

text \<open>
  None of this is certain when Redis fails: the first user whose entry cannot be removed ends the shutdown, and
  what comes after, the loops, the subscription and the engine, is left as it is.
\<close>

theorem shutdown_stops_at_redis_error:
  assumes "connections (w_gateway w i) = (u, x) # rest" "i = instance_id cfg"
    and "\<And>r. fst (rd_delete R (registry_key u) r) = None"
  shows "fst (run (lifespan_stop R D W cfg liveness reconciliation listening h aclose) w) = Inl RedisError"
proof -
  obtain r w1 where close: "run (close_all W i 1001 ''Server shutting down'') w = (r, w1)" by fastforce
  with run_close_all(1) [where W = W and i = i and c = 1001 and m = "''Server shutting down''" and w = w] assms(1)
  have "r = Inr (u # map fst rest)" by simp
  with close show ?thesis using assms(2,3)
    by (simp add: lifespan_stop_def unregister_def split: option.splits)
qed

theorem shutdown_releases_everything_witness:
  "\<exists>w'. run (lifespan_stop mem_redis mem_database mem_websockets default_settings (Raise CancelledError) (Raise CancelledError)
       (Raise CancelledError) 0 (Return ())) sample_online_world = (Inr (), w') \<and>
     connections (w_gateway w' ''instance-1'') = []"
  using shutdown_releases_everything [OF mem.redis_service_axioms memdb.database_service_axioms
      memws.websocket_service_axioms _ _ HOL.refl HOL.refl, of sample_online_world default_settings 0]
  by auto

text \<open>
  C2. The whole application, in any number of instances, with any requests and messages, in any
  interleaving, with any calls failing and any tasks cancelled: the tables stay in order (no two
  rows share a notification id), and a committed notification is never lost, its id, user, type,
  payload and time never change, and once read it stays read.
\<close>

theorem application_keeps_notifications:
  assumes "redis_service R" "database_service D" "websocket_service W" "tables_ok (data D w)"
    and "reachable (application H F R D W V J) w (ps, w')"
  shows "tables_ok (data D w') \<and> distinct (map n_notification_id (notifications (data D w'))) \<and>
    (\<forall>n\<in>set (notifications (data D w)). \<exists>n'\<in>set (notifications (data D w')).
       n_notification_id n' = n_notification_id n \<and> n_user_id n' = n_user_id n \<and> n_type n' = n_type n \<and>
       n_payload n' = n_payload n \<and> n_created_at n' = n_created_at n \<and> (n_read_at n \<noteq> None \<longrightarrow> n_read_at n' \<noteq> None))"
proof -
  have "platform R D W" using assms(1-3) by (intro platform.intro stores.intro)
  from platform.application_tables [OF this assms(5)]
  have "data D w' = data D w \<or> db_step (data D w) (data D w')" by (auto simp: on_data_def)
  then have step: "db_step (data D w) (data D w')" by auto
  then have ok: "tables_ok (data D w')" using assms(4) by (simp add: db_step_def)
  then have "distinct (map n_notification_id (notifications (data D w')))"
    by (intro unique_by_committed) (simp add: tables_ok_def)
  with ok step show ?thesis unfolding db_step_def evolves_def by metis
qed

theorem application_keeps_notifications_witness:
  "\<exists>w'. reachable sample_application sample_world ([Return ()], w') \<and>
     distinct (map n_notification_id (notifications (data mem_database w'))) \<and> seen mem_redis w' 105"
proof -
  obtain w' where reached: "reachable sample_application sample_world ([Return ()], w')" "seen mem_redis w' 105"
    by (rule sample_served)
  have "tables_ok (data mem_database sample_world)" by simp
  from application_keeps_notifications [OF mem.redis_service_axioms memdb.database_service_axioms
      memws.websocket_service_axioms this reached(1)] reached
  show ?thesis by blast
qed

end
