(* ===== verification/Global_Invariants.thy ===== *)
theory Global_Invariants
  imports Application
begin

text \<open>
  What holds in every state the whole application reaches, whatever fails, is cancelled or interleaved:
  what Redis holds has the form its readers expect, so do the rows of the tables, an id that is marked as seen has its
  notification in the table, and a process holds one socket per user and counts it. All are instances of \<open>effects\<close>.
\<close>

section \<open>What the calls leave in Redis\<close>

text \<open>A condition on the key and the value of every entry, and on whether it stays for ever.\<close>

definition all_entries :: "(string \<Rightarrow> string \<Rightarrow> bool \<Rightarrow> bool) \<Rightarrow> rstate \<Rightarrow> bool" where
  "all_entries P s \<longleftrightarrow> (\<forall>k v m. entries s k = Some (v, m) \<longrightarrow> P k v (m = None))"

lemma all_entriesD: "all_entries P s \<Longrightarrow> entries s k = Some (v, m) \<Longrightarrow> P k v (m = None)"
  by (simp add: all_entries_def)

lemma all_entries_realised:
  "realises view up f g \<Longrightarrow> all_entries P (view r) \<Longrightarrow> all_entries P (snd (g (view r))) \<Longrightarrow> all_entries P (view (snd (f r)))"
  by (metis realises_effect)

lemma all_entries_fewer:
  assumes "all_entries P s"
    "\<And>k v m. entries s' k = Some (v, m) \<Longrightarrow> \<exists>m'. entries s k = Some (v, m') \<and> (m' = None \<longleftrightarrow> m = None)"
  shows "all_entries P s'"
  unfolding all_entries_def
proof (intro allI impI)
  fix k v m assume "entries s' k = Some (v, m)"
  from assms(2) [OF this] obtain m' where m': "entries s k = Some (v, m')" "m' = None \<longleftrightarrow> m = None" by blast
  from all_entriesD [OF assms(1) m'(1)] m'(2) show "P k v (m = None)" by simp
qed

lemma age_entry: "age d e = Some (v, m) \<Longrightarrow> \<exists>m'. e = Some (v, m') \<and> (m' = None \<longleftrightarrow> m = None)"
  by (induction d e rule: age.induct) (auto split: if_splits)

context redis_service
begin

lemma all_entries_set:
  assumes "all_entries P (rd_view R r)" "P k v (t = None)"
  shows "all_entries P (rd_view R (snd (rd_set R k v t r)))"
  by (rule all_entries_realised [OF set_law assms(1)])
    (use assms in \<open>cases t; simp add: all_entries_def\<close>)

lemma all_entries_expire:
  assumes "all_entries P (rd_view R r)" "\<And>v b. P k v b \<Longrightarrow> P k v False"
  shows "all_entries P (rd_view R (snd (rd_expire R k e r)))"
  by (rule all_entries_realised [OF expire_law assms(1)])
    (use assms in \<open>fastforce simp: all_entries_def doc_expire_def split: option.splits\<close>)

lemma all_entries_script:
  assumes "all_entries P (rd_view R r)" "\<And>v b. P (rate_limit_key c) v b"
  shows "all_entries P (rd_view R (snd (rd_eval R (token_bucket_script (rate_limit_key c) limit window) r)))"
  by (rule all_entries_realised [OF eval_law assms(1)])
    (metis all_entries_def assms script_others(1))

lemma all_entries_calls:
  assumes "all_entries P (rd_view R r)"
  shows "all_entries P (rd_view R (snd (rd_get R k r)))" "all_entries P (rd_view R (snd (rd_getdel R k r)))"
    "all_entries P (rd_view R (snd (rd_delete R k r)))"
    "all_entries P (rd_view R (snd (rd_exists R k r)))" "all_entries P (rd_view R (snd (rd_publish R k v r)))"
    "all_entries P (rd_view R (snd (rd_subscribe R h k r)))" "all_entries P (rd_view R (snd (rd_close R h r)))"
    "all_entries P (rd_view R (snd (rd_ping R r)))" "all_entries P (rd_view R (rd_wait R d r))"
proof -
  have call: "all_entries P (rd_view R (snd (f r)))" if "realises (rd_view R) up f g"
    "\<And>k v m. entries (snd (g (rd_view R r))) k = Some (v, m) \<Longrightarrow>
       \<exists>m'. entries (rd_view R r) k = Some (v, m') \<and> (m' = None \<longleftrightarrow> m = None)" for up f g
    using all_entries_realised [OF that(1) assms] all_entries_fewer [OF assms that(2)] by blast
  show "all_entries P (rd_view R (snd (rd_get R k r)))" by (rule call [OF get_law]) (simp add: redis_docs)
  show "all_entries P (rd_view R (snd (rd_getdel R k r)))"
    by (rule call [OF getdel_law]) (simp add: redis_docs split: if_splits)
  show "all_entries P (rd_view R (snd (rd_delete R k r)))"
    by (rule call [OF delete_law]) (simp add: redis_docs split: if_splits)
  show "all_entries P (rd_view R (snd (rd_exists R k r)))" by (rule call [OF exists_law]) (simp add: redis_docs)
  show "all_entries P (rd_view R (snd (rd_publish R k v r)))" by (rule call [OF publish_law]) (simp add: redis_docs)
  show "all_entries P (rd_view R (snd (rd_subscribe R h k r)))" by (rule call [OF subscribe_law]) (simp add: doc_subscribe_def)
  show "all_entries P (rd_view R (snd (rd_close R h r)))" by (rule call [OF close_law]) (simp add: doc_close_def)
  show "all_entries P (rd_view R (snd (rd_ping R r)))" by (rule call [OF ping_law]) (simp add: redis_docs)
  show "all_entries P (rd_view R (rd_wait R d r))"
    by (rule all_entries_fewer [OF assms]) (simp add: wait_law redis_docs age_entry)
qed

lemmas all_entries_rules = all_entries_set all_entries_expire all_entries_script all_entries_calls

end

section \<open>The form of what is in Redis\<close>

text \<open>
  The status of a user is online or away and has a lifetime, the time last seen is a time and stays, a
  ticket is for a user id.
\<close>

definition well_formed :: "string \<Rightarrow> string \<Rightarrow> bool \<Rightarrow> bool" where
  "well_formed k v stays \<longleftrightarrow>
     (\<forall>u. is_user_id u \<longrightarrow> k = presence_key u \<longrightarrow> (v = ''online'' \<or> v = ''away'') \<and> \<not> stays) \<and>
     (\<forall>u. is_user_id u \<longrightarrow> k = last_seen_key u \<longrightarrow> fromisoformat v \<noteq> None \<and> stays) \<and>
     (\<forall>t. k = ticket_key t \<longrightarrow> is_user_id v)"

lemma ticket_distinct [simp]:
  "ticket_key k \<noteq> presence_key u" "ticket_key k \<noteq> last_seen_key u" "ticket_key k \<noteq> dedup_key n"
  "presence_key u \<noteq> ticket_key k" "last_seen_key u \<noteq> ticket_key k"
  by (simp_all add: ticket_key_def presence_key_def last_seen_key_def dedup_key_def)

lemma well_formed_others:
  "well_formed (registry_key u) v b" "well_formed (liveness_key i) v b" "well_formed (dedup_key n) v b"
  "well_formed (rate_limit_key c) v b"
  by (simp_all add: well_formed_def registry_key_def liveness_key_def dedup_key_def rate_limit_key_def
      presence_key_def last_seen_key_def ticket_key_def)

lemma well_formed_writes:
  "is_user_id u \<Longrightarrow> v = ''online'' \<or> v = ''away'' \<Longrightarrow> well_formed (presence_key u) v False"
  "is_user_id u \<Longrightarrow> valid_date t \<Longrightarrow> well_formed (last_seen_key u) (isoformat t) True"
  "is_user_id u \<Longrightarrow> well_formed (ticket_key k) u b"
  "is_user_id u \<Longrightarrow> well_formed (presence_key u) w b \<Longrightarrow> well_formed (presence_key u) w False"
  by (simp_all add: well_formed_def)

definition typed :: "'r redis \<Rightarrow> ('r, 'd, 'w) world \<Rightarrow> bool" where
  "typed R w \<longleftrightarrow> all_entries well_formed (store R w) \<and> valid_date (w_now w)"

context platform
begin

sublocale forms: effects "\<lambda>_ _. typed R" "\<lambda>S _ S' w'. typed R w' \<and> S \<subseteq> S'" "\<lambda>_. typed R" "\<lambda>_ _. True" "{}"
  "\<lambda>sid. sid" "\<lambda>S _ _. S" "\<lambda>S _. S" "\<lambda>_ _. True" "\<lambda>_ _ _. True" "\<lambda>_ _ _ _. True"
  R D W is_user_id valid_date "\<lambda>_ _ _. True" "\<lambda>_ _. True"
proof unfold_locales
  show "is_user_id u" if "typed R w" "fst (rd_getdel R (ticket_key k) (w_redis w)) = Some (Some u)" for S w k u
  proof -
    have "value_of (store R w) (ticket_key k) = Some u"
      using realises_Some(1) [OF getdel_law that(2)] by (simp add: redis_docs)
    with that(1) show ?thesis by (auto simp: typed_def all_entries_def well_formed_def)
  qed
qed (auto simp: typed_def elapse_def insert_returns intro!: all_entries_rules well_formed_others well_formed_writes)

lemma application_typed:
  "reachable (application H F R D W V J) w (ps, w') \<Longrightarrow> typed R w \<Longrightarrow> typed R w'"
  by (rule forms.application_holds)

text \<open>What the readers make of it.\<close>

lemma typed_presence:
  assumes "typed R w" "is_user_id u"
  shows "presence_ok R u w"
  using all_entriesD [of well_formed "store R w" "presence_key u"] all_entriesD [of well_formed "store R w" "last_seen_key u"] assms
  by (fastforce simp: presence_ok_def typed_def well_formed_def split: option.splits)

lemma run_get_presence:
  assumes "presence_ok R u w"
  shows "fst (run (get_presence R u) w) = Inl RedisError \<or>
    (\<exists>presence. fst (run (get_presence R u) w) = Inr presence \<and> pr_user_id presence = u)"
proof -
  let ?g1 = "rd_get R (presence_key u) (w_redis w)"
  let ?g2 = "rd_get R (last_seen_key u) (snd ?g1)"
  show ?thesis
  proof (cases "fst ?g1 = None \<or> fst ?g2 = None")
    case True
    then show ?thesis
      by (auto simp: get_presence_def get_presence_info_def get_status_def get_last_seen_def split: option.splits)
  next
    case False
    then obtain a b where got: "fst ?g1 = Some a" "fst ?g2 = Some b" by (meson not_None_eq)
    have a: "a = value_of (store R w) (presence_key u)" "rd_view R (snd ?g1) = store R w"
      using realises_Some [OF get_law got(1)] by (simp_all add: redis_docs)
    have b: "b = value_of (store R w) (last_seen_key u)"
      using realises_Some(1) [OF get_law got(2)] a(2) by (simp add: redis_docs)
    obtain st where st: "presence_status_of (case a of None \<Rightarrow> ''offline'' | Some x \<Rightarrow> x) = Some st"
      using assms a(1) by (auto simp: presence_ok_def presence_status_of_def split: option.splits)
    have "case b of None \<Rightarrow> True | Some raw \<Rightarrow> fromisoformat raw \<noteq> None"
      using assms b by (auto simp: presence_ok_def split: option.splits)
    with got st show ?thesis
      by (auto simp: get_presence_def get_presence_info_def get_status_def get_last_seen_def split: option.splits)
  qed
qed

lemma typed_reads:
  assumes "typed R w"
  shows "is_user_id u \<Longrightarrow> presence_ok R u w \<and>
      (fst (run (get_presence R u) w) = Inl RedisError \<or>
       (\<exists>presence. fst (run (get_presence R u) w) = Inr presence \<and> pr_user_id presence = u))"
    "fst (run (redeem_ticket R t) w) = Inr (Some u) \<Longrightarrow> is_user_id u"
proof -
  show "is_user_id u \<Longrightarrow> presence_ok R u w \<and>
      (fst (run (get_presence R u) w) = Inl RedisError \<or>
       (\<exists>presence. fst (run (get_presence R u) w) = Inr presence \<and> pr_user_id presence = u))"
    using typed_presence [OF assms] run_get_presence by blast
  assume "fst (run (redeem_ticket R t) w) = Inr (Some u)"
  then have "map_option fst (ticket_entry R w t) = Some u" using redeem_Some(1) by (metis prod.collapse)
  with assms show "is_user_id u" by (auto simp: typed_def all_entries_def well_formed_def)
qed

end

section \<open>What the tables hold\<close>

text \<open>Rows, committed or not, of the kind that requests are accepted for.\<close>

definition rows_ok :: "dbstate \<Rightarrow> bool" where
  "rows_ok s \<longleftrightarrow>
     (\<forall>sid. \<forall>n\<in>set (notifications s) \<union> set (added (pending s sid)). acceptable (n_type n) (n_payload n))"

lemma rows_okD: "rows_ok s \<Longrightarrow> n \<in> set (notifications s) \<Longrightarrow> acceptable (n_type n) (n_payload n)"
  by (simp add: rows_ok_def)

lemma rows_visible:
  assumes "rows_ok s" "n \<in> set (fst (visible s sid))"
  shows "acceptable (n_type n) (n_payload n)"
proof -
  let ?f = "\<lambda>n. (n_type n, n_payload n)"
  have "?f (assign a m) = ?f m" for a m by (cases a) simp_all
  from arg_cong [OF map_visible [of ?f, OF this, of s sid], of set] assms(2)
  obtain m where "m \<in> set (notifications s) \<union> set (added (pending s sid))" "?f n = ?f m"
    by (auto simp: image_iff dest!: equalityD1 [THEN subsetD, of _ _ "?f n"])
  with assms(1) show ?thesis by (auto simp: rows_ok_def)
qed

lemma rows_ok_next [simp]:
  "rows_ok (s\<lparr>next_row := k, pending := p\<rparr>) = rows_ok (s\<lparr>pending := p\<rparr>)"
  by (simp add: rows_ok_def)

lemma rows_ok_pend:
  assumes "rows_ok s" "\<And>n. n \<in> set (added ws) \<Longrightarrow> acceptable (n_type n) (n_payload n)"
  shows "rows_ok (pend sid ws s)"
  using assms by (auto simp: rows_ok_def)

lemma rows_ok_docs:
  assumes "rows_ok s"
  shows "acceptable ty pl \<Longrightarrow> rows_ok (snd (doc_insert_notification sid i u ty pl s))"
    "rows_ok (snd (doc_update_notifications sid cs a s))" "rows_ok (snd (doc_insert_receipt sid i u t s))"
    "rows_ok (snd (doc_commit sid s))" "rows_ok (snd (doc_close_session sid s))"
    "rows_ok (snd (doc_select_notifications sid cs ord lim s))" "rows_ok (snd (doc_select_receipts sid i s))"
    "rows_ok (snd (doc_select_one sid s))" "rows_ok (snd (doc_dispose e s))"
proof -
  have mine: "n \<in> set (added (pending s sid)) \<Longrightarrow> acceptable (n_type n) (n_payload n)" for n
    using assms unfolding rows_ok_def by blast
  show "acceptable ty pl \<Longrightarrow> rows_ok (snd (doc_insert_notification sid i u ty pl s))"
    using assms mine by (auto simp: doc_insert_notification_def add_pending_def Let_def intro!: rows_ok_pend)
  show "rows_ok (snd (doc_update_notifications sid cs a s))" "rows_ok (snd (doc_insert_receipt sid i u t s))"
    using assms mine
    by (auto simp: doc_update_notifications_def doc_insert_receipt_def add_pending_def Let_def intro!: rows_ok_pend)
  show "rows_ok (snd (doc_close_session sid s))"
    using assms by (auto simp: doc_close_session_def intro!: rows_ok_pend)
  show "rows_ok (snd (doc_commit sid s))"
    using rows_visible [OF assms, of _ sid] assms by (auto simp: doc_commit_def rows_ok_def)
qed (use assms in \<open>simp_all add: doc_select_notifications_def doc_select_receipts_def doc_select_one_def doc_dispose_def\<close>)

context platform
begin

lemma rows_call: "realises (db_view D) up f g \<Longrightarrow> (\<And>s. rows_ok s \<Longrightarrow> rows_ok (snd (g s))) \<Longrightarrow> rows_ok (db_view D d) \<Longrightarrow>
    rows_ok (db_view D (snd (f d)))"
  by (metis realises_effect)

sublocale rows: effects "\<lambda>_. keeping (\<lambda>w. rows_ok (data D w))" "\<lambda>S w S' w'. keeping (\<lambda>w. rows_ok (data D w)) w w' \<and> S \<subseteq> S'"
  "\<lambda>_ _. True" "\<lambda>_ _. True" "{}" "\<lambda>sid. sid" "\<lambda>S _ _. S" "\<lambda>S _. S" "\<lambda>_ _. True" "\<lambda>_ _ _. True" "\<lambda>_ _ _ _. True"
  R D W "\<lambda>_. True" "\<lambda>_. True" "\<lambda>_ _ _. True" "\<lambda>_ _. True"
  by (intro effects.intro effects_axioms.intro steps_sessions keeping.steps_axioms)
    (auto simp: keeping_def elapse_def insert_returns rows_ok_docs
      intro: rows_call [OF insert_law] rows_call [OF update_law] rows_call [OF select_law] rows_call [OF receipt_law]
        rows_call [OF receipts_law] rows_call [OF one_law] rows_call [OF commit_law] rows_call [OF session_law]
        rows_call [OF dispose_law])

lemma application_rows:
  assumes "reachable (application H F R D W V J) w (ps, w')" "rows_ok (data D w)"
  shows "rows_ok (data D w')"
proof -
  from assms(1) have "keeping (\<lambda>w. rows_ok (data D w)) w w'"
    by (rule obeys_reachable [OF keeping.steps_axioms])
      (use behaves_obeys [OF rows.behaves_application keeping.steps_axioms] in blast)
  with assms(2) show ?thesis by (simp add: keeping_def)
qed

end

section \<open>Marked only when stored\<close>

text \<open>What a session would commit: what is committed already, and its own inserts.\<close>

definition to_commit :: "dbstate \<Rightarrow> nat \<Rightarrow> uuid \<Rightarrow> bool" where
  "to_commit s sid i \<longleftrightarrow> stored s i \<or> (\<exists>n. AddNotification n \<in> set (pending s sid) \<and> n_notification_id n = i)"

lemma ids_written:
  "n_notification_id ` set (fst (foldl apply_write (ns, rs) ws)) =
     n_notification_id ` set ns \<union> {n_notification_id n | n. AddNotification n \<in> set ws}"
proof (induction ws arbitrary: ns rs)
  case (Cons wr ws)
  have "n_notification_id ` set (map (\<lambda>n. if n_id n \<in> X then assign a n else n) ns) = n_notification_id ` set ns" for X a
    unfolding set_map [symmetric] by (simp add: comp_def if_distrib cong: if_cong)
  with Cons.IH show ?case by (cases wr) auto
qed simp

lemma to_commit_visible: "to_commit s sid i \<longleftrightarrow> i \<in> n_notification_id ` set (fst (visible s sid))"
  by (auto simp: to_commit_def visible_def ids_written)

context database_service
begin

lemma pending_others:
  assumes "sid' \<noteq> sid"
  shows "pending (db_view D (snd (db_insert_notification D sid i u ty pl d))) sid' = pending (db_view D d) sid'"
    "pending (db_view D (snd (db_update_notifications D sid cs a d))) sid' = pending (db_view D d) sid'"
    "pending (db_view D (snd (db_insert_receipt D sid i u t d))) sid' = pending (db_view D d) sid'"
    "pending (db_view D (snd (db_commit D sid d))) sid' = pending (db_view D d) sid'"
    "pending (db_view D (snd (db_close D sid d))) sid' = pending (db_view D d) sid'"
proof -
  show "pending (db_view D (snd (db_insert_notification D sid i u ty pl d))) sid' = pending (db_view D d) sid'"
    using realises_effect [OF insert_law, of sid i u ty pl d] assms
    by (auto simp: doc_insert_notification_def add_pending_def Let_def)
  show "pending (db_view D (snd (db_update_notifications D sid cs a d))) sid' = pending (db_view D d) sid'"
    using realises_effect [OF update_law, of sid cs a d] assms
    by (auto simp: doc_update_notifications_def add_pending_def Let_def)
  show "pending (db_view D (snd (db_insert_receipt D sid i u t d))) sid' = pending (db_view D d) sid'"
    using realises_effect [OF receipt_law, of sid i u t d] assms
    by (auto simp: doc_insert_receipt_def add_pending_def)
  show "pending (db_view D (snd (db_commit D sid d))) sid' = pending (db_view D d) sid'"
    using realises_effect [OF commit_law, of sid d] assms by (auto simp: doc_commit_def)
  show "pending (db_view D (snd (db_close D sid d))) sid' = pending (db_view D d) sid'"
    using realises_effect [OF session_law, of sid d] assms by (auto simp: doc_close_session_def)
qed

lemma pending_same:
  "pending (db_view D (snd (db_select_notifications D sid cs ord lim d))) = pending (db_view D d)"
  "pending (db_view D (snd (db_select_receipts D sid i d))) = pending (db_view D d)"
  "pending (db_view D (snd (db_select_one D sid d))) = pending (db_view D d)"
  "pending (db_view D (snd (db_dispose D n d))) = pending (db_view D d)"
  using realises_effect [OF select_law, of sid cs ord lim d] realises_effect [OF receipts_law, of sid i d]
    realises_effect [OF one_law, of sid d] realises_effect [OF dispose_law, of n d]
  by (auto simp: doc_select_notifications_def doc_select_receipts_def doc_select_one_def doc_dispose_def)

lemma insert_to_commit:
  assumes "fst (db_insert_notification D sid i u ty pl d) \<noteq> None"
  shows "to_commit (db_view D (snd (db_insert_notification D sid i u ty pl d))) sid i"
proof -
  obtain r where "fst (db_insert_notification D sid i u ty pl d) = Some r" using assms by blast
  note insert = realises_Some(2) [OF insert_law this]
  show ?thesis
  proof (cases "i \<in> n_notification_id ` set (fst (visible (db_view D d) sid))")
    case True
    then show ?thesis unfolding insert
      by (auto simp: doc_insert_notification_def to_commit_visible list_ex_iff)
  next
    case False
    then show ?thesis unfolding insert
      by (auto simp: doc_insert_notification_def to_commit_def add_pending_def list_ex_iff image_iff Let_def)
  qed
qed

lemma commit_stores:
  assumes "to_commit (db_view D d) sid i" "fst (db_commit D sid d) \<noteq> None"
  shows "stored (db_view D (snd (db_commit D sid d))) i"
proof -
  obtain r where "fst (db_commit D sid d) = Some r" using assms(2) by blast
  from realises_Some(2) [OF commit_law this] assms(1) show ?thesis by (simp add: doc_commit_def to_commit_visible)
qed

end

text \<open>Every id that Redis has as seen is in the table.\<close>

definition seen_stored :: "'r redis \<Rightarrow> 'd database \<Rightarrow> ('r, 'd, 'w) world \<Rightarrow> bool" where
  "seen_stored R D w \<longleftrightarrow> all_entries (\<lambda>k _ _. \<forall>n. k = dedup_key n \<longrightarrow> stored (data D w) n) (store R w)"

lemma seen_stored_iff: "seen_stored R D w \<longleftrightarrow> (\<forall>n. seen R w n \<longrightarrow> stored (data D w) n)"
  by (auto simp: seen_stored_def all_entries_def)

lemma seen_storedD: "seen_stored R D w \<Longrightarrow> seen R w n \<Longrightarrow> stored (data D w) n"
  by (simp add: seen_stored_iff)

definition same_pending :: "'d database \<Rightarrow> nat set \<Rightarrow> ('r, 'd, 'w) world \<Rightarrow> ('r, 'd, 'w) world \<Rightarrow> bool" where
  "same_pending D S w w' \<longleftrightarrow> (\<forall>sid\<in>S. pending (data D w') sid = pending (data D w) sid)"

definition later :: "'d database \<Rightarrow> ('r, 'd, 'w) world \<Rightarrow> ('r, 'd, 'w) world \<Rightarrow> bool" where
  "later D w w' \<longleftrightarrow> w_fresh w \<le> w_fresh w' \<and> (\<forall>n. stored (data D w) n \<longrightarrow> stored (data D w') n)"

text \<open>
  The sessions a task owns are among those opened so far; the others leave them alone. \<open>I\<close> holds throughout, and
  \<open>L\<close> across every step.
\<close>

definition own_hold :: "(('r, 'd, 'w) world \<Rightarrow> bool) \<Rightarrow> nat set \<Rightarrow> ('r, 'd, 'w) world \<Rightarrow> bool" where
  "own_hold I S w \<longleftrightarrow> I w \<and> S \<subseteq> {..<w_fresh w}"

definition own_rely ::
  "'d database \<Rightarrow> (('r, 'd, 'w) world \<Rightarrow> bool) \<Rightarrow> (('r, 'd, 'w) world \<Rightarrow> ('r, 'd, 'w) world \<Rightarrow> bool) \<Rightarrow>
    nat set \<Rightarrow> ('r, 'd, 'w) world \<Rightarrow> ('r, 'd, 'w) world \<Rightarrow> bool" where
  "own_rely D I L S w w' \<longleftrightarrow> own_hold I S w' \<and> w_fresh w \<le> w_fresh w' \<and> L w w' \<and> same_pending D S w w'"

definition own_guar ::
  "'d database \<Rightarrow> (('r, 'd, 'w) world \<Rightarrow> bool) \<Rightarrow> (('r, 'd, 'w) world \<Rightarrow> ('r, 'd, 'w) world \<Rightarrow> bool) \<Rightarrow>
    nat set \<Rightarrow> ('r, 'd, 'w) world \<Rightarrow> nat set \<Rightarrow> ('r, 'd, 'w) world \<Rightarrow> bool" where
  "own_guar D I L S w S' w' \<longleftrightarrow> own_hold I S' w' \<and> w_fresh w \<le> w_fresh w' \<and> L w w' \<and>
     same_pending D ({..<w_fresh w} - S) w w' \<and> S \<subseteq> S' \<and> S' - S \<subseteq> {w_fresh w..}"

lemma own_sessions:
  assumes "steps L"
  shows "sessions (own_rely D I L) (own_guar D I L) (own_hold I) (\<lambda>S T. S \<inter> T = {}) {}"
proof unfold_locales
  show "own_rely D I L T w w' \<and> S' \<inter> T = {}"
    if "own_hold I S w" "own_guar D I L S w S' w'" "own_hold I T w" "S \<inter> T = {}" for S T S' w w'
  proof
    have "S' \<subseteq> S \<union> {w_fresh w..}" "T \<subseteq> {..<w_fresh w}" using that by (auto simp: own_guar_def own_hold_def)
    with that(4) show "S' \<inter> T = {}" by fastforce
    from that show "own_rely D I L T w w'"
      by (auto simp: own_guar_def own_hold_def own_rely_def same_pending_def)
  qed
  show "own_rely D I L S w w''" if "own_rely D I L S w w'" "own_rely D I L S w' w''" for S w w' w''
    using that steps.trans [OF assms] by (auto simp: own_rely_def same_pending_def)
qed (use steps.refl [OF assms] in \<open>auto simp: own_rely_def own_guar_def own_hold_def same_pending_def\<close>)

lemma steps_later: "steps (later D)"
  by unfold_locales (auto simp: later_def)

abbreviation marks_hold :: "'r redis \<Rightarrow> 'd database \<Rightarrow> nat set \<Rightarrow> ('r, 'd, 'w) world \<Rightarrow> bool" where
  "marks_hold R D \<equiv> own_hold (seen_stored R D)"

abbreviation marks_rely :: "'r redis \<Rightarrow> 'd database \<Rightarrow> nat set \<Rightarrow> ('r, 'd, 'w) world \<Rightarrow> ('r, 'd, 'w) world \<Rightarrow> bool" where
  "marks_rely R D \<equiv> own_rely D (seen_stored R D) (later D)"

abbreviation marks_guar :: "'r redis \<Rightarrow> 'd database \<Rightarrow> nat set \<Rightarrow> ('r, 'd, 'w) world \<Rightarrow> nat set \<Rightarrow> ('r, 'd, 'w) world \<Rightarrow> bool" where
  "marks_guar R D \<equiv> own_guar D (seen_stored R D) (later D)"

lemmas marks_sessions = own_sessions [OF steps_later]

context platform
begin

lemma marks_entries:
  "marks_hold R D S w \<Longrightarrow> all_entries (\<lambda>k _ _. \<forall>n. k = dedup_key n \<longrightarrow> stored (data D w) n) (store R w)"
  by (simp add: own_hold_def seen_stored_def)

lemma seen_stored_redis:
  assumes "marks_hold R D S w" "all_entries (\<lambda>k _ _. \<forall>n. k = dedup_key n \<longrightarrow> stored (data D w) n) (rd_view R r)"
  shows "marks_guar R D S w S (w\<lparr>w_redis := r\<rparr>)"
  using assms by (simp add: own_guar_def own_hold_def seen_stored_def later_def same_pending_def)

lemma seen_stored_db:
  assumes "marks_hold R D S w" "on_data D db_step w (w\<lparr>w_db := d\<rparr>)"
    "\<And>sid'. sid' \<notin> S \<Longrightarrow> pending (db_view D d) sid' = pending (data D w) sid'"
  shows "marks_guar R D S w S (w\<lparr>w_db := d\<rparr>)"
proof -
  have "later D w (w\<lparr>w_db := d\<rparr>)" using stored_kept [OF assms(2)] by (simp add: later_def)
  with assms(1,3) show ?thesis
    by (auto simp: own_guar_def own_hold_def seen_stored_def later_def same_pending_def all_entries_def)
qed

lemma seen_stored_statement:
  assumes "marks_hold R D S w" "sid \<in> S" "on_data D db_step w (w\<lparr>w_db := d\<rparr>)"
    "\<And>sid'. sid' \<noteq> sid \<Longrightarrow> pending (db_view D d) sid' = pending (data D w) sid'"
  shows "marks_guar R D S w S (w\<lparr>w_db := d\<rparr>)"
  using assms(2,4) by (intro seen_stored_db [OF assms(1,3)]) metis

lemma seen_stored_ws: "marks_hold R D S w \<Longrightarrow> marks_guar R D S w S (w\<lparr>w_ws := x\<rparr>)"
  by (simp add: own_guar_def own_hold_def seen_stored_def later_def same_pending_def)

sublocale marks: effects "marks_rely R D" "marks_guar R D" "marks_hold R D" "\<lambda>S T. S \<inter> T = {}" "{}"
  "\<lambda>sid. sid" "\<lambda>S _ _. S" "\<lambda>S _. S" "\<lambda>_ _. True" "\<lambda>_ _ _. True" "\<lambda>_ _ _ _. True"
  R D W "\<lambda>_. True" "\<lambda>_. True" "\<lambda>w. to_commit (data D w)" "\<lambda>w. stored (data D w)"
proof (intro effects.intro effects_axioms.intro marks_sessions)
  show "marks_guar R D S w S (elapse R ms w)" if "marks_hold R D S w" for S and w :: "('r, 'd, 'w) world" and ms
    using all_entries_calls(9) [OF marks_entries [OF that], of ms] that
    by (simp add: elapse_def own_guar_def own_hold_def seen_stored_def later_def same_pending_def)
  show "marks_guar R D S w S (upd_gateway g f w)" "marks_guar R D S w S (w\<lparr>w_draws := n\<rparr>)"
    "marks_guar R D S w S (w\<lparr>w_fresh := Suc (w_fresh w)\<rparr>)"
    "marks_guar R D S w (insert (w_fresh w) S) (w\<lparr>w_fresh := Suc (w_fresh w)\<rparr>)"
    if "marks_hold R D S w" for S and w :: "('r, 'd, 'w) world" and g f n
    using that by (auto simp: own_guar_def own_hold_def seen_stored_def later_def same_pending_def)
  show "to_commit (data D w') sid i" if "to_commit (data D w) sid i" "sid \<in> S" "marks_rely R D S w w'" for S and w w' :: "('r, 'd, 'w) world" and sid i
    using that by (auto simp: to_commit_def own_rely_def same_pending_def later_def)
  show "stored (data D w') i" if "stored (data D w) i" "marks_rely R D S w w'" for S and w w' :: "('r, 'd, 'w) world" and i
    using that by (auto simp: own_rely_def later_def)
  show "marks_guar R D S w S (w\<lparr>w_db := snd (db_dispose D eng (w_db w))\<rparr>)" if "marks_hold R D S w" for S and w :: "('r, 'd, 'w) world" and eng
    by (intro seen_stored_db [OF that] statement_steps) (simp add: pending_same)
qed (auto intro!: seen_stored_redis all_entries_rules marks_entries statement_steps seen_stored_ws
    intro: seen_stored_statement simp: pending_others pending_same insert_to_commit commit_stores insert_returns)

end

section \<open>Answered only when stored\<close>

context platform
begin

lemma application_marks:
  "reachable (application H F R D W V J) w (ps, w') \<Longrightarrow> marks_hold R D {} w \<Longrightarrow> marks_hold R D {} w'"
  by (rule marks.application_holds)

lemma create_answered:
  assumes "run (create D sid i u ty pl) w = (Inr row, w')"
  shows "stored (data D w') i"
proof -
  let ?f = "db_insert_notification D sid i u ty pl"
  from assms have "fst (?f (w_db w)) \<noteq> None" "fst (db_commit D sid (snd (?f (w_db w)))) \<noteq> None"
    and w': "w' = w\<lparr>w_db := snd (db_commit D sid (snd (?f (w_db w))))\<rparr>"
    by (auto simp: create_def split: option.splits)
  from commit_stores [OF insert_to_commit [OF this(1)] this(2)] w' show ?thesis by simp
qed

lemma store_answered:
  fixes w w' :: "('r, 'd, 'w) world"
  assumes "run (store_and_deliver R D cfg body sid) w = (Inr resp, w')"
  shows "stored (data D w') (nc_notification_id body)"
proof -
  obtain k where k: "store_and_deliver R D cfg body sid =
      await (create D sid (nc_notification_id body) (nc_user_id body) (nc_type body) (nc_payload body)) k"
    "\<And>row. obeys_db D (k row :: ('r, 'd, 'w, _) task)"
    by (rule that [OF store_and_deliver_def])
      (auto simp: mark_seen_def intro!: obeys_rules obeys_repository obeys_deliver_live)
  from assms obtain row w1 where
    "run (create D sid (nc_notification_id body) (nc_user_id body) (nc_type body) (nc_payload body)) w = (Inr row, w1)"
    "run (k row) w1 = (Inr resp, w')"
    unfolding k(1) by (auto split: sum.splits prod.splits)
  then show ?thesis using create_answered stored_kept obeys_run [OF steps_db k(2)] by (metis snd_conv)
qed

lemma request_answered:
  fixes w :: "('r, 'd, 'w) world"
  assumes "seen_stored R D w" "run (create_notification R D cfg client body) w = (Inr resp, w')"
  shows "stored (data D w') (nc_notification_id body)"
proof -
  let ?i = "nc_notification_id body"
  let ?allow = "allow R (api_rate_limit_requests cfg) (api_rate_limit_window_seconds cfg) (caller_key client) :: ('r, 'd, 'w, bool) task"
  obtain r1 w1 where allow: "run ?allow w = (r1, w1)" by fastforce
  with assms(2) have ok: "r1 = Inr True"
    by (auto simp: create_notification_def split: sum.splits if_splits)
  have "marks_only R {} w w1" using obeys_run [OF steps_marks_only marks_only_tasks(1)] allow by (metis snd_conv)
  moreover have "w_db w1 = w_db w" using allow by (auto simp: allow_def split: option.splits)
  ultimately have marks: "seen R w1 n \<Longrightarrow> stored (data D w1) n" for n
    using seen_storedD [OF assms(1)] by (auto simp: marks_only_def)
  from assms(2) allow ok obtain r where r: "fst (rd_get R (dedup_key ?i) (w_redis w1)) = Some r"
    and rest: "run (if r \<noteq> None then Return (response body False False)
       else get_session D (instance_id cfg) (store_and_deliver R D cfg body)) (w1\<lparr>w_redis := snd (rd_get R (dedup_key ?i) (w_redis w1))\<rparr>)
       = (Inr resp, w')"
    by (auto simp: create_notification_def has_seen_def simp del: run_get_session split: option.splits)
  show ?thesis
  proof (cases r)
    case None
    let ?w = "w1\<lparr>w_redis := snd (rd_get R (dedup_key ?i) (w_redis w1))\<rparr>"
    let ?sid = "session_of (instance_id cfg) ?w"
    obtain r2 w2 where store: "run (store_and_deliver R D cfg body ?sid) (opened (instance_id cfg) ?w) = (r2, w2)"
      by fastforce
    with None rest have "r2 = Inr resp" "w' = w2\<lparr>w_db := snd (db_close D ?sid (w_db w2))\<rparr>"
      by (auto simp: run_get_session split: option.splits)
    with store_answered store committed_same(3) [of ?sid "w_db w2"] show ?thesis by fastforce
  next
    case (Some v)
    then have "seen R w1 ?i" using realises_Some(1) [OF get_law r] by (auto simp: redis_docs)
    with marks rest Some show ?thesis by auto
  qed
qed

end

section \<open>Counting the sockets\<close>

context platform
begin

lemma application_processes:
  "reachable (application H F R D W V J) w (ps, w') \<Longrightarrow> \<forall>i. process_ok (w_gateway w i) \<Longrightarrow>
     \<forall>i. process_ok (w_gateway w' i)"
proof -
  assume "reachable (application H F R D W V J) w (ps, w')" "\<forall>i. process_ok (w_gateway w i)"
  moreover from this(1) have "keeping (\<lambda>w. \<forall>i. process_ok (w_gateway w i)) w w'"
    by (rule obeys_reachable [OF keeping.steps_axioms])
      (use behaves_obeys [OF processes.behaves_application keeping.steps_axioms] in blast)
  ultimately show ?thesis by (simp add: keeping_def)
qed

end

section \<open>Properties\<close>

text \<open>
  C6. Whatever the application does, and wherever it is interrupted, Redis holds only what its
  readers can parse: the status of a user is online or away, the time last seen is a time, a ticket is for a
  UUID; and every row has a valid type and an object within the limit for a payload. So asking for a user's presence never raises anything but a Redis error, and the user of a
  redeemed ticket is always an id that the gateway can look up.
\<close>

theorem store_stays_typed:
  assumes "redis_service R" "database_service D" "websocket_service W"
    and "all_entries well_formed (store R w)" "valid_date (w_now w)" "rows_ok (data D w)"
    and "reachable (application H F R D W V J) w (ps, w')"
  shows "all_entries well_formed (store R w') \<and>
    (\<forall>n\<in>set (notifications (data D w')). valid_type (n_type n) \<and> is_object (n_payload n) \<and>
       length (dumps (n_payload n)) \<le> MAX_PAYLOAD_BYTES) \<and>
    (\<forall>u. is_user_id u \<longrightarrow> presence_ok R u w' \<and>
      (fst (run (get_presence R u) w') = Inl RedisError \<or>
       (\<exists>presence. fst (run (get_presence R u) w') = Inr presence \<and> pr_user_id presence = u))) \<and>
    (\<forall>t u. fst (run (redeem_ticket R t) w') = Inr (Some u) \<longrightarrow> is_user_id u)"
proof -
  have platform: "platform R D W" using assms(1-3) by (intro platform.intro stores.intro)
  have "typed R w'" using platform.application_typed [OF platform assms(7)] assms(4,5) by (simp add: typed_def)
  moreover have "rows_ok (data D w')" using platform.application_rows [OF platform assms(7,6)] .
  ultimately show ?thesis
    using platform.typed_reads [OF platform] rows_okD unfolding typed_def acceptable_def by blast
qed

theorem store_stays_typed_witness:
  "\<exists>t w'. reachable sample_application start_world ([Return ()], w') \<and>
     fst (run (redeem_ticket mem_redis t) w') = Inr (Some (uuid_str 7)) \<and> presence_ok mem_redis (uuid_str 7) w'"
proof -
  obtain t w' where reached: "reachable sample_application start_world ([Return ()], w')"
    and ticket: "value_of (store mem_redis w') (ticket_key t) = Some (uuid_str 7)"
    by (rule sample_ticket)
  have "fst (run (redeem_ticket mem_redis t) w') = Inr (Some (uuid_str 7))"
    using ticket mem.run_redeem_ticket [of w' t] by auto
  moreover have "all_entries well_formed (store mem_redis start_world)" by (simp add: all_entries_def)
  have "rows_ok (data mem_database start_world)" by (simp add: rows_ok_def mem_view_def empty_db_def)
  from store_stays_typed [OF mem.redis_service_axioms memdb.database_service_axioms memws.websocket_service_axioms
      \<open>all_entries well_formed _\<close> _ this reached]
  have "presence_ok mem_redis (uuid_str 7) w'" by simp
  ultimately show ?thesis using reached by blast
qed

text \<open>
  C4. In every state that the application reaches, an id is marked as seen only when its notification is stored,
  and a request that is answered at all, as new or as a duplicate, leaves its notification
  stored. So a retry is never refused for a notification that was lost, whatever calls failed, whatever
  replies were lost and whatever tasks were cancelled on the way.
\<close>

theorem seen_means_stored:
  assumes "redis_service R" "database_service D" "websocket_service W"
    and "\<forall>n. seen R w n \<longrightarrow> stored (data D w) n"
    and "reachable (application H F R D W V J) w (ps, w')"
  shows "(\<forall>n. seen R w' n \<longrightarrow> stored (data D w') n) \<and>
    (\<forall>cfg client body resp v. run (create_notification R D cfg client body) w' = (Inr resp, v) \<longrightarrow>
       stored (data D v) (nc_notification_id body))"
proof -
  have platform: "platform R D W" using assms(1-3) by (intro platform.intro stores.intro)
  have "marks_hold R D {} w"
    using assms(4) by (simp add: own_hold_def seen_stored_iff)
  from platform.application_marks [OF platform assms(5) this]
  have "seen_stored R D w'" by (simp add: own_hold_def)
  with platform.request_answered [OF platform this] show ?thesis
    unfolding seen_stored_iff by blast
qed

theorem seen_means_stored_witness:
  "\<exists>w'. reachable sample_application sample_world ([Return ()], w') \<and>
     seen mem_redis w' 105 \<and> stored (data mem_database w') 105"
proof -
  obtain w' where reached: "reachable sample_application sample_world ([Return ()], w')" "seen mem_redis w' 105"
    by (rule sample_served)
  from seen_means_stored [OF mem.redis_service_axioms memdb.database_service_axioms memws.websocket_service_axioms
      _ reached(1)] sample_counts(2) reached
  show ?thesis by auto
qed

text \<open>
  C22. In every state that the application reaches, each process holds one socket per user, and its gauge
  counts at least the sockets it holds: whatever was cancelled in between, it never shows fewer. Every
  operation that then changes the sockets and runs to its end leaves the gauge exact.
\<close>

theorem sockets_counted:
  assumes "redis_service R" "database_service D" "websocket_service W"
    and "\<forall>i. manager_ok (w_gateway w i)"
    and "reachable (application H F R D W V J) w (ps, w')"
  shows "distinct (map fst (connections (w_gateway w' i))) \<and>
    length (connections (w_gateway w' i)) \<le> active_connections (w_gateway w' i) \<and>
    (\<forall>oper. active_connections (w_gateway (manager_step W i oper w') i) =
       (case oper of Send u m \<Rightarrow>
          if socket_of w' i u \<noteq> None \<and> socket_of (manager_step W i oper w') i u = None
          then length (connections (w_gateway (manager_step W i oper w') i)) else active_connections (w_gateway w' i)
        | _ \<Rightarrow> length (connections (w_gateway (manager_step W i oper w') i))))"
proof -
  have platform: "platform R D W" using assms(1-3) by (intro platform.intro stores.intro)
  have "\<forall>i. process_ok (w_gateway w i)" using assms(4) by (simp add: process_ok_def manager_ok_def)
  with platform.application_processes [OF platform assms(5)] have "process_ok (w_gateway w' i)" by blast
  then show ?thesis
    by (auto simp: process_ok_def run_send_json run_close_all dropped_def set_connections_def delete_conv'
        split: manager_op.splits option.splits)
qed

theorem sockets_counted_witness:
  "\<exists>w'. reachable sample_application sample_online_world ([Return ()], w') \<and>
     connections (w_gateway w' ''instance-1'') = [(uuid_str 7, 3)] \<and> 1 \<le> active_connections (w_gateway w' ''instance-1'')"
proof -
  have connections: "connections (w_gateway sample_online_world ''instance-1'') = [(uuid_str 7, 3)]"
    and ok: "manager_ok (w_gateway sample_online_world i)" for i
    by (auto simp: upd_gateway_def sample_online_world_def subscriber_start_def liveness_start_def register_def mark_alive_def
        mem_redis_def doc_subscribe_def)
  obtain w' where reached: "reachable sample_application sample_online_world ([Return ()], w')"
    and "\<And>i. connections (w_gateway w' i) = connections (w_gateway sample_online_world i)"
    by (rule sample_ticket [of sample_online_world]) blast
  with connections have "connections (w_gateway w' ''instance-1'') = [(uuid_str 7, 3)]" by simp
  with sockets_counted [OF mem.redis_service_axioms memdb.database_service_axioms memws.websocket_service_axioms
      _ reached, of "''instance-1''"] ok reached
  show ?thesis by auto
qed

end
