(* ===== verification/Exactly_Once.thy ===== *)
theory Exactly_Once
  imports Global_Invariants
begin

text \<open>
  What subscribers are sent of a notification, in every state the application reaches: at most one message, and only once the
  notification is stored. The tasks own, beside their sessions, the ids whose rows they were the ones to
  commit: only the owner of an id publishes it, and it does so once.
\<close>

section \<open>The message of a notification\<close>

definition carries :: "string \<Rightarrow> uuid \<Rightarrow> bool" where
  "carries text i \<longleftrightarrow> (\<exists>u t row. text = dumps (live_message u t row) \<and> n_notification_id row = i)"

lemma quote_uuid: "quote (uuid_str u) = CHR 0x22 # uuid_str u @ [CHR 0x22]"
proof -
  have hex: "escape_char c = [c]" if "is_lower_hex c" for c
    using that unfolding is_lower_hex_def
    by (elim exE conjE less_16_cases; simp add: escape_char_def digit_char_def)
  have "escape_char c = [c]" if "c \<in> set (uuid_str u)" for c
    using uuid_str_chars [OF that] hex by (auto simp: escape_char_def)
  then have "concat (map escape_char (uuid_str u)) = concat (map (\<lambda>c. [c]) (uuid_str u))"
    by (metis map_cong)
  then show ?thesis by (simp add: quote_def)
qed

lemma length_uuid_str: "length (uuid_str u) = 36"
  by (simp add: uuid_str_def Let_def)

lemma make_float_JFloat: "\<exists>m j. make_float n k = JFloat m j"
  by (induction n k rule: make_float.induct) auto

lemma show_float_plain:
  assumes "c \<in> set (show_float n k)"
  shows "c \<noteq> CHR 0x22"
proof -
  from assms consider "is_dec_digit c" | "c = CHR ''.''" | "c = CHR ''-''"
    using show_nat_digits [of c] by (auto simp: show_float_def show_frac_def split: if_splits)
  then show ?thesis by cases (auto simp: is_dec_digit_def)
qed

text \<open>The text starts with the user, the time and the id, at places that depend on the length of the time only.\<close>

definition text_start :: string where
  "text_start = ''{'' @ quote ''user_id'' @ '': '' @ [CHR 0x22]"

definition text_time :: string where
  "text_time = [CHR 0x22] @ '', '' @ quote ''published_at'' @ '': ''"

definition text_id :: string where
  "text_id = quote ''notification'' @ '': {'' @ quote ''notification_id'' @ '': '' @ [CHR 0x22]"

lemma text_layout:
  obtains f rest where "dumps (live_message u t row) =
      text_start @ uuid_str u @ text_time @ f @ '', '' @ text_id @ uuid_str (n_notification_id row) @ rest"
    "CHR 0x22 \<notin> set f"
proof -
  obtain m j where float: "make_float t 6 = JFloat m j" using make_float_JFloat by blast
  show thesis
    by (rule that [of "show_float m j"])
      (auto simp: live_message_def live_notification_def float quote_uuid text_start_def text_time_def text_id_def
        dest: show_float_plain)
qed

lemma carries_message: "carries (dumps (live_message u t row)) i \<longleftrightarrow> i = n_notification_id row"
proof
  assume "carries (dumps (live_message u t row)) i"
  then obtain u' t' row' where same: "dumps (live_message u t row) = dumps (live_message u' t' row')" "n_notification_id row' = i"
    by (auto simp: carries_def)
  let ?from = "\<lambda>s. take 36 (drop (length text_id) (dropWhile (\<lambda>c. c \<noteq> CHR 0x22)
    (drop (length text_start + 36 + length text_time) s)))"
  have id_at: "?from (dumps (live_message v d r)) = uuid_str (n_notification_id r)" for v d r
  proof -
    obtain f rest where "dumps (live_message v d r) =
        text_start @ uuid_str v @ text_time @ f @ '', '' @ text_id @ uuid_str (n_notification_id r) @ rest"
      "CHR 0x22 \<notin> set f" by (rule text_layout)
    moreover from this(2) have "dropWhile (\<lambda>c. c \<noteq> CHR 0x22) (f @ '', '' @ text_id @ s) = text_id @ s" for s
      by (subst dropWhile_append2) (auto simp: text_id_def quote_def)
    ultimately show ?thesis by (simp add: length_uuid_str)
  qed
  from arg_cong [OF same(1), of ?from] same(2) show "i = n_notification_id row" by (simp only: id_at uuid_str_inj)
qed (auto simp: carries_def)

section \<open>Who may publish\<close>

text \<open>How many of the messages a subscriber was sent carry the notification.\<close>

definition copies :: "rstate \<Rightarrow> nat \<Rightarrow> uuid \<Rightarrow> nat" where
  "copies s h i = length (filter (\<lambda>(channel, text). carries text i) (deliveries s h))"

definition sent_once :: "rstate \<Rightarrow> dbstate \<Rightarrow> bool" where
  "sent_once s d \<longleftrightarrow> (\<forall>h i. copies s h i \<le> 1 \<and> (copies s h i \<noteq> 0 \<longrightarrow> stored d i))"

lemma copies_publish:
  "copies (snd (doc_publish c (dumps (live_message u t row)) s)) h i =
     (if i = n_notification_id row \<and> h \<in> set (subscribers s c) then Suc (copies s h i) else copies s h i)"
  by (simp add: copies_def doc_publish_def carries_message)

text \<open>
  A task owns its sessions, the ids whose rows it committed (\<open>Won\<close>), and the ids it has published
  (\<open>Sent\<close>). What it won and has not published, nobody was sent.
\<close>

datatype claim = Session nat | Won uuid | Sent uuid

definition once_hold :: "'r redis \<Rightarrow> 'd database \<Rightarrow> claim set \<Rightarrow> ('r, 'd, 'w) world \<Rightarrow> bool" where
  "once_hold R D S w \<longleftrightarrow> tables_ok (data D w) \<and> sent_once (store R w) (data D w) \<and>
     (\<forall>sid. Session sid \<in> S \<longrightarrow> sid < w_fresh w) \<and> (\<forall>i. Won i \<in> S \<longrightarrow> stored (data D w) i) \<and>
     (\<forall>i. Sent i \<in> S \<longrightarrow> Won i \<in> S) \<and> (\<forall>i h. Won i \<in> S \<longrightarrow> Sent i \<notin> S \<longrightarrow> copies (store R w) h i = 0)"

definition once_rely :: "'r redis \<Rightarrow> 'd database \<Rightarrow> claim set \<Rightarrow> ('r, 'd, 'w) world \<Rightarrow> ('r, 'd, 'w) world \<Rightarrow> bool" where
  "once_rely R D S w w' \<longleftrightarrow> once_hold R D S w' \<and> later D w w' \<and> same_pending D {sid. Session sid \<in> S} w w'"

definition once_guar ::
  "'r redis \<Rightarrow> 'd database \<Rightarrow> claim set \<Rightarrow> ('r, 'd, 'w) world \<Rightarrow> claim set \<Rightarrow> ('r, 'd, 'w) world \<Rightarrow> bool" where
  "once_guar R D S w S' w' \<longleftrightarrow> once_hold R D S' w' \<and> later D w w' \<and>
     same_pending D {sid. sid < w_fresh w \<and> Session sid \<notin> S} w w' \<and> S \<subseteq> S' \<and>
     (\<forall>sid. Session sid \<in> S' - S \<longrightarrow> w_fresh w \<le> sid) \<and> (\<forall>i. Won i \<in> S' - S \<longrightarrow> \<not> stored (data D w) i) \<and>
     (\<forall>i h. copies (store R w) h i = 0 \<longrightarrow> Won i \<notin> S \<longrightarrow> copies (store R w') h i = 0)"

lemma once_apart:
  assumes "once_hold R D S w" "once_guar R D S w S' w'" "once_hold R D T w" "S \<inter> T = {}"
  shows "S' \<inter> T = {}"
proof -
  have "x \<notin> T" if "x \<in> S'" "x \<notin> S" for x
  proof (cases x)
    case (Session sid)
    with that assms(2,3) show ?thesis by (force simp: once_guar_def once_hold_def)
  next
    case (Won i)
    with that assms(2,3) show ?thesis by (auto simp: once_guar_def once_hold_def)
  next
    case (Sent i)
    with that assms(2) have "Won i \<in> S'" by (auto simp: once_guar_def once_hold_def)
    with assms(2-4) have "Won i \<notin> T" by (cases "Won i \<in> S") (auto simp: once_guar_def once_hold_def)
    with Sent assms(3) show ?thesis by (auto simp: once_hold_def)
  qed
  with assms(4) show ?thesis by blast
qed

lemma once_others:
  assumes "once_hold R D S w" "once_guar R D S w S' w'" "once_hold R D T w" "S \<inter> T = {}"
  shows "once_rely R D T w w'"
proof -
  have "copies (store R w') h i = 0" if "Won i \<in> T" "Sent i \<notin> T" for i h
  proof -
    from that assms(3,4) have "copies (store R w) h i = 0" "Won i \<notin> S" by (auto simp: once_hold_def)
    with assms(2) show ?thesis by (simp add: once_guar_def)
  qed
  moreover have later: "later D w w'" and ok: "tables_ok (data D w')" "sent_once (store R w') (data D w')"
    using assms(2) by (simp_all add: once_guar_def once_hold_def)
  moreover have mine: "sid < w_fresh w" "Session sid \<notin> S" if "Session sid \<in> T" for sid
    using that assms(3,4) by (auto simp: once_hold_def)
  moreover have "sid < w_fresh w'" if "Session sid \<in> T" for sid
    using mine(1) [OF that] later by (simp add: later_def)
  moreover have "stored (data D w') i" if "Won i \<in> T" for i
    using that assms(3) later by (simp add: once_hold_def later_def)
  moreover have "Won i \<in> T" if "Sent i \<in> T" for i
    using that assms(3) by (simp add: once_hold_def)
  ultimately have "once_hold R D T w'" unfolding once_hold_def by blast
  moreover have "same_pending D {sid. Session sid \<in> T} w w'"
    using assms(2) mine by (simp add: once_guar_def same_pending_def)
  ultimately show ?thesis using later by (simp add: once_rely_def)
qed

lemma once_sessions: "sessions (once_rely R D) (once_guar R D) (once_hold R D) (\<lambda>S T. S \<inter> T = {}) {}"
proof unfold_locales
  show "once_rely R D T w w' \<and> S' \<inter> T = {}"
    if "once_hold R D S w" "once_guar R D S w S' w'" "once_hold R D T w" "S \<inter> T = {}" for S T S' w w'
    using once_others [OF that] once_apart [OF that] ..
  show "once_rely R D S w w''" if "once_rely R D S w w'" "once_rely R D S w' w''" for S w w' w''
    using that by (auto simp: once_rely_def same_pending_def later_def)
qed (auto simp: once_rely_def once_guar_def once_hold_def later_def same_pending_def)

context redis_service
begin

lemma deliveries_call:
  assumes "realises (rd_view R) up f g" "\<And>s. deliveries (snd (g s)) = deliveries s"
  shows "deliveries (rd_view R (snd (f r))) = deliveries (rd_view R r)"
  using realises_effect [OF assms(1), of r] assms(2) by auto

lemma deliveries_calls:
  "deliveries (rd_view R (snd (rd_set R k v t r))) = deliveries (rd_view R r)"
  "deliveries (rd_view R (snd (rd_get R k r))) = deliveries (rd_view R r)"
  "deliveries (rd_view R (snd (rd_getdel R k r))) = deliveries (rd_view R r)"
  "deliveries (rd_view R (snd (rd_delete R k r))) = deliveries (rd_view R r)"
  "deliveries (rd_view R (snd (rd_expire R k e r))) = deliveries (rd_view R r)"
  "deliveries (rd_view R (snd (rd_exists R k r))) = deliveries (rd_view R r)"
  "deliveries (rd_view R (snd (rd_eval R (token_bucket_script key limit window) r))) = deliveries (rd_view R r)"
  "deliveries (rd_view R (snd (rd_subscribe R h k r))) = deliveries (rd_view R r)"
  "deliveries (rd_view R (snd (rd_close R h r))) = deliveries (rd_view R r)"
  "deliveries (rd_view R (snd (rd_ping R r))) = deliveries (rd_view R r)"
  "deliveries (rd_view R (rd_wait R d r)) = deliveries (rd_view R r)"
proof -
  have set: "deliveries (snd (doc_set k v t s)) = deliveries s" for s by (cases t) simp_all
  have expire: "deliveries (snd (doc_expire k e s)) = deliveries s" for s
    by (simp add: doc_expire_def split: option.splits)
  show "deliveries (rd_view R (snd (rd_set R k v t r))) = deliveries (rd_view R r)"
    by (rule deliveries_call [OF set_law set])
  show "deliveries (rd_view R (snd (rd_expire R k e r))) = deliveries (rd_view R r)"
    by (rule deliveries_call [OF expire_law expire])
  show "deliveries (rd_view R (snd (rd_get R k r))) = deliveries (rd_view R r)"
    "deliveries (rd_view R (snd (rd_getdel R k r))) = deliveries (rd_view R r)"
    "deliveries (rd_view R (snd (rd_delete R k r))) = deliveries (rd_view R r)"
    "deliveries (rd_view R (snd (rd_exists R k r))) = deliveries (rd_view R r)"
    "deliveries (rd_view R (snd (rd_eval R (token_bucket_script key limit window) r))) = deliveries (rd_view R r)"
    "deliveries (rd_view R (snd (rd_subscribe R h k r))) = deliveries (rd_view R r)"
    "deliveries (rd_view R (snd (rd_close R h r))) = deliveries (rd_view R r)"
    "deliveries (rd_view R (snd (rd_ping R r))) = deliveries (rd_view R r)"
    by (rule deliveries_call [OF get_law] deliveries_call [OF getdel_law] deliveries_call [OF delete_law]
        deliveries_call [OF exists_law] deliveries_call [OF eval_law] deliveries_call [OF subscribe_law]
        deliveries_call [OF close_law] deliveries_call [OF ping_law];
      simp add: redis_docs script_others doc_subscribe_def doc_close_def)+
  show "deliveries (rd_view R (rd_wait R d r)) = deliveries (rd_view R r)"
    by (simp add: wait_law doc_wait_def)
qed

end

text \<open>A session that has inserted the row of an id, and not committed it.\<close>

definition inserting :: "dbstate \<Rightarrow> nat \<Rightarrow> uuid \<Rightarrow> bool" where
  "inserting s sid i \<longleftrightarrow> (\<exists>n. AddNotification n \<in> set (pending s sid) \<and> n_notification_id n = i)"

lemma inserting_new:
  assumes "tables_ok s" "inserting s sid i"
  shows "\<not> stored s i" "to_commit s sid i"
proof -
  obtain n where n: "AddNotification n \<in> set (pending s sid)" "n_notification_id n = i"
    using assms(2) by (auto simp: inserting_def)
  then have "n \<in> set (added (pending s sid))" by (force simp: added_def)
  moreover have "distinct (map n_notification_id (notifications s) @ map n_notification_id (added (pending s sid)))"
    using assms(1) by (simp add: tables_ok_def unique_by_def)
  ultimately show "\<not> stored s i" using n(2) by auto
  show "to_commit s sid i" using assms(2) by (auto simp: inserting_def to_commit_def)
qed

context platform
begin

lemma once_redis:
  assumes "once_hold R D S w" "deliveries (rd_view R r) = deliveries (store R w)"
  shows "once_guar R D S w S (w\<lparr>w_redis := r\<rparr>)"
proof -
  have "copies (rd_view R r) = copies (store R w)" using assms(2) by (simp add: copies_def fun_eq_iff)
  with assms(1) show ?thesis by (auto simp: once_guar_def once_hold_def sent_once_def later_def same_pending_def)
qed

lemma once_publish:
  assumes "once_hold R D S w" "Won (n_notification_id row) \<in> S" "Sent (n_notification_id row) \<notin> S"
  shows "once_guar R D S w (insert (Sent (n_notification_id row)) S)
    (w\<lparr>w_redis := snd (rd_publish R k (dumps (live_message u t row)) (w_redis w))\<rparr>)"
proof -
  let ?s = "rd_view R (snd (rd_publish R k (dumps (live_message u t row)) (w_redis w)))" and ?i = "n_notification_id row"
  have new: "copies ?s h j = copies (store R w) h j \<or> j = ?i \<and> copies ?s h j = Suc (copies (store R w) h j)" for h j
    using realises_effect [OF publish_law, of k "dumps (live_message u t row)" "w_redis w"]
    by (auto simp: copies_publish split: if_splits)
  have none: "copies (store R w) h ?i = 0" and stored: "stored (data D w) ?i" for h
    using assms by (auto simp: once_hold_def)
  have old: "copies ?s h j = copies (store R w) h j" if "j \<noteq> ?i" for h j using new [of h j] that by simp
  have "copies ?s h ?i \<le> 1" for h using new [of h ?i] none by auto
  then have "copies ?s h j \<le> 1 \<and> (copies ?s h j \<noteq> 0 \<longrightarrow> stored (data D w) j)" for h j
    using assms(1) old [of j h] stored by (cases "j = ?i") (auto simp: once_hold_def sent_once_def)
  then have "sent_once ?s (data D w)" by (simp add: sent_once_def)
  moreover have "copies ?s h j = 0" if "Won j \<in> S" "Sent j \<notin> insert (Sent ?i) S" for h j
    using that assms(1) old [of j h] by (auto simp: once_hold_def)
  moreover have "copies ?s h j = 0" if "copies (store R w) h j = 0" "Won j \<notin> S" for h j
    using that assms(2) old [of j h] by (cases "j = ?i") auto
  ultimately show ?thesis
    using assms(1,2) by (auto simp: once_guar_def once_hold_def later_def same_pending_def)
qed

lemma once_db:
  assumes "once_hold R D S w" "on_data D db_step w (w\<lparr>w_db := d\<rparr>)"
    "\<And>sid'. Session sid' \<notin> S \<Longrightarrow> pending (db_view D d) sid' = pending (data D w) sid'"
  shows "once_guar R D S w (S \<union> {Won i | i. \<not> stored (data D w) i \<and> stored (db_view D d) i}) (w\<lparr>w_db := d\<rparr>)"
proof -
  have later: "later D w (w\<lparr>w_db := d\<rparr>)" using stored_kept [OF assms(2)] by (simp add: later_def)
  have ok: "tables_ok (db_view D d)" using assms(1,2) by (auto simp: on_data_def once_hold_def db_step_def)
  have "copies (store R w) h i = 0" if "\<not> stored (data D w) i" for h i
    using that assms(1) by (auto simp: once_hold_def sent_once_def)
  with assms(1,3) later ok show ?thesis
    by (auto simp: once_guar_def once_hold_def sent_once_def later_def same_pending_def)
qed

lemma rows_same:
  "notifications (db_view D (snd (db_insert_notification D sid i u ty pl d))) = notifications (db_view D d)"
  "notifications (db_view D (snd (db_update_notifications D sid cs a d))) = notifications (db_view D d)"
  "notifications (db_view D (snd (db_insert_receipt D sid i u t d))) = notifications (db_view D d)"
  "notifications (db_view D (snd (db_close D sid d))) = notifications (db_view D d)"
  "notifications (db_view D (snd (db_select_notifications D sid cs ord lim d))) = notifications (db_view D d)"
  "notifications (db_view D (snd (db_select_receipts D sid i d))) = notifications (db_view D d)"
  "notifications (db_view D (snd (db_select_one D sid d))) = notifications (db_view D d)"
  "notifications (db_view D (snd (db_dispose D n d))) = notifications (db_view D d)"
  using realises_effect [OF insert_law, of sid i u ty pl d] realises_effect [OF update_law, of sid cs a d]
    realises_effect [OF receipt_law, of sid i u t d] realises_effect [OF session_law, of sid d]
    realises_effect [OF select_law, of sid cs ord lim d] realises_effect [OF receipts_law, of sid i d]
    realises_effect [OF one_law, of sid d] realises_effect [OF dispose_law, of n d]
  by (auto simp: doc_insert_notification_def doc_update_notifications_def doc_insert_receipt_def doc_close_session_def
      doc_select_notifications_def doc_select_receipts_def doc_select_one_def doc_dispose_def add_pending_def Let_def)

lemma once_statement:
  assumes "once_hold R D S w" "on_data D db_step w (w\<lparr>w_db := d\<rparr>)"
    "\<And>sid'. Session sid' \<notin> S \<Longrightarrow> pending (db_view D d) sid' = pending (data D w) sid'"
    "notifications (db_view D d) = notifications (data D w)"
  shows "once_guar R D S w S (w\<lparr>w_db := d\<rparr>)"
  using once_db [OF assms(1-3)] assms(4) by simp

lemma once_session:
  assumes "once_hold R D S w" "Session sid \<in> S" "on_data D db_step w (w\<lparr>w_db := d\<rparr>)"
    "\<And>sid'. sid' \<noteq> sid \<Longrightarrow> pending (db_view D d) sid' = pending (data D w) sid'"
    "notifications (db_view D d) = notifications (data D w)"
  shows "once_guar R D S w S (w\<lparr>w_db := d\<rparr>)"
  using assms(2,4) by (intro once_statement [OF assms(1,3) _ assms(5)]) metis

lemma once_frame:
  assumes "once_hold R D S w" "w_redis w' = w_redis w" "w_db w' = w_db w" "w_fresh w \<le> w_fresh w'"
  shows "once_guar R D S w S w'"
proof -
  have "Session sid \<in> S \<Longrightarrow> sid < w_fresh w'" for sid
    using assms(1,4) by (auto simp: once_hold_def intro: less_le_trans)
  with assms show ?thesis by (simp add: once_guar_def once_hold_def later_def same_pending_def)
qed

lemma once_opens:
  assumes "once_hold R D S w"
  shows "once_guar R D S w (insert (Session (w_fresh w)) S) (w\<lparr>w_fresh := Suc (w_fresh w)\<rparr>)"
proof -
  have "once_guar R D S w S (w\<lparr>w_fresh := Suc (w_fresh w)\<rparr>)" using assms by (rule once_frame) simp_all
  then show ?thesis by (auto simp: once_guar_def once_hold_def)
qed

lemma once_seen_same:
  assumes "once_guar R D S w S' v" "w_redis v' = w_redis v" "w_db v' = w_db v" "w_fresh v' = w_fresh v"
  shows "once_guar R D S w S' v'"
  using assms(1) unfolding once_guar_def once_hold_def later_def same_pending_def assms(2-4) .

lemma once_insert:
  assumes "fst (db_insert_notification D sid i u ty pl d) = Some (Some row)"
  shows "inserting (db_view D (snd (db_insert_notification D sid i u ty pl d))) sid i"
proof -
  have "\<not> list_ex (\<lambda>n. n_notification_id n = i) (fst (visible (db_view D d) sid))"
    using realises_Some(1) [OF insert_law assms] by (auto simp: doc_insert_notification_def split: if_splits)
  then show ?thesis
    unfolding realises_Some(2) [OF insert_law assms]
    by (simp add: doc_insert_notification_def add_pending_def inserting_def Let_def)
      (intro exI conjI disjI1, rule HOL.refl, simp)
qed

sublocale once: effects "once_rely R D" "once_guar R D" "once_hold R D" "\<lambda>S T. S \<inter> T = {}" "{}"
  Session "\<lambda>S w sid. S \<union> {Won i | i. \<not> stored (data D w) i \<and> stored (db_view D (snd (db_commit D sid (w_db w)))) i}"
  "\<lambda>S i. insert (Sent i) S" "\<lambda>S i. Won i \<in> S \<and> Sent i \<notin> S" "\<lambda>w. inserting (data D w)" "\<lambda>_ _ _ _. True"
  R D W "\<lambda>_. True" "\<lambda>_. True" "\<lambda>_ _ _. True" "\<lambda>_ _. True"
proof (intro effects.intro effects_axioms.intro once_sessions)
  show "once_guar R D S w S (elapse R ms w)" if "once_hold R D S w" for S and w :: "('r, 'd, 'w) world" and ms
  proof (rule once_seen_same)
    show "once_guar R D S w S (w\<lparr>w_redis := rd_wait R ms (w_redis w)\<rparr>)"
      by (rule once_redis [OF that]) (rule deliveries_calls)
  qed (simp_all add: elapse_def)
  show "once_guar R D S w (S \<union> {Won i | i. \<not> stored (data D w) i \<and> stored (db_view D (snd (db_commit D sid (w_db w)))) i})
      (w\<lparr>w_db := snd (db_commit D sid (w_db w))\<rparr>)"
    if "once_hold R D S w" "Session sid \<in> S" for S and w :: "('r, 'd, 'w) world" and sid
    by (intro once_db [OF that(1)] statement_steps) (metis pending_others(4) that(2))
  show "once_guar R D S w S (w\<lparr>w_db := snd (db_dispose D eng (w_db w))\<rparr>)" if "once_hold R D S w" for S and w :: "('r, 'd, 'w) world" and eng
    by (intro once_statement [OF that] statement_steps) (simp_all add: pending_same rows_same)
  show "Won i \<in> S \<union> {Won i | i. \<not> stored (data D w) i \<and> stored (db_view D (snd (db_commit D sid (w_db w)))) i} \<and>
      Sent i \<notin> S \<union> {Won i | i. \<not> stored (data D w) i \<and> stored (db_view D (snd (db_commit D sid (w_db w)))) i}"
    if "once_hold R D S w" "inserting (data D w) sid i" "fst (db_commit D sid (w_db w)) \<noteq> None"
    for S and w :: "('r, 'd, 'w) world" and sid i
  proof -
    have ok: "tables_ok (data D w)" using that(1) by (simp add: once_hold_def)
    note new = inserting_new [OF ok that(2)]
    have "Sent i \<notin> S" using that(1) new(1) by (auto simp: once_hold_def)
    with new(1) commit_stores [OF new(2) that(3)] show ?thesis by simp
  qed
  show "inserting (data D w') sid i" if "inserting (data D w) sid i" "Session sid \<in> S" "once_rely R D S w w'"
    for S and w w' :: "('r, 'd, 'w) world" and sid i
    using that by (auto simp: inserting_def once_rely_def same_pending_def)
qed ((erule once_redis, rule deliveries_calls)
    | (erule once_session, assumption, rule statement_steps, simp add: pending_others pending_same, simp add: rows_same)
    | (erule once_publish; simp) | (erule once_opens) | (erule once_frame; simp)
    | (simp add: insert_returns once_insert))+

lemma application_once:
  "reachable (application H F R D W V J) w (ps, w') \<Longrightarrow> once_hold R D {} w \<Longrightarrow> once_hold R D {} w'"
  by (rule once.application_holds)

end

section \<open>Property\<close>

text \<open>
  C5. In every state that the application reaches, whatever the interleaving, however often clients retry, whichever
  calls fail or lose their reply and whichever tasks are cancelled: of the messages a subscriber was sent at most one
  carries a given notification, and that notification is stored.
\<close>

theorem published_once:
  assumes "redis_service R" "database_service D" "websocket_service W" "tables_ok (data D w)"
    and "\<forall>h i. copies (store R w) h i \<le> 1 \<and> (copies (store R w) h i = 1 \<longrightarrow> stored (data D w) i)"
    and "reachable (application H F R D W V J) w (ps, w')"
  shows "copies (store R w') h i \<le> 1 \<and> (copies (store R w') h i = 1 \<longrightarrow> stored (data D w') i)"
proof -
  have once: "sent_once s d \<longleftrightarrow> (\<forall>h i. copies s h i \<le> 1 \<and> (copies s h i = 1 \<longrightarrow> stored d i))" for s d
    unfolding sent_once_def by (metis le_antisym less_one not_less zero_neq_one)
  have platform: "platform R D W" using assms(1-3) by (intro platform.intro stores.intro)
  have "once_hold R D {} w" using assms(4,5) by (simp add: once_hold_def once)
  from platform.application_once [OF platform assms(6) this]
  have "sent_once (store R w') (data D w')" by (simp add: once_hold_def)
  then show ?thesis unfolding once by blast
qed

lemma sample_none: "deliveries (store mem_redis sample_online_world) h = []"
  by (simp add: sample_online_world_def subscriber_start_def liveness_start_def register_def mark_alive_def
      mem_redis_def doc_subscribe_def redis_docs)

lemma sample_sent:
  obtains w' where "reachable sample_application sample_online_world ([Return ()], w')"
    "copies (store mem_redis w') 0 105 = 1"
proof -
  let ?w = "sample_online_world\<lparr>w_draws := Suc (w_draws sample_online_world)\<rparr>"
  have ready: "ready mem_redis mem_database ?w" "counts mem_redis c ?w None" for c
    using sample_online(1,2) by (simp_all add: ready_def counts_def)
  let ?row = "new_row (data mem_database ?w) 105 7 (nc_type (sample_create 105)) (nc_payload (sample_create 105))"
  let ?text = "dumps (live_message 7 (w_time ?w) ?row)"
  have owner: "owner_of (store mem_redis ?w) 7 = Some ''instance-1''"
    using sample_online(4,5) by (auto simp: owner_of_def)
  obtain w1 where w1: "run (create_notification mem_redis mem_database default_settings None (sample_create 105)) ?w =
      (Inr (response (sample_create 105) True True), w1)"
    "deliveries (store mem_redis w1) =
      deliveries (sent_to (Some ''instance-1'') (live_message 7 (w_time ?w) ?row) (store mem_redis ?w))"
    by (rule memstores.run_create_new [OF ready(1) _ ready(2), where cfg = default_settings
          and body = "sample_create 105" and client = None])
      (use sample_online(3,9) owner in auto)
  have "deliveries (store mem_redis w1) 0 = [(instance_channel ''instance-1'', ?text)]"
    using w1(2) sample_online(6) sample_none by (simp add: sent_to_def doc_publish_def)
  moreover have "carries ?text 105" by (simp add: carries_message new_row_def)
  ultimately have one: "copies (store mem_redis w1) 0 105 = 1" by (simp add: copies_def)
  have "run (endpoint std_web mem_redis mem_database std_pydantic sample_jwt (\<lambda>_. False) default_settings None
      (CreateNotification (sample_json 105))) ?w =
    (Inr (dumps (dump_NotificationCreateResponse (response (sample_create 105) True True))), w1)"
    using w1(1) by (simp add: endpoint_def parse_sample_json)
  from request_reachable [OF this _ std_app.http_side_axioms]
  obtain w' where "reachable sample_application sample_online_world ([Return ()], w')" "logged ''instance-1'' w1 w'"
    by (auto simp: default_settings_def)
  moreover from this(2) one have "copies (store mem_redis w') 0 105 = 1" by (auto simp: logged_def)
  ultimately show thesis by (intro that)
qed

theorem published_once_witness:
  "\<exists>w'. reachable sample_application sample_online_world ([Return ()], w') \<and>
     copies (store mem_redis w') 0 105 = 1 \<and> stored (data mem_database w') 105"
proof -
  obtain w' where sent: "reachable sample_application sample_online_world ([Return ()], w')"
    "copies (store mem_redis w') 0 105 = 1" by (rule sample_sent)
  have "copies (store mem_redis sample_online_world) h i = 0" for h i
    using sample_none [of h] by (simp add: copies_def)
  moreover have "tables_ok (data mem_database sample_online_world)" by (simp add: sample_online(9))
  ultimately show ?thesis
    using published_once [OF mem.redis_service_axioms memdb.database_service_axioms memws.websocket_service_axioms
        _ _ sent(1), of 0 105] sent by auto
qed

end
