(* ===== verification/Guaranteed_Delivery.thy ===== *)
theory Guaranteed_Delivery
  imports Exactly_Once
begin

text \<open>
  What is stored reaches its user: the backlog that opens a connection, put together with what holds in
  every state that the application reaches.
\<close>

lemma same_older:
  assumes "distinct (map n_notification_id ns)" "n \<in> set ns"
  shows "filter (\<lambda>m. m \<noteq> n \<and> P m) ns = filter (\<lambda>m. n_notification_id m \<noteq> n_notification_id n \<and> P m) ns"
  using assms by (intro filter_cong) (auto simp: distinct_map inj_on_def)

text \<open>
  C7. A stored notification reaches its user: whatever the application does after it is committed, in any
  interleaving and with any failures, as long as the user has not read it, the first frame of the
  user's next connection carries it, with the id, type, payload and time it was stored with, provided that fewer unread
  notifications of the user are as old as the backlog has room for.
\<close>

theorem stored_reaches_user:
  assumes "redis_service R" "database_service D" "websocket_service W" "rows_ok (data D w)"
    and "n \<in> set (notifications (data D w))" "reachable (application H F R D W V J) w (ps, w')"
    and "\<forall>m\<in>set (notifications (data D w')). n_notification_id m = n_notification_id n \<longrightarrow> n_read_at m = None"
    and "ready R D w'" "ws_up W (w_ws w') x" "valid_settings cfg"
    and "value_of (store R w') (ticket_key t) = Some u" "py_UUID u = Some (n_user_id n)"
    and "length (filter (\<lambda>m. n_notification_id m \<noteq> n_notification_id n \<and> n_user_id m = n_user_id n \<and> n_read_at m = None \<and>
      n_created_at m \<le> n_created_at n) (notifications (data D w'))) < nat (backlog_limit cfg)"
  shows "\<exists>es fs e. frames (wires W (snd (run (websocket_endpoint R D W V cfg x t ms) w'))) x =
      frames (wires W w') x @ dump_BacklogMessage V es # fs \<and> e \<in> set es \<and>
    ne_notification_id e = n_notification_id n \<and> ne_user_id e = n_user_id n \<and> ne_type e = n_type n \<and>
    ne_payload e = n_payload n \<and> ne_created_at e = n_created_at n"
proof -
  have platform: "platform R D W" using assms(1-3) by (intro platform.intro stores.intro)
  from platform.application_tables [OF platform assms(6)]
  have "db_step (data D w) (data D w')" by (auto simp: on_data_def)
  with assms(5) obtain n' where n': "n' \<in> set (notifications (data D w'))" "evolves n n'" by (auto simp: db_step_def)
  have "rows_ok (data D w')" using platform.application_rows [OF platform assms(6,4)] .
  then have objects: "\<forall>m\<in>set (notifications (data D w')). n_user_id m = n_user_id n \<longrightarrow> is_object (n_payload m)"
    using rows_okD by (auto simp: acceptable_def)
  have "distinct (map n_notification_id (notifications (data D w')))"
    using assms(8) unique_by_committed by (auto simp: ready_def tables_ok_def)
  note older = same_older [OF this n'(1)]
  have "n_user_id n' = n_user_id n" "n_read_at n' = None" using n' assms(7) by (auto simp: evolves_def)
  moreover have "length (filter (\<lambda>m. m \<noteq> n' \<and> n_user_id m = n_user_id n \<and> n_read_at m = None \<and> n_created_at m \<le> n_created_at n')
      (notifications (data D w'))) < nat (backlog_limit cfg)"
    unfolding older using assms(13) n'(2) by (simp add: evolves_def)
  ultimately obtain es fs e where
    "frames (wires W (snd (run (websocket_endpoint R D W V cfg x t ms) w'))) x =
       frames (wires W w') x @ dump_BacklogMessage V es # fs" "e \<in> set es" "envelope_of_row n' = Some e"
    by (rule platform.in_backlog [OF platform assms(8-12) objects n'(1), of V ms])
  moreover from this(3) n'(2) have "ne_notification_id e = n_notification_id n" "ne_user_id e = n_user_id n"
    "ne_type e = n_type n" "ne_payload e = n_payload n" "ne_created_at e = n_created_at n"
    by (auto simp: evolves_def envelope_of_row_def split: if_splits)
  ultimately show ?thesis by blast
qed

theorem stored_reaches_user_witness:
  "\<exists>w' t es fs e. reachable sample_application sample_world ([Return ()], w') \<and>
     frames (wires mem_websockets (snd (run (websocket_endpoint mem_redis mem_database mem_websockets std_pydantic
       default_settings 4 t []) w'))) 4 = dump_BacklogMessage std_pydantic es # fs \<and>
     e \<in> set es \<and> ne_notification_id e = 101"
proof -
  obtain t w' where reached: "reachable sample_application sample_world ([Return ()], w')"
    and w': "value_of (store mem_redis w') (ticket_key t) = Some (uuid_str 7)" "w_db w' = sample_db" "w_ws w' = w_ws sample_world"
    by (rule sample_ticket [of sample_world]) simp
  have "rows_ok (data mem_database sample_world)"
    using sample_type by (simp add: rows_ok_def sample_row_def sample_db_def empty_db_def acceptable_def MAX_PAYLOAD_BYTES_def mem_view_def)
  moreover have "sample_row 1 101 7 3 None \<in> set (notifications (data mem_database sample_world))" by simp
  moreover have "\<forall>m\<in>set (notifications (data mem_database w')). n_notification_id m = n_notification_id (sample_row 1 101 7 3 None) \<longrightarrow>
      n_read_at m = None"
    by (simp add: w'(2))
  moreover have "ready mem_redis mem_database w'" using w'(2) by (simp add: ready_def)
  moreover have "ws_up mem_websockets (w_ws w') 4" by (simp add: w'(3))
  moreover have "length (filter P (notifications (data mem_database w'))) < nat (backlog_limit default_settings)" for P
    by (rule le_less_trans [OF length_filter_le]) (simp add: w'(2) default_settings_def)
  ultimately obtain es fs e where
    "frames (wires mem_websockets (snd (run (websocket_endpoint mem_redis mem_database mem_websockets std_pydantic
       default_settings 4 t []) w'))) 4 = frames (wires mem_websockets w') 4 @ dump_BacklogMessage std_pydantic es # fs"
    "e \<in> set es" "ne_notification_id e = 101"
    using stored_reaches_user [OF mem.redis_service_axioms memdb.database_service_axioms memws.websocket_service_axioms
        _ _ reached _ _ _ valid_default_settings w'(1), of "sample_row 1 101 7 3 None" 4 "[]"]
    by auto
  moreover have "frames (wires mem_websockets w') 4 = []" by (simp add: w'(3) empty_sockets_def)
  ultimately show ?thesis using reached by auto
qed

end
