(* ===== verification/Audit_Trail.thy ===== *)
theory Audit_Trail
  imports Global_Invariants
begin

text \<open>
  The read receipts, in every state the application reaches: each belongs to a notification of its user, which
  is marked as read. The session that inserts a receipt has found and marked the row itself, and that the
  row is there and stays marked is what the others guarantee it.
\<close>

section \<open>Receipts and the rows they are for\<close>

definition receipt_for :: "uuid \<Rightarrow> uuid \<Rightarrow> notification \<Rightarrow> bool" where
  "receipt_for i u n \<longleftrightarrow> n_notification_id n = i \<and> n_user_id n = u \<and> n_read_at n \<noteq> None"

text \<open>The session sees the row as read.\<close>

definition marked_row :: "dbstate \<Rightarrow> nat \<Rightarrow> uuid \<Rightarrow> uuid \<Rightarrow> bool" where
  "marked_row s sid i u \<longleftrightarrow> (\<exists>n\<in>set (fst (visible s sid)). receipt_for i u n)"

definition receipts_ok :: "dbstate \<Rightarrow> bool" where
  "receipts_ok s \<longleftrightarrow>
     (\<forall>r\<in>set (receipts s). \<exists>n\<in>set (notifications s). receipt_for (rr_notification_id r) (rr_user_id r) n) \<and>
     (\<forall>sid r. AddReceipt r \<in> set (pending s sid) \<longrightarrow> marked_row s sid (rr_notification_id r) (rr_user_id r))"

abbreviation rows_evolve :: "notification list \<Rightarrow> notification list \<Rightarrow> bool" where
  "rows_evolve ns ns' \<equiv> \<forall>n\<in>set ns. \<exists>n'\<in>set ns'. evolves n n'"

lemma rows_evolve_refl: "rows_evolve ns ns"
  using evolves_refl by blast

lemma receipt_evolves: "receipt_for i u n \<Longrightarrow> evolves n n' \<Longrightarrow> receipt_for i u n'"
  by (auto simp: receipt_for_def evolves_def)

lemma evolves_both: "evolves n n' \<Longrightarrow> evolves (assign a n) (assign a n')"
  by (cases a) (simp_all add: evolves_def)

text \<open>When the committed rows evolve, so do those a session sees.\<close>

lemma write_evolves: "rows_evolve ns ns' \<Longrightarrow> rows_evolve (fst (apply_write (ns, rs) wr)) (fst (apply_write (ns', rs') wr))"
proof (cases wr)
  case (AssignRows ids a)
  assume rows: "rows_evolve ns ns'"
  have "\<exists>m'\<in>set (fst (apply_write (ns', rs') wr)). evolves (if n_id n \<in> set ids then assign a n else n) m'"
    if "n \<in> set ns" for n
  proof -
    from rows that obtain n' where n': "n' \<in> set ns'" "evolves n n'" by blast
    then have same: "n_id n' = n_id n" by (simp add: evolves_def)
    have "evolves (if n_id n \<in> set ids then assign a n else n) (if n_id n' \<in> set ids then assign a n' else n')"
      using n'(2) evolves_both [OF n'(2)] same by simp
    moreover have "(if n_id n' \<in> set ids then assign a n' else n') \<in> set (fst (apply_write (ns', rs') wr))"
      unfolding AssignRows using n'(1) by simp
    ultimately show ?thesis by blast
  qed
  moreover have "\<exists>n\<in>set ns. m = (if n_id n \<in> set ids then assign a n else n)" if "m \<in> set (fst (apply_write (ns, rs) wr))" for m
    using that unfolding AssignRows by auto
  ultimately show ?thesis by metis
qed (auto intro: bexI)

lemma visible_evolves:
  assumes "rows_evolve (notifications s) (notifications s')" "pending s' sid = pending s sid"
  shows "rows_evolve (fst (visible s sid)) (fst (visible s' sid))"
proof -
  have "rows_evolve (fst (foldl apply_write (ns, rs) ws)) (fst (foldl apply_write (ns', rs') ws))"
    if "rows_evolve ns ns'" for ns ns' :: "notification list" and rs rs' ws
    using that
  proof (induction ws rule: rev_induct)
    case (snoc wr ws)
    then show ?case by (cases "foldl apply_write (ns, rs) ws"; cases "foldl apply_write (ns', rs') ws") (use write_evolves in fastforce)
  qed simp
  with assms show ?thesis by (simp add: visible_def)
qed

lemma marked_row_stable:
  assumes "marked_row s sid i u" "rows_evolve (notifications s) (notifications s')" "pending s' sid = pending s sid"
  shows "marked_row s' sid i u"
  using assms(1) visible_evolves [OF assms(2,3)] receipt_evolves unfolding marked_row_def by meson

lemma marked_row_added: "marked_row s sid i u \<Longrightarrow> marked_row (add_pending sid wr s) sid i u"
  using writes_evolve [of _ "fst (visible s sid)" "snd (visible s sid)" "[wr]"] receipt_evolves
  unfolding marked_row_def by fastforce

lemma receipts_visible: "set (snd (visible s sid)) = set (receipts s) \<union> {r. AddReceipt r \<in> set (pending s sid)}"
proof -
  have "set (snd (foldl apply_write (ns, rs) ws)) = set rs \<union> {r. AddReceipt r \<in> set ws}" for ns rs ws
  proof (induction ws rule: rev_induct)
    case (snoc wr ws)
    then show ?case by (cases "foldl apply_write (ns, rs) ws"; cases wr) auto
  qed simp
  then show ?thesis by (simp add: visible_def)
qed

section \<open>Every statement keeps them\<close>

lemma receipts_ok_step:
  assumes "receipts_ok s" "rows_evolve (notifications s) (notifications s')"
    and "\<And>r. r \<in> set (receipts s') \<Longrightarrow> r \<in> set (receipts s) \<or>
      (\<exists>n\<in>set (notifications s'). receipt_for (rr_notification_id r) (rr_user_id r) n)"
    and "\<And>sid'. sid' \<noteq> sid \<Longrightarrow> pending s' sid' = pending s sid'"
    and "\<And>r. AddReceipt r \<in> set (pending s' sid) \<Longrightarrow> marked_row s' sid (rr_notification_id r) (rr_user_id r)"
  shows "receipts_ok s'"
  unfolding receipts_ok_def
proof (intro conjI ballI allI impI)
  fix r assume "r \<in> set (receipts s')"
  with assms(1-3) receipt_evolves
  show "\<exists>n\<in>set (notifications s'). receipt_for (rr_notification_id r) (rr_user_id r) n"
    unfolding receipts_ok_def by meson
next
  fix sid' r assume r: "AddReceipt r \<in> set (pending s' sid')"
  show "marked_row s' sid' (rr_notification_id r) (rr_user_id r)"
  proof (cases "sid' = sid")
    case False
    with r assms(4) have same: "pending s' sid' = pending s sid'" by blast
    with r have "AddReceipt r \<in> set (pending s sid')" by simp
    with assms(1) have "marked_row s sid' (rr_notification_id r) (rr_user_id r)" unfolding receipts_ok_def by blast
    from this assms(2) same show ?thesis by (rule marked_row_stable)
  next
    case True
    with r show ?thesis by (blast intro: assms(5))
  qed
qed

lemma receipts_ok_add:
  assumes "receipts_ok s" "\<And>r. wr = AddReceipt r \<Longrightarrow> marked_row s sid (rr_notification_id r) (rr_user_id r)"
  shows "receipts_ok (add_pending sid wr s)"
proof (rule receipts_ok_step [OF assms(1), where sid = sid])
  fix r assume "AddReceipt r \<in> set (pending (add_pending sid wr s) sid)"
  then have "AddReceipt r \<in> set (pending s sid) \<or> wr = AddReceipt r" by (auto simp: add_pending_def)
  with assms have "marked_row s sid (rr_notification_id r) (rr_user_id r)" by (auto simp: receipts_ok_def)
  then show "marked_row (add_pending sid wr s) sid (rr_notification_id r) (rr_user_id r)" by (rule marked_row_added)
qed (use rows_evolve_refl [of "notifications s"] in \<open>simp_all add: add_pending_def\<close>)

lemma receipts_ok_next [simp]: "receipts_ok (add_pending sid wr (s\<lparr>next_row := k\<rparr>)) = receipts_ok (add_pending sid wr s)"
  by (simp add: receipts_ok_def marked_row_def visible_def add_pending_def)

lemma receipts_ok_docs:
  assumes "receipts_ok s"
  shows "receipts_ok (snd (doc_insert_notification sid i u ty pl s))"
    "receipts_ok (snd (doc_update_notifications sid cs a s))"
    "marked_row s sid i u \<Longrightarrow> receipts_ok (snd (doc_insert_receipt sid i u t s))"
    "receipts_ok (snd (doc_commit sid s))" "receipts_ok (snd (doc_close_session sid s))"
    "receipts_ok (snd (doc_select_notifications sid cs ord lim s))" "receipts_ok (snd (doc_select_receipts sid i s))"
    "receipts_ok (snd (doc_select_one sid s))" "receipts_ok (snd (doc_dispose e s))"
proof -
  show "receipts_ok (snd (doc_insert_notification sid i u ty pl s))" "receipts_ok (snd (doc_update_notifications sid cs a s))"
    "marked_row s sid i u \<Longrightarrow> receipts_ok (snd (doc_insert_receipt sid i u t s))"
    using assms
    by (auto simp: doc_insert_notification_def doc_update_notifications_def doc_insert_receipt_def Let_def intro!: receipts_ok_add)
  show "receipts_ok (snd (doc_commit sid s))"
  proof (rule receipts_ok_step [OF assms, where sid = sid])
    show "rows_evolve (notifications s) (notifications (snd (doc_commit sid s)))"
      using db_step_docs(7) [of s sid] by (simp add: db_step_def)
    fix r assume "r \<in> set (receipts (snd (doc_commit sid s)))"
    then have "r \<in> set (receipts s) \<or> AddReceipt r \<in> set (pending s sid)"
      using receipts_visible [of s sid] by (simp add: doc_commit_def)
    with assms show "r \<in> set (receipts s) \<or>
        (\<exists>n\<in>set (notifications (snd (doc_commit sid s))). receipt_for (rr_notification_id r) (rr_user_id r) n)"
      by (auto simp: receipts_ok_def marked_row_def doc_commit_def)
  qed (simp_all add: doc_commit_def)
  show "receipts_ok (snd (doc_close_session sid s))"
    by (rule receipts_ok_step [OF assms, where sid = sid])
      (use rows_evolve_refl [of "notifications s"] in \<open>simp_all add: doc_close_session_def\<close>)
qed (use assms in \<open>simp_all add: doc_select_notifications_def doc_select_receipts_def doc_select_one_def doc_dispose_def\<close>)

lemma update_marks_row:
  assumes "fst (doc_update_notifications sid [NotificationIdIs i, UserIdIs u] (SetReadAt t) s) = Some found" "found \<noteq> 0"
  shows "marked_row (snd (doc_update_notifications sid [NotificationIdIs i, UserIdIs u] (SetReadAt t) s)) sid i u"
proof -
  let ?rows = "filter (matches [NotificationIdIs i, UserIdIs u]) (fst (visible s sid))"
  from assms have "?rows \<noteq> []" by (auto simp: doc_update_notifications_def Let_def)
  then obtain n where n: "n \<in> set (fst (visible s sid))" "matches [NotificationIdIs i, UserIdIs u] n"
    by (metis filter_False)
  let ?ids = "map n_id ?rows"
  have "n_id n \<in> set ?ids" using n by simp
  then have "assign (SetReadAt t) n \<in> set (fst (apply_write (visible s sid) (AssignRows ?ids (SetReadAt t))))"
    using n(1) by (cases "visible s sid") (auto intro: rev_image_eqI)
  with n(2) show ?thesis
    by (auto simp: doc_update_notifications_def Let_def marked_row_def receipt_for_def intro!: bexI [of _ "assign (SetReadAt t) n"])
qed

section \<open>What the tasks leave to each other\<close>

abbreviation audit_hold :: "'d database \<Rightarrow> nat set \<Rightarrow> ('r, 'd, 'w) world \<Rightarrow> bool" where
  "audit_hold D \<equiv> own_hold (\<lambda>w. receipts_ok (data D w))"

abbreviation audit_rely :: "'d database \<Rightarrow> nat set \<Rightarrow> ('r, 'd, 'w) world \<Rightarrow> ('r, 'd, 'w) world \<Rightarrow> bool" where
  "audit_rely D \<equiv> own_rely D (\<lambda>w. receipts_ok (data D w)) (on_data D db_step)"

abbreviation audit_guar :: "'d database \<Rightarrow> nat set \<Rightarrow> ('r, 'd, 'w) world \<Rightarrow> nat set \<Rightarrow> ('r, 'd, 'w) world \<Rightarrow> bool" where
  "audit_guar D \<equiv> own_guar D (\<lambda>w. receipts_ok (data D w)) (on_data D db_step)"

context platform
begin

lemma receipts_call:
  assumes "audit_hold D S w" "realises (db_view D) up f g" "receipts_ok (data D w) \<Longrightarrow> receipts_ok (snd (g (data D w)))"
  shows "receipts_ok (db_view D (snd (f (w_db w))))"
  using realises_effect [OF assms(2)] assms(1,3) by (metis own_hold_def)

lemmas receipts_calls = receipts_call [OF _ insert_law receipts_ok_docs(1)] receipts_call [OF _ update_law receipts_ok_docs(2)]
  receipts_call [OF _ commit_law receipts_ok_docs(4)] receipts_call [OF _ session_law receipts_ok_docs(5)]
  receipts_call [OF _ select_law receipts_ok_docs(6)] receipts_call [OF _ receipts_law receipts_ok_docs(7)]
  receipts_call [OF _ one_law receipts_ok_docs(8)] receipts_call [OF _ dispose_law receipts_ok_docs(9)]

lemma audit_db:
  assumes "audit_hold D S w" "receipts_ok (db_view D d)" "on_data D db_step w (w\<lparr>w_db := d\<rparr>)"
    "\<And>sid'. sid' \<notin> S \<Longrightarrow> pending (db_view D d) sid' = pending (data D w) sid'"
  shows "audit_guar D S w S (w\<lparr>w_db := d\<rparr>)"
  using assms by (auto simp: own_guar_def own_hold_def same_pending_def)

lemma audit_statement:
  assumes "audit_hold D S w" "sid \<in> S" "receipts_ok (db_view D d)" "on_data D db_step w (w\<lparr>w_db := d\<rparr>)"
    "\<And>sid'. sid' \<noteq> sid \<Longrightarrow> pending (db_view D d) sid' = pending (data D w) sid'"
  shows "audit_guar D S w S (w\<lparr>w_db := d\<rparr>)"
  using assms(2,5) by (intro audit_db [OF assms(1,3,4)]) metis

lemma audit_others:
  assumes "audit_hold D S w" "w_db w' = w_db w" "w_fresh w \<le> w_fresh w'" "S \<subseteq> S'" "S' - S \<subseteq> {w_fresh w..<w_fresh w'}"
  shows "audit_guar D S w S' w'"
proof -
  have "S' \<subseteq> {..<w_fresh w'}" using assms(1,3,5) by (fastforce simp: own_hold_def)
  with assms show ?thesis
    by (auto simp: own_guar_def own_hold_def same_pending_def intro: on_data_refl)
qed

lemma audit_memory:
  assumes "audit_hold D S w"
  shows "audit_guar D S w S (w\<lparr>w_redis := x\<rparr>)" "audit_guar D S w S (w\<lparr>w_ws := y\<rparr>)"
  using assms by (auto intro!: audit_others)

sublocale audit: effects "audit_rely D" "audit_guar D" "audit_hold D" "\<lambda>S T. S \<inter> T = {}" "{}"
  "\<lambda>sid. sid" "\<lambda>S _ _. S" "\<lambda>S _. S" "\<lambda>_ _. True" "\<lambda>_ _ _. True" "\<lambda>w. marked_row (data D w)"
  R D W "\<lambda>_. True" "\<lambda>_. True" "\<lambda>_ _ _. True" "\<lambda>_ _. True"
proof (intro effects.intro effects_axioms.intro own_sessions [OF steps_db])
  show "audit_guar D S w S (elapse R ms w)" "audit_guar D S w S (upd_gateway g f w)" "audit_guar D S w S (w\<lparr>w_draws := n\<rparr>)"
    "audit_guar D S w S (w\<lparr>w_fresh := Suc (w_fresh w)\<rparr>)"
    "audit_guar D S w (insert (w_fresh w) S) (w\<lparr>w_fresh := Suc (w_fresh w)\<rparr>)"
    if "audit_hold D S w" for S and w :: "('r, 'd, 'w) world" and ms g f n
    using that by (intro audit_others; auto simp: elapse_def upd_gateway_def)+
  show "audit_guar D S w S (w\<lparr>w_db := snd (db_dispose D eng (w_db w))\<rparr>)" if "audit_hold D S w" for S and w :: "('r, 'd, 'w) world" and eng
    by (intro audit_db [OF that] statement_steps receipts_calls [OF that]) (simp_all add: pending_same)
  show "audit_guar D S w S (w\<lparr>w_db := snd (db_insert_receipt D sid i u t (w_db w))\<rparr>)"
    if "audit_hold D S w" "sid \<in> S" "marked_row (data D w) sid i u" for S and w :: "('r, 'd, 'w) world" and sid i u t
    by (intro audit_statement [OF that(1,2)] statement_steps receipts_call [OF that(1) receipt_law] receipts_ok_docs(3))
      (use that(3) in \<open>simp_all add: pending_others\<close>)
  show "marked_row (data D (w\<lparr>w_db := snd (db_update_notifications D sid [NotificationIdIs i, UserIdIs u] (SetReadAt t) (w_db w))\<rparr>)) sid i u"
    if "fst (db_update_notifications D sid [NotificationIdIs i, UserIdIs u] (SetReadAt t) (w_db w)) = Some found" "found \<noteq> 0"
    for w :: "('r, 'd, 'w) world" and sid i u t found
    using realises_Some [OF update_law that(1)] update_marks_row [of sid i u t "data D w" found] that(2) by simp
  show "marked_row (data D w') sid i u" if "marked_row (data D w) sid i u" "sid \<in> S" "audit_rely D S w w'"
    for S and w w' :: "('r, 'd, 'w) world" and sid i u
    by (rule marked_row_stable [OF that(1)])
      (use that(2,3) rows_evolve_refl in \<open>auto simp: own_rely_def same_pending_def on_data_def db_step_def\<close>)
qed (auto intro!: audit_memory intro: audit_statement receipts_calls statement_steps simp: pending_others pending_same insert_returns)

lemma application_audit:
  "reachable (application H F R D W V J) w (ps, w') \<Longrightarrow> audit_hold D {} w \<Longrightarrow> audit_hold D {} w'"
  by (rule audit.application_holds)

text \<open>Whatever receipts of a notification are read, they are all of one user.\<close>

lemma receipts_one_user:
  assumes "receipts_ok s" "tables_ok s" "r \<in> set (snd (visible s sid))" "r' \<in> set (snd (visible s sid))"
    "rr_notification_id r' = rr_notification_id r"
  shows "rr_user_id r' = rr_user_id r"
proof -
  have row: "\<exists>n\<in>set (fst (visible s sid)). receipt_for (rr_notification_id q) (rr_user_id q) n"
    if "q \<in> set (snd (visible s sid))" for q
  proof (cases "q \<in> set (receipts s)")
    case True
    with assms(1) obtain n where n: "n \<in> set (notifications s)" "receipt_for (rr_notification_id q) (rr_user_id q) n"
      unfolding receipts_ok_def by blast
    obtain n' where "n' \<in> set (fst (visible s sid))" "evolves n n'"
      using writes_evolve [OF n(1)] unfolding visible_def by blast
    with n(2) receipt_evolves show ?thesis by blast
  next
    case False
    with that have "AddReceipt q \<in> set (pending s sid)" using receipts_visible by blast
    with assms(1) show ?thesis unfolding receipts_ok_def marked_row_def by blast
  qed
  have "map n_notification_id (fst (visible s sid)) =
      map n_notification_id (notifications s) @ map n_notification_id (added (pending s sid))"
    by (rule map_visible) (case_tac a; simp)
  with assms(2) have "distinct (map n_notification_id (fst (visible s sid)))"
    by (simp only: tables_ok_def unique_by_def)
  then have "inj_on n_notification_id (set (fst (visible s sid)))" by (simp add: distinct_map)
  moreover obtain n n' where "n \<in> set (fst (visible s sid))" "n_notification_id n = rr_notification_id r" "n_user_id n = rr_user_id r"
    "n' \<in> set (fst (visible s sid))" "n_notification_id n' = rr_notification_id r'" "n_user_id n' = rr_user_id r'"
    using row [OF assms(3)] row [OF assms(4)] unfolding receipt_for_def by blast
  ultimately show ?thesis using assms(5) by (metis inj_onD)
qed

lemma endpoint_one_user:
  fixes w v :: "('r, 'd, 'w) world"
  assumes "receipts_ok (data D w)" "tables_ok (data D w)" "run (read_receipts_endpoint D g i) w = (Inr reads, v)"
    "a \<in> set reads" "b \<in> set reads"
  shows "rrr_notification_id a = i" "rrr_user_id a = rrr_user_id b"
proof -
  let ?sid = "session_of g w"
  obtain rows where rows: "fst (db_select_receipts D ?sid i (w_db (opened g w))) = Some rows" "reads = map receipt_of_row rows"
    using assms(3)
    by (auto simp: read_receipts_endpoint_def run_get_session get_read_receipts_def split: option.splits sum.splits)
  have "rows = sort_key rr_read_at (scan_receipts (data D w) (filter (\<lambda>r. rr_notification_id r = i) (snd (visible (data D w) ?sid))))"
    using realises_Some(1) [OF receipts_law rows(1)] by (simp add: doc_select_receipts_def)
  then have "set rows = {r \<in> set (snd (visible (data D w) ?sid)). rr_notification_id r = i}"
    using mset_eq_setD [OF scan_receipts_law] by simp
  then have rows_set: "r \<in> set rows \<longleftrightarrow> r \<in> set (snd (visible (data D w) ?sid)) \<and> rr_notification_id r = i" for r by simp
  obtain q r where "q \<in> set rows" "r \<in> set rows" "a = receipt_of_row q" "b = receipt_of_row r"
    using assms(4,5) rows(2) by auto
  with rows_set receipts_one_user [OF assms(1,2), of r ?sid q]
  show "rrr_notification_id a = i" "rrr_user_id a = rrr_user_id b"
    by (simp_all add: receipt_of_row_def)
qed

text \<open>A user who acknowledges a notification twice has two receipts, and the row has the later time.\<close>

lemma receipts_repeat:
  fixes w :: "('r, 'd, 'w) world"
  assumes "db_up D (w_db w)" "idle (data D w)" "tables_ok (data D w)" "owned (data D w) i u"
    and "v = snd (run (get_session D g (\<lambda>s. mark_read D s i u t)) w)"
    and "v' = snd (run (get_session D g (\<lambda>s. mark_read D s i u t')) v)"
  shows "map rr_user_id (receipts (data D v')) = map rr_user_id (receipts (data D w)) @ [u, u]"
    "\<forall>n\<in>set (notifications (data D v')). n_notification_id n = i \<longrightarrow> n_user_id n = u \<longrightarrow> n_read_at n = Some t'"
proof -
  have step: "idle (data D y) \<and> tables_ok (data D y) \<and> owned (data D y) i u \<and> db_up D (w_db y) \<and>
      map rr_user_id (receipts (data D y)) = map rr_user_id (receipts (data D x)) @ [u] \<and>
      (\<forall>n\<in>set (notifications (data D y)). n_notification_id n = i \<longrightarrow> n_user_id n = u \<longrightarrow> n_read_at n = Some tm)"
    if x: "db_up D (w_db x)" "idle (data D x)" "tables_ok (data D x)" "owned (data D x) i u"
      and y: "y = snd (run (get_session D g (\<lambda>s. mark_read D s i u tm)) x)" for x y :: "('r, 'd, 'w) world" and tm
  proof (rule session_mark_read [OF x(1-3), of g i u tm])
    fix d assume "run (get_session D g (\<lambda>s. mark_read D s i u tm)) x = (Inr (owned (data D x) i u), (opened g x)\<lparr>w_db := d\<rparr>)"
      and d: "db_view D d = (if owned (data D x) i u
        then with_receipt i u tm (with_assigned [NotificationIdIs i, UserIdIs u] (SetReadAt tm) (data D x))
        else data D x)" "db_up D d"
    then have view: "data D y = with_receipt i u tm (with_assigned [NotificationIdIs i, UserIdIs u] (SetReadAt tm) (data D x))"
      and up: "db_up D (w_db y)" using y x(4) by simp_all
    from x(4) obtain n where n: "n \<in> set (notifications (data D x))" "n_notification_id n = i" "n_user_id n = u" by blast
    have "on_data D db_step x y" using obeys_run [OF steps_db obeys_get_session [OF obeys_repository(3)], of x] y by simp
    then have "tables_ok (data D y)" using x(3) by (auto simp: on_data_def db_step_def)
    moreover have "idle (data D y)" using x(2) by (simp add: view with_receipt_def with_assigned_def idle_def)
    moreover have "owned (data D y) i u"
    proof (intro bexI [of _ "assign (SetReadAt tm) n"] conjI)
      show "assign (SetReadAt tm) n \<in> set (notifications (data D y))"
        using n by (auto simp: view with_receipt_def with_assigned_def intro!: rev_image_eqI)
    qed (use n(2,3) in simp_all)
    moreover have "map rr_user_id (receipts (data D y)) = map rr_user_id (receipts (data D x)) @ [u]"
      unfolding view by (simp add: with_receipt_def with_assigned_def)
    moreover have "n_read_at m = Some tm" if m: "m \<in> set (notifications (data D y))" "n_notification_id m = i" "n_user_id m = u" for m
    proof -
      let ?f = "\<lambda>n. if matches [NotificationIdIs i, UserIdIs u] n then assign (SetReadAt tm) n else n"
      have "notifications (data D y) = map ?f (notifications (data D x))"
        unfolding view by (simp add: with_receipt_def with_assigned_def)
      with m(1) have "m \<in> ?f ` set (notifications (data D x))" by (simp only: set_map)
      then obtain k where "m = ?f k" by (rule imageE)
      with m(2,3) show ?thesis by (simp split: if_splits)
    qed
    ultimately show ?thesis using up by blast
  qed
  have v: "idle (data D v) \<and> tables_ok (data D v) \<and> owned (data D v) i u \<and> db_up D (w_db v) \<and>
      map rr_user_id (receipts (data D v)) = map rr_user_id (receipts (data D w)) @ [u]"
    using step [OF assms(1-5)] by blast
  show "map rr_user_id (receipts (data D v')) = map rr_user_id (receipts (data D w)) @ [u, u]"
    "\<forall>n\<in>set (notifications (data D v')). n_notification_id n = i \<longrightarrow> n_user_id n = u \<longrightarrow> n_read_at n = Some t'"
    using step [of v v' t'] v assms(6) by simp_all
qed

end

section \<open>Properties\<close>

text \<open>
  C8. In every state that the application reaches, a read receipt is for exactly one notification, one of the
  user it names, and that notification is marked as read, so that it is in no backlog any more. No user
  can leave a receipt on the notification of another: whatever the endpoint for the receipts of a
  notification answers, all of it is about that notification and of a single user.
\<close>

theorem receipts_belong:
  assumes "redis_service R" "database_service D" "websocket_service W"
    and "receipts_ok (data D w)" "tables_ok (data D w)"
    and "reachable (application H F R D W V J) w (ps, w')"
  shows "(\<forall>r\<in>set (receipts (data D w')). \<exists>!n. n \<in> set (notifications (data D w')) \<and>
       n_notification_id n = rr_notification_id r) \<and>
    (\<forall>r\<in>set (receipts (data D w')). \<forall>n\<in>set (notifications (data D w')).
       n_notification_id n = rr_notification_id r \<longrightarrow> n_user_id n = rr_user_id r \<and> n_read_at n \<noteq> None) \<and>
    (\<forall>g i reads v. run (read_receipts_endpoint D g i) w' = (Inr reads, v) \<longrightarrow>
       (\<exists>u. \<forall>a\<in>set reads. rrr_notification_id a = i \<and> rrr_user_id a = u))"
proof -
  have platform: "platform R D W" using assms(1-3) by (intro platform.intro stores.intro)
  have "audit_hold D {} w" using assms(4) by (simp add: own_hold_def)
  with platform.application_audit [OF platform assms(6)] have ok: "receipts_ok (data D w')" by (simp add: own_hold_def)
  have tables: "tables_ok (data D w')"
    using platform.application_tables [OF platform assms(6)] assms(5) by (auto simp: on_data_def db_step_def)
  then have inj: "inj_on n_notification_id (set (notifications (data D w')))"
    using unique_by_committed by (auto simp: tables_ok_def distinct_map)
  have row: "\<exists>n\<in>set (notifications (data D w')). receipt_for (rr_notification_id r) (rr_user_id r) n"
    if "r \<in> set (receipts (data D w'))" for r using ok that unfolding receipts_ok_def by blast
  have one_user: "\<exists>u. \<forall>a\<in>set reads. rrr_notification_id a = i \<and> rrr_user_id a = u"
    if "run (read_receipts_endpoint D g i) w' = (Inr reads, v)" for g i reads v
  proof (cases reads)
    case (Cons b bs)
    then have "b \<in> set reads" by simp
    with platform.endpoint_one_user [OF platform ok tables that] show ?thesis by blast
  qed simp
  have one_row: "\<exists>!n. n \<in> set (notifications (data D w')) \<and> n_notification_id n = rr_notification_id r"
    if r: "r \<in> set (receipts (data D w'))" for r
  proof -
    obtain n where n: "n \<in> set (notifications (data D w'))" "n_notification_id n = rr_notification_id r"
      using row [OF r] unfolding receipt_for_def by blast
    show ?thesis
    proof (rule ex1I [of _ n])
      show "m = n" if "m \<in> set (notifications (data D w')) \<and> n_notification_id m = rr_notification_id r" for m
        by (rule inj_onD [OF inj]) (use n that in auto)
    qed (use n in blast)
  qed
  have its_user: "n_user_id n = rr_user_id r" "n_read_at n \<noteq> None"
    if r: "r \<in> set (receipts (data D w'))" and n: "n \<in> set (notifications (data D w'))" "n_notification_id n = rr_notification_id r" for r n
  proof -
    from row [OF r] obtain m where m: "m \<in> set (notifications (data D w'))" "receipt_for (rr_notification_id r) (rr_user_id r) m" ..
    then have "m = n" using inj_onD [OF inj _ m(1) n(1)] n(2) by (simp add: receipt_for_def)
    with m(2) show "n_user_id n = rr_user_id r" "n_read_at n \<noteq> None" by (simp_all add: receipt_for_def)
  qed
  show ?thesis by (intro conjI ballI allI impI) (rule one_row its_user one_user; assumption)+
qed

definition sample_acknowledged :: dbstate where
  "sample_acknowledged =
     sample_db\<lparr>receipts := [\<lparr>rr_id = 5, rr_notification_id = 103, rr_user_id = 7, rr_read_at = start_time\<rparr>], next_row := 6\<rparr>"

theorem receipts_belong_witness:
  "\<exists>w'. reachable sample_application (start_world\<lparr>w_db := sample_acknowledged\<rparr>) ([Return ()], w') \<and>
     map rr_user_id (receipts (data mem_database w')) = [7] \<and>
     (\<forall>g reads v. run (read_receipts_endpoint mem_database g 103) w' = (Inr reads, v) \<longrightarrow>
       (\<exists>u. \<forall>a\<in>set reads. rrr_notification_id a = 103 \<and> rrr_user_id a = u))"
proof -
  let ?w = "start_world\<lparr>w_db := sample_acknowledged\<rparr> :: (rstate, dbstate, wstate \<times> nat list) world"
  obtain w' where reached: "reachable sample_application ?w ([Return ()], w')" and same: "w_db w' = sample_acknowledged"
    by (rule sample_ticket [of ?w]) simp
  have "receipts_ok (data mem_database ?w)"
    by (simp add: receipts_ok_def sample_acknowledged_def sample_db_def sample_row_def empty_db_def mem_view_def receipt_for_def)
  moreover have "tables_ok (data mem_database ?w)"
    by (simp add: sample_acknowledged_def sample_db_def sample_row_def empty_db_def mem_view_def tables_ok_def unique_by_def ids_below_def)
  ultimately have "\<forall>g i reads v. run (read_receipts_endpoint mem_database g i) w' = (Inr reads, v) \<longrightarrow>
      (\<exists>u. \<forall>a\<in>set reads. rrr_notification_id a = i \<and> rrr_user_id a = u)"
    using receipts_belong [OF mem.redis_service_axioms memdb.database_service_axioms memws.websocket_service_axioms _ _ reached]
    by blast
  moreover have "map rr_user_id (receipts (data mem_database w')) = [7]" by (simp add: same sample_acknowledged_def)
  ultimately show ?thesis using reached by (intro exI [of _ w']) simp
qed

end
