(* ===== verification/Clients.thy ===== *)
theory Clients
  imports Http_Routes
begin

text \<open>
  The scripts \<open>scripts/simulate_notifications.py\<close> and \<open>scripts/ws_client_demo.py\<close>, clients of a running
  deployment, and what a client finds there (locale \<open>deployment\<close>). Shown: how much of a batch the platform takes.
\<close>

section \<open>The network as a client sees it\<close>

text \<open>
  The packages httpx and websockets, a parameter: a POST to a base URL and a path, with headers and
  perhaps a JSON body, answered by a status and a text; a connection to a URL, what arrives on it, what is
  sent on it, and its end.
\<close>

record ('r, 'd, 'w) network =
  net_post :: "string \<Rightarrow> string \<Rightarrow> (string \<times> string) list \<Rightarrow> json option \<Rightarrow> ('r, 'd, 'w, nat \<times> string) task"
  net_connect :: "string \<Rightarrow> ('r, 'd, 'w, nat) task"
  net_recv :: "nat \<Rightarrow> ('r, 'd, 'w, string) task"
  net_send :: "nat \<Rightarrow> string \<Rightarrow> ('r, 'd, 'w, unit) task"
  net_close :: "nat \<Rightarrow> ('r, 'd, 'w, unit) task"

text \<open>\<open>raise_for_status\<close> lets 2xx pass; \<open>json.loads\<close>; \<open>print\<close>; the clock in microseconds.\<close>

definition raise_for_status :: "nat \<Rightarrow> ('r, 'd, 'w, unit) task" where
  "raise_for_status status = (if 200 \<le> status \<and> status < 300 then Return () else Raise (HTTPStatusError status))"

definition json_loads :: "string \<Rightarrow> ('r, 'd, 'w, json) task" where
  "json_loads text = (case loads text of None \<Rightarrow> Raise JSONDecodeError | Some j \<Rightarrow> Return j)"

definition print_line :: "string \<Rightarrow> ('r, 'd, 'w, unit) task" where
  "print_line line = modify_state (\<lambda>w. w\<lparr>w_printed := w_printed w @ [line]\<rparr>)"

section \<open>\<open>simulate_notifications.py\<close>\<close>

definition simulated_body :: "uuid \<Rightarrow> string \<Rightarrow> string \<Rightarrow> nat \<Rightarrow> json" where
  "simulated_body notification_id user_id notification_type i =
     JObj [(''notification_id'', JStr (uuid_str notification_id)), (''user_id'', JStr user_id),
           (''type'', JStr notification_type), (''payload'', JObj [(''index'', JInt (int i))])]"

definition progress :: "nat \<Rightarrow> int \<Rightarrow> json \<Rightarrow> string" where
  "progress i number answer = ''['' @ show_nat (i + 1) @ ''/'' @ show_int number @ ''] '' @ py_str answer"

definition send_one ::
  "('r, 'd, 'w) network \<Rightarrow> string \<Rightarrow> string \<Rightarrow> int \<Rightarrow> string \<Rightarrow> nat \<Rightarrow> ('r, 'd, 'w, unit) task" where
  "send_one N host user_id number notification_type i =
     await uuid4 (\<lambda>notification_id.
     await (net_post N host ''/notifications'' [] (Some (simulated_body notification_id user_id notification_type i)))
       (\<lambda>(status, text).
     await (raise_for_status status) (\<lambda>_.
     await (json_loads text) (\<lambda>answer.
     print_line (progress i number answer)))))"

primrec each :: "('a \<Rightarrow> ('r, 'd, 'w, unit) task) \<Rightarrow> 'a list \<Rightarrow> ('r, 'd, 'w, unit) task" where
  "each f [] = Return ()"
| "each f (x # xs) = await (f x) (\<lambda>_. each f xs)"

definition send_notifications ::
  "('r, 'd, 'w) network \<Rightarrow> string \<Rightarrow> string \<Rightarrow> int \<Rightarrow> string \<Rightarrow> ('r, 'd, 'w, unit) task" where
  "send_notifications N host user_id number notification_type =
     each (send_one N host user_id number notification_type) [0..<nat number]"

section \<open>\<open>ws_client_demo.py\<close>\<close>

definition ws_url :: "string \<Rightarrow> json \<Rightarrow> string" where
  "ws_url host ticket = host @ ''/ws?ticket='' @ py_str ticket"

text \<open>
  What arrives on the connection is a list, at whose end the server closes it; the heartbeats go on for
  \<open>n\<close> rounds, until Ctrl-C.
\<close>

definition show_message :: "string \<Rightarrow> ('r, 'd, 'w, unit) task" where
  "show_message raw = await suspend (\<lambda>_. await (json_loads raw) (\<lambda>message. print_line (''<- '' @ py_str message)))"

definition heartbeat_message :: string where
  "heartbeat_message = dumps (JObj [(''type'', JStr ''heartbeat'')])"

primrec heartbeat_loop :: "('r, 'd, 'w) network \<Rightarrow> nat \<Rightarrow> nat \<Rightarrow> ('r, 'd, 'w, unit) task" where
  "heartbeat_loop N ws 0 = await suspend (\<lambda>_. Raise CancelledError)"
| "heartbeat_loop N ws (Suc n) =
     await suspend (\<lambda>_. await (net_send N ws heartbeat_message) (\<lambda>_. heartbeat_loop N ws n))"

definition open_connection :: "('r, 'd, 'w) network \<Rightarrow> string \<Rightarrow> string \<Rightarrow> ('r, 'd, 'w, nat) task" where
  "open_connection N host ticket =
     await (net_connect N (ws_url host (JStr ticket))) (\<lambda>ws.
     await (print_line (''Connected to '' @ ws_url host (JStr ticket))) (\<lambda>_.
     Return ws))"

text \<open>The two tasks \<open>asyncio.gather\<close> runs over the connection.\<close>

definition gathered :: "('r, 'd, 'w) network \<Rightarrow> nat \<Rightarrow> string list \<Rightarrow> nat \<Rightarrow> ('r, 'd, 'w, unit) task list" where
  "gathered N ws raws n = [each show_message raws, heartbeat_loop N ws n]"

section \<open>Clients of a deployment\<close>

text \<open>What a client finds at the other end of \<open>net_post\<close>: the application of some instance.\<close>

definition answered :: "('r, 'd, 'w, 'h http_response) task \<Rightarrow> ('r, 'd, 'w, nat \<times> string) task" where
  "answered app = await app (\<lambda>resp. Return (rs_status_code resp, rs_body resp))"

locale deployment = stores R D + http_side H F + pydantic_service V
  for R :: "'r redis" and D :: "'d database" and H :: "'h headers" and F :: "'h web" and V :: pydantic +
  fixes N :: "('r, 'd, 'w) network" and J :: jwt and late :: "('r, 'd, 'w) world \<Rightarrow> bool" and cfg :: settings
    and client :: "string option" and headers :: 'h
  assumes settings_ok: "valid_settings cfg"
    and post_notification: "net_post N base ''/notifications'' hs (Some body) =
      answered (create_app H F R D V J late cfg client headers (CreateNotification body))"
    and post_ticket: "net_post N base ''/auth/ws-ticket'' [(''Authorization'', ''Bearer '' @ token)] None =
      answered (create_app H F R D V J late cfg client headers (IssueTicket token))"
begin

lemma run_answered:
  assumes "run (endpoint F R D V J late cfg client call) (w\<lparr>w_draws := Suc (w_draws w)\<rparr>) = (r, w1)" "r \<noteq> Inl CancelledError"
  obtains w' where "run (answered (create_app H F R D V J late cfg client headers call)) w =
      (Inr (status_of r, body_of F r), w')" "logged (instance_id cfg) w1 w'"
proof -
  obtain resp w' where "run (create_app H F R D V J late cfg client headers call) w = (Inr resp, w')"
    "rs_status_code resp = status_of r" "rs_body resp = body_of F r" "logged (instance_id cfg) w1 w'"
    by (rule run_create_app_logged [OF assms])
  then show ?thesis by (intro that [of w']) (simp_all add: answered_def)
qed

end

lemma logged_simps:
  assumes "logged i w w'"
  shows "w_redis w' = w_redis w" "w_db w' = w_db w" "w_ws w' = w_ws w" "w_uuid4 w' = w_uuid4 w"
    "w_draws w' = w_draws w" "w_printed w' = w_printed w" "w_time w' = w_time w" "w_events w' = w_events w"
    "w_now w' = w_now w" "w_token w' = w_token w"
    "connections (w_gateway w' g) = connections (w_gateway w g)"
  using assms by (auto simp: logged_def upd_gateway_def)

text \<open>The length of a numeral, and of the payload of a simulated notification.\<close>

lemma show_nat_length: "n < 10 ^ Suc k \<Longrightarrow> length (show_nat n) \<le> Suc k"
proof (induction k arbitrary: n)
  case 0
  then show ?case by (subst show_nat.simps) simp
next
  case (Suc k)
  show ?case
  proof (cases "n < 10")
    case True
    then show ?thesis by (subst show_nat.simps) simp
  next
    case False
    from Suc.prems have "n div 10 < 10 ^ Suc k" by (simp add: less_mult_imp_div_less)
    with Suc.IH False show ?thesis by (subst show_nat.simps) simp
  qed
qed

definition simulated :: "uuid \<Rightarrow> uuid \<Rightarrow> string \<Rightarrow> nat \<Rightarrow> notification_create" where
  "simulated notification_id u notification_type i =
     \<lparr>nc_notification_id = notification_id, nc_user_id = u, nc_type = notification_type,
      nc_payload = JObj [(''index'', JInt (int i))]\<rparr>"

lemma simulated_simps [simp]:
  "nc_notification_id (simulated n u ty i) = n" "nc_user_id (simulated n u ty i) = u"
  "nc_type (simulated n u ty i) = ty" "nc_payload (simulated n u ty i) = JObj [(''index'', JInt (int i))]"
  by (simp_all add: simulated_def)

context pydantic_service
begin

lemma parse_simulated:
  assumes "valid_type ty" "int i < 2 ^ 63"
  shows "parse_NotificationCreate V (simulated_body n (uuid_str u) ty i) = Some (simulated n u ty i)"
proof -
  have "i < 10 ^ Suc 18" using assms(2) by simp
  then have "length (show_nat i) \<le> 19" using show_nat_length by fastforce
  then have "length (dumps (JObj [(''index'', JInt (int i))])) \<le> 32768"
    by (simp add: quote_def escape_char_def show_int_def)
  with assms(1) uuid_law show ?thesis
    by (simp add: parse_NotificationCreate_def simulated_body_def parse_payload_def payload_within_size_limit_def
        MAX_PAYLOAD_BYTES_def simulated_def del: dumps.simps)
qed

end

text \<open>What becomes of a notification, apart from its row number and time.\<close>

definition outline :: "notification \<Rightarrow> uuid \<times> uuid \<times> string \<times> json \<times> bool" where
  "outline n = (n_notification_id n, n_user_id n, n_type n, n_payload n, n_delivered_live n)"

definition has_owner :: "'r redis \<Rightarrow> ('r, 'd, 'w) world \<Rightarrow> uuid \<Rightarrow> bool" where
  "has_owner R w u \<longleftrightarrow> owner_of (store R w) u \<noteq> None"

lemma owner_of_cong:
  "(\<And>u. entries s' (registry_key u) = entries s (registry_key u)) \<Longrightarrow>
     (\<And>i. entries s' (liveness_key i) = entries s (liveness_key i)) \<Longrightarrow> owner_of s' u = owner_of s u"
  by (simp add: owner_of_def split: option.splits)

lemma limit_distinct:
  "registry_key u \<noteq> rate_limit_key c" "liveness_key i \<noteq> rate_limit_key c"
  by (simp_all add: registry_key_def liveness_key_def rate_limit_key_def)

context deployment
begin

lemma run_send_new:
  fixes w :: "('r, 'd, 'w) world" and i :: nat and ty :: string
  defines "new \<equiv> w_uuid4 w (w_draws w)"
  assumes "ready R D w" "counts R (caller_key client) w k" "count_of k < 2 ^ 63 - 1"
    and "admits (api_rate_limit_requests cfg) k" "\<not> seen R w new" "\<not> stored (data D w) new"
    and "valid_type ty" "int i < 2 ^ 63"
  obtains w' where "run (send_one N host (uuid_str u) number ty i) w = (Inr (), w')" "ready R D w'"
    "counts R (caller_key client) w' (hit (api_rate_limit_window_seconds cfg) k)"
    "map outline (notifications (data D w')) = map outline (notifications (data D w)) @
       [(new, u, ty, JObj [(''index'', JInt (int i))], has_owner R w u)]"
    "w_printed w' = w_printed w @
       [progress i number (dump_NotificationCreateResponse (response (simulated new u ty i) True (has_owner R w u)))]"
    "w_uuid4 w' = w_uuid4 w" "w_draws w' = w_draws w + 2" "has_owner R w' u = has_owner R w u"
    "\<And>n. seen R w' n \<longleftrightarrow> seen R w n \<or> n = new"
proof -
  let ?v = "w\<lparr>w_draws := Suc (w_draws w)\<rparr>"
  let ?b = "simulated new u ty i"
  let ?a = "response ?b True (has_owner R w u)"
  let ?u = "?v\<lparr>w_draws := Suc (w_draws ?v)\<rparr>"
  have pre: "ready R D ?u" "counts R (caller_key client) ?u k" "\<not> seen R ?u (nc_notification_id ?b)"
    "\<not> stored (data D ?u) (nc_notification_id ?b)"
    using assms by (simp_all add: ready_def counts_def)
  obtain w1 where create: "run (create_notification R D cfg client ?b) ?u = (Inr ?a, w1)"
    and w1: "seen R w1 new" "map outline (notifications (data D w1)) = map outline (notifications (data D ?u)) @
        [(new, u, ty, JObj [(''index'', JInt (int i))], has_owner R w u)]"
      "ready R D w1" "same_rest ?u w1" "counts R (caller_key client) w1 (hit (api_rate_limit_window_seconds cfg) k)"
    and only: "\<And>key. key \<noteq> rate_limit_key (caller_key client) \<Longrightarrow> key \<noteq> dedup_key new \<Longrightarrow>
        entries (store R w1) key = entries (store R w) key"
  proof (rule run_create_new [OF pre(1) settings_ok pre(2) assms(4,5) pre(3,4)], goal_cases)
    case (1 v)
    have only: "entries (store R v) key = entries (store R w) key"
      if "key \<noteq> rate_limit_key (caller_key client)" "key \<noteq> dedup_key new" for key
      by (subst 1(9)) (use that in simp)
    show ?case
      by (rule 1(1) [OF _ _ _ 1(7,8,11)])
        (use 1 only in \<open>simp_all add: has_owner_def outline_def final_row_def new_row_def\<close>)
  qed
  let ?text = "web_json F (dump_NotificationCreateResponse ?a)"
  have "run (endpoint F R D V J late cfg client (CreateNotification (simulated_body new (uuid_str u) ty i))) ?u =
      (Inr ?text, w1)"
    using create parse_simulated [OF assms(8,9)] by (simp add: endpoint_def)
  from run_answered [OF this] obtain w2 where
    app: "run (answered (create_app H F R D V J late cfg client headers
        (CreateNotification (simulated_body new (uuid_str u) ty i)))) ?v = (Inr (200, ?text), w2)"
    and w2: "logged (instance_id cfg) w1 w2" by auto
  have read: "loads ?text = Some (dump_NotificationCreateResponse ?a)"
    by (rule json_law) (simp add: dump_NotificationCreateResponse_def)
  let ?line = "progress i number (dump_NotificationCreateResponse ?a)"
  let ?w = "w2\<lparr>w_printed := w_printed w2 @ [?line]\<rparr>"
  note same = logged_simps [OF w2]
  have entries: "entries (store R ?w) = entries (store R w1)" "data D ?w = data D w1" using same by simp_all
  show ?thesis
  proof (rule that [of ?w])
    show "run (send_one N host (uuid_str u) number ty i) w = (Inr (), ?w)"
      using app read
      by (simp add: send_one_def post_notification raise_for_status_def json_loads_def print_line_def flip: new_def)
    show "ready R D ?w" using w1(3) same by (simp add: ready_def)
    show "counts R (caller_key client) ?w (hit (api_rate_limit_window_seconds cfg) k)"
      using w1(5) same by (simp add: counts_def)
    show "map outline (notifications (data D ?w)) = map outline (notifications (data D w)) @
        [(new, u, ty, JObj [(''index'', JInt (int i))], has_owner R w u)]"
      using w1(2) entries by simp
    show "w_printed ?w = w_printed w @ [?line]" "w_uuid4 ?w = w_uuid4 w" "w_draws ?w = w_draws w + 2"
      using w1(4) same by (simp_all add: same_rest_def)
    have "owner_of (store R ?w) u = owner_of (store R w) u"
      by (rule owner_of_cong) (simp_all only: entries(1), simp_all add: only limit_distinct)
    then show "has_owner R ?w u = has_owner R w u" by (simp add: has_owner_def)
    show "seen R ?w n \<longleftrightarrow> seen R w n \<or> n = new" for n
    proof (cases "n = new")
      case False
      then have "dedup_key n \<noteq> dedup_key new" by (simp add: dedup_key_def)
      with only [OF dedup_distinct(1) this] entries(1) False show ?thesis by simp
    qed (use w1(1) entries(1) in simp)
  qed
qed

lemma run_send_refused:
  fixes w :: "('r, 'd, 'w) world" and i :: nat and ty :: string
  assumes "redis_up R w" "counts R (caller_key client) w k" "count_of k < 2 ^ 63 - 1"
    and "\<not> admits (api_rate_limit_requests cfg) k" "valid_type ty" "int i < 2 ^ 63"
  obtains w' where "run (send_one N host (uuid_str u) number ty i) w = (Inl (HTTPStatusError 429), w')"
    "w_db w' = w_db w" "w_printed w' = w_printed w"
proof -
  let ?v = "w\<lparr>w_draws := Suc (w_draws w)\<rparr>"
  let ?u = "?v\<lparr>w_draws := Suc (w_draws ?v)\<rparr>"
  let ?i = "w_uuid4 w (w_draws w)"
  have pre: "redis_up R ?u" "counts R (caller_key client) ?u k" using assms(1,2) by (simp_all add: counts_def)
  obtain r detail where "run (create_notification R D cfg client (simulated ?i u ty i)) ?u =
      (Inl (HTTPException 429 detail), ?u\<lparr>w_redis := r\<rparr>)"
    by (rule run_admission [OF pre(1) settings_ok pre(2) assms(3), of "simulated ?i u ty i"]) (use assms(4) in auto)
  then have "run (endpoint F R D V J late cfg client (CreateNotification (simulated_body ?i (uuid_str u) ty i))) ?u =
      (Inl (HTTPException 429 detail), ?u\<lparr>w_redis := r\<rparr>)"
    using parse_simulated [OF assms(5,6)] by (simp add: endpoint_def)
  from run_answered [OF this] obtain w2 where
    app: "run (answered (create_app H F R D V J late cfg client headers
        (CreateNotification (simulated_body ?i (uuid_str u) ty i)))) ?v = (Inr (429, web_error F 429 detail), w2)"
    and w2: "logged (instance_id cfg) (?u\<lparr>w_redis := r\<rparr>) w2" by auto
  show ?thesis
    by (rule that [of w2])
      (use app logged_simps [OF w2] in \<open>simp_all add: send_one_def post_notification raise_for_status_def\<close>)
qed

end

text \<open>The batch: the ids are every other draw, since the application draws a request id for each request.\<close>

abbreviation drawn :: "('r, 'd, 'w) world \<Rightarrow> nat \<Rightarrow> uuid" where
  "drawn w j \<equiv> w_uuid4 w (w_draws w + 2 * j)"

definition unused :: "'r redis \<Rightarrow> 'd database \<Rightarrow> ('r, 'd, 'w) world \<Rightarrow> nat \<Rightarrow> bool" where
  "unused R D w n \<longleftrightarrow> inj_on (drawn w) {..<n} \<and> (\<forall>j<n. \<not> seen R w (drawn w j) \<and> \<not> stored (data D w) (drawn w j))"

lemma stored_outline: "stored s i \<longleftrightarrow> i \<in> fst ` set (map outline (notifications s))"
  by (auto simp: outline_def image_image)

lemma unused_step:
  assumes "unused R D w (Suc n)" "w_uuid4 w' = w_uuid4 w" "w_draws w' = w_draws w + 2"
    and "\<And>n. seen R w' n \<longleftrightarrow> seen R w n \<or> n = drawn w 0"
    and "\<And>n. stored (data D w') n \<longleftrightarrow> stored (data D w) n \<or> n = drawn w 0"
  shows "unused R D w' n"
proof -
  have shift: "drawn w' j = drawn w (Suc j)" for j using assms(2,3) by simp
  have inj: "inj_on (drawn w) {..<Suc n}" using assms(1) by (simp add: unused_def)
  have "inj_on (drawn w') {..<n}"
    unfolding shift by (rule inj_onI) (use inj_onD [OF inj] in fastforce)
  moreover have "drawn w (Suc j) \<noteq> drawn w 0" if "j < n" for j
    using inj_onD [OF inj, of "Suc j" 0] that by auto
  ultimately show ?thesis using assms(1,4,5) unfolding unused_def shift by auto
qed

context deployment
begin

lemma run_batch:
  fixes w :: "('r, 'd, 'w) world" and ty :: string
  assumes "ready R D w" "counts R (caller_key client) w k" "count_of k + int (length is) < 2 ^ 63"
    and "valid_type ty" "\<forall>i\<in>set is. int i < 2 ^ 63" "unused R D w (length is)"
    and "room = nat (api_rate_limit_requests cfg - count_of k)"
  shows "\<exists>w'. run (each (send_one N host (uuid_str u) number ty) is) w =
      (if length is \<le> room then Inr () else Inl (HTTPStatusError 429), w') \<and>
    map outline (notifications (data D w')) = map outline (notifications (data D w)) @
      map (\<lambda>j. (drawn w j, u, ty, JObj [(''index'', JInt (int (is ! j)))], has_owner R w u)) [0..<min (length is) room] \<and>
    w_printed w' = w_printed w @
      map (\<lambda>j. progress (is ! j) number (dump_NotificationCreateResponse
        (response (simulated (drawn w j) u ty (is ! j)) True (has_owner R w u)))) [0..<min (length is) room]"
  using assms
proof (induction "is" arbitrary: w k room)
  case Nil
  then show ?case by simp
next
  case (Cons i "is")
  have below: "count_of k < 2 ^ 63 - 1" "int i < 2 ^ 63" using Cons.prems(3,5) by simp_all
  note here = Cons.prems(1,2) below(1)
  show ?case
  proof (cases "admits (api_rate_limit_requests cfg) k")
    case True
    have new: "\<not> seen R w (w_uuid4 w (w_draws w))" "\<not> stored (data D w) (w_uuid4 w (w_draws w))"
      using Cons.prems(6) unfolding unused_def by force+
    obtain w1 where w1: "run (send_one N host (uuid_str u) number ty i) w = (Inr (), w1)" "ready R D w1"
      "counts R (caller_key client) w1 (hit (api_rate_limit_window_seconds cfg) k)"
      "map outline (notifications (data D w1)) = map outline (notifications (data D w)) @
         [(drawn w 0, u, ty, JObj [(''index'', JInt (int i))], has_owner R w u)]"
      "w_printed w1 = w_printed w @ [progress i number (dump_NotificationCreateResponse
         (response (simulated (drawn w 0) u ty i) True (has_owner R w u)))]"
      "w_uuid4 w1 = w_uuid4 w" "w_draws w1 = w_draws w + 2" "has_owner R w1 u = has_owner R w u"
      "\<And>n. seen R w1 n \<longleftrightarrow> seen R w n \<or> n = drawn w 0"
      by (rule run_send_new [OF here True new Cons.prems(4) below(2), where u = u and host = host and number = number])
        simp
    have "stored (data D w1) n \<longleftrightarrow> stored (data D w) n \<or> n = drawn w 0" for n
      unfolding stored_outline w1(4) by auto
    from unused_step [OF _ w1(6,7,9) this, of "length is"] Cons.prems(6) have "unused R D w1 (length is)" by simp
    moreover have "count_of (hit (api_rate_limit_window_seconds cfg) k) = count_of k + 1" by (cases k) auto
    moreover have shift: "drawn w1 j = drawn w (Suc j)" for j using w1(6,7) by simp
    moreover have room: "room = Suc (room - 1)"
      "room - 1 = nat (api_rate_limit_requests cfg - (count_of k + 1))"
      using True Cons.prems(7) by (auto simp: admits_def)
    ultimately obtain w' where
      "run (each (send_one N host (uuid_str u) number ty) is) w1 =
        (if length is \<le> room - 1 then Inr () else Inl (HTTPStatusError 429), w')"
      "map outline (notifications (data D w')) = map outline (notifications (data D w1)) @
        map (\<lambda>j. (drawn w (Suc j), u, ty, JObj [(''index'', JInt (int (is ! j)))], has_owner R w u))
          [0..<min (length is) (room - 1)]"
      "w_printed w' = w_printed w1 @
        map (\<lambda>j. progress (is ! j) number (dump_NotificationCreateResponse
          (response (simulated (drawn w (Suc j)) u ty (is ! j)) True (has_owner R w u)))) [0..<min (length is) (room - 1)]"
      using Cons.IH [OF w1(2,3), of "room - 1"] Cons.prems(3,4,5) w1(8) by auto
    moreover have "min (length (i # is)) room = Suc (min (length is) (room - 1))"
      "length (i # is) \<le> room \<longleftrightarrow> length is \<le> room - 1"
      using room(1) by auto
    ultimately show ?thesis using w1(1,4,5)
      by (intro exI [of _ w']) (simp add: map_upt_Suc del: upt_Suc)
  next
    case False
    then have "room = 0" using Cons.prems(7) by (simp add: admits_def)
    moreover have "redis_up R w" using Cons.prems(1) by (simp add: ready_def)
    from run_send_refused [OF this here(2,3) False Cons.prems(4) below(2)]
    obtain w' where "run (send_one N host (uuid_str u) number ty i) w = (Inl (HTTPStatusError 429), w')"
      "w_db w' = w_db w" "w_printed w' = w_printed w" .
    ultimately show ?thesis by (intro exI [of _ w']) simp
  qed
qed

end

section \<open>A deployment\<close>

text \<open>One instance on this machine, over HTTP only.\<close>

definition local_network :: "jwt \<Rightarrow> settings \<Rightarrow> (rstate, dbstate, wstate \<times> nat list) network" where
  "local_network J cfg =
     (let call = create_app std_headers std_web mem_redis mem_database std_pydantic J (\<lambda>_. False) cfg None [] in
     \<lparr>net_post = (\<lambda>base path headers body.
        (if path = ''/notifications'' then
           (case body of None \<Rightarrow> Return (422, []) | Some j \<Rightarrow> answered (call (CreateNotification j)))
         else if path = ''/auth/ws-ticket'' then
           (case headers of [] \<Rightarrow> Return (401, [])
            | (_, v) # _ \<Rightarrow> answered (call (IssueTicket (drop 7 v))))
         else Return (404, []))),
      net_connect = (\<lambda>_. Raise TransportError), net_recv = (\<lambda>_. Raise TransportError),
      net_send = (\<lambda>_ _. Raise TransportError), net_close = (\<lambda>_. Return ())\<rparr>)"

lemma local_deployment:
  "valid_settings cfg \<Longrightarrow> deployment mem_redis mem_database std_headers std_web std_pydantic (local_network J cfg) J
     (\<lambda>_. False) cfg None []"
  by unfold_locales (simp_all add: local_network_def Let_def)

abbreviation sample_network :: "(rstate, dbstate, wstate \<times> nat list) network" where
  "sample_network \<equiv> local_network sample_jwt default_settings"

interpretation local: deployment mem_redis mem_database std_headers std_web std_pydantic sample_network sample_jwt
  "\<lambda>_. False" default_settings None "[]"
  by (rule local_deployment) simp

section \<open>Properties\<close>

text \<open>
  C18. The bulk sender against a deployment: of a batch, exactly as many notifications are
  stored as the caller's window has room for, in order, each with the user, the type and its index, flagged
  as delivered live if the user is connected somewhere, and each printed with the platform's answer; the
  sender ends well if the whole batch had room, and otherwise dies of the first 429. The
  batch takes no time here, so all of it falls into one window.
\<close>

theorem bulk_sender_fills_the_window:
  assumes "deployment R D H F V N J late cfg client headers" "ready R D w"
    and "counts R (caller_key client) w k" "count_of k + int (nat number) < 2 ^ 63"
    and "valid_type ty" "unused R D w (nat number)"
    and "room = nat (api_rate_limit_requests cfg - count_of k)" "m = min (nat number) room"
  shows "\<exists>w'. run (send_notifications N host (uuid_str u) number ty) w =
      (if nat number \<le> room then Inr () else Inl (HTTPStatusError 429), w') \<and>
    map outline (notifications (data D w')) = map outline (notifications (data D w)) @
      map (\<lambda>j. (drawn w j, u, ty, JObj [(''index'', JInt (int j))], has_owner R w u)) [0..<m] \<and>
    w_printed w' = w_printed w @ map (\<lambda>j. progress j number (JObj [(''notification_id'', JStr (uuid_str (drawn w j))),
      (''persisted'', JBool True), (''delivered_live'', JBool (has_owner R w u))])) [0..<m]"
proof -
  have pos: "0 \<le> count_of k" using assms(3) by (cases k) (auto simp: counts_def)
  have "int i < 2 ^ 63" if "i < nat number" for i
  proof -
    from that have "int i < int (nat number)" by (simp only: of_nat_less_iff)
    with assms(4) pos show ?thesis by linarith
  qed
  then have "\<forall>i\<in>set [0..<nat number]. int i < 2 ^ 63" by simp
  then obtain w' where w': "run (send_notifications N host (uuid_str u) number ty) w =
      (if nat number \<le> room then Inr () else Inl (HTTPStatusError 429), w')"
    "map outline (notifications (data D w')) = map outline (notifications (data D w)) @
      map (\<lambda>j. (drawn w j, u, ty, JObj [(''index'', JInt (int ([0..<nat number] ! j)))], has_owner R w u)) [0..<m]"
    "w_printed w' = w_printed w @ map (\<lambda>j. progress ([0..<nat number] ! j) number (dump_NotificationCreateResponse
        (response (simulated (drawn w j) u ty ([0..<nat number] ! j)) True (has_owner R w u)))) [0..<m]"
    using deployment.run_batch [OF assms(1-3) _ assms(5) _ _ assms(7), of "[0..<nat number]" host u number] assms(4,6)
    by (auto simp: send_notifications_def assms(8))
  have nth: "[0..<nat number] ! j = j" if "j < m" for j using that assms(8) by simp
  show ?thesis
    by (intro exI [of _ w'] conjI w'(1))
      (simp_all add: w'(2,3) nth dump_NotificationCreateResponse_def response_def cong: map_cong)
qed

text \<open>A batch of 150 against the default limit of 100.\<close>

lemma sample_unused: "n \<le> 2 ^ 60 \<Longrightarrow> unused mem_redis mem_database start_world n"
proof -
  assume n: "n \<le> 2 ^ 60"
  have "inj_on (\<lambda>j. of_nat (2 * j) :: uuid) {..<n}"
  proof (rule inj_onI)
    fix i j assume ij: "i \<in> {..<n}" "j \<in> {..<n}" "(of_nat (2 * i) :: uuid) = of_nat (2 * j)"
    then have "take_bit 128 (2 * i) = take_bit 128 (2 * j)" by (simp only: word_of_nat_eq_iff) simp
    moreover have "2 * i < 2 ^ 128" "2 * j < 2 ^ 128" using ij(1,2) n by auto
    ultimately show "i = j" by (simp add: take_bit_nat_eq_self)
  qed
  then show ?thesis by (simp add: unused_def)
qed

theorem bulk_sender_fills_the_window_witness:
  "\<exists>w'. run (send_notifications sample_network ''http://localhost:8000'' (uuid_str 7) 150 ''message.received'') start_world =
      (Inl (HTTPStatusError 429), w') \<and> length (notifications (data mem_database w')) = 100 \<and> length (w_printed w') = 100"
proof -
  have "unused mem_redis mem_database start_world (nat 150)" by (rule sample_unused) simp
  from bulk_sender_fills_the_window [OF local.deployment_axioms sample_ready(2) _ _ sample_type this HOL.refl HOL.refl,
      of None "''http://localhost:8000''" 7]
  obtain w' where w': "run (send_notifications sample_network ''http://localhost:8000'' (uuid_str 7) 150 ''message.received'') start_world =
      (Inl (HTTPStatusError 429), w')" "length (notifications (data mem_database w')) = 100"
      "length (w_printed w') = 100"
    by (auto simp: counts_def default_settings_def dest!: arg_cong [where f = length])
  then show ?thesis by blast
qed

lemma user_123_no_uuid: "py_UUID ''user-123'' = None"
  by code_simp

text \<open>
  A user id that is no UUID, like the one in the usage text of the sender: the platform refuses the first
  notification with 422 before anything is counted or stored, and the sender dies of it.
\<close>

theorem bulk_sender_needs_uuid:
  assumes "deployment R D H F V N J late cfg client headers" "pd_uuid V (JStr user_id) = None" "0 < number"
  shows "\<exists>w'. run (send_notifications N host user_id number ty) w = (Inl (HTTPStatusError 422), w') \<and>
    w_redis w' = w_redis w \<and> w_db w' = w_db w \<and> w_printed w' = w_printed w"
proof -
  let ?v = "w\<lparr>w_draws := Suc (w_draws w)\<rparr>"
  let ?body = "simulated_body (w_uuid4 w (w_draws w)) user_id ty 0"
  have "run (endpoint F R D V J late cfg client (CreateNotification ?body)) (?v\<lparr>w_draws := Suc (w_draws ?v)\<rparr>) =
      (Inl (HTTPException 422 ''body''), ?v\<lparr>w_draws := Suc (w_draws ?v)\<rparr>)"
    using assms(2) by (simp add: endpoint_def parse_NotificationCreate_def simulated_body_def split: option.splits)
  from deployment.run_answered [OF assms(1) this] obtain w' where
    app: "run (answered (create_app H F R D V J late cfg client headers (CreateNotification ?body))) ?v =
      (Inr (422, web_error F 422 ''body''), w')"
    and w': "logged (instance_id cfg) (?v\<lparr>w_draws := Suc (w_draws ?v)\<rparr>) w'" by auto
  obtain ns where "[0..<nat number] = 0 # ns" using assms(3) by (simp add: upt_conv_Cons)
  then have "run (send_notifications N host user_id number ty) w = (Inl (HTTPStatusError 422), w')"
    using app by (simp add: send_notifications_def send_one_def deployment.post_notification [OF assms(1)] raise_for_status_def)
  with logged_simps [OF w'] show ?thesis by simp
qed

theorem bulk_sender_needs_uuid_witness:
  "\<exists>w'. run (send_notifications sample_network ''http://localhost:8000'' ''user-123'' 100 ''message.received'') start_world =
      (Inl (HTTPStatusError 422), w') \<and> notifications (data mem_database w') = []"
  using bulk_sender_needs_uuid [OF local.deployment_axioms, where user_id = "''user-123''" and number = 100
      and host = "''http://localhost:8000''" and ty = "''message.received''" and w = start_world]
  by (auto simp: std_pydantic_def user_123_no_uuid)

end
