(* ===== verification/Load_Tests.thy ===== *)
theory Load_Tests
  imports Clients
begin

text \<open>
  The load tests \<open>load_tests/fanout_benchmark.py\<close> and \<open>load_tests/ws_locustfile.py\<close>. Shown: for which deployments they
  get tickets, that the summary of the benchmark is computed from samples that are there, and that a
  simulated user reports every outcome.
\<close>

text \<open>PyJWT's \<open>encode(claims, key, algorithm)\<close>, a parameter as well.\<close>

type_synonym jwt_encoder = "json \<Rightarrow> string \<Rightarrow> string \<Rightarrow> string"

section \<open>\<open>fanout_benchmark.py\<close>\<close>

text \<open>\<open>s.replace(old, new)\<close> for a non-empty \<open>old\<close>.\<close>

fun replace_all :: "nat \<Rightarrow> string \<Rightarrow> string \<Rightarrow> string \<Rightarrow> string" where
  "replace_all skip old new [] = []"
| "replace_all (Suc skip) old new (c # cs) = replace_all skip old new cs"
| "replace_all 0 old new (c # cs) =
     (if take (length old) (c # cs) = old then new @ replace_all (length old - 1) old new cs
      else c # replace_all 0 old new cs)"

definition http_of_ws :: "string \<Rightarrow> string" where
  "http_of_ws url = replace_all 0 ''wss://'' ''https://'' (replace_all 0 ''ws://'' ''http://'' url)"

definition fake_bearer_token :: "jwt_encoder \<Rightarrow> string \<Rightarrow> string" where
  "fake_bearer_token encode user_id = encode (JObj [(''sub'', JStr user_id)]) ''change-me-in-production'' ''HS256''"

definition get_ticket ::
  "('r, 'd, 'w) network \<Rightarrow> jwt_encoder \<Rightarrow> string \<Rightarrow> string \<Rightarrow> ('r, 'd, 'w, json) task" where
  "get_ticket N encode http_host user_id =
     await (net_post N http_host ''/auth/ws-ticket''
              [(''Authorization'', ''Bearer '' @ fake_bearer_token encode user_id)] None) (\<lambda>(status, text).
     await (raise_for_status status) (\<lambda>_.
     await (json_loads text) (\<lambda>answer.
     py_index answer ''ticket'')))"

definition benchmark_body :: "uuid \<Rightarrow> string \<Rightarrow> json" where
  "benchmark_body notification_id user_id =
     JObj [(''notification_id'', JStr (uuid_str notification_id)), (''user_id'', JStr user_id),
           (''type'', JStr ''benchmark.ping''), (''payload'', JObj [])]"

text \<open>One iteration: what it adds to \<open>latencies\<close>.\<close>

definition measure ::
  "('r, 'd, 'w) network \<Rightarrow> string \<Rightarrow> string \<Rightarrow> nat \<Rightarrow> ('r, 'd, 'w, int) task" where
  "measure N trigger_host user_id ws =
     await uuid4 (\<lambda>notification_id.
     await (read_state w_time) (\<lambda>sent_at.
     await (net_post N trigger_host ''/notifications'' [] (Some (benchmark_body notification_id user_id))) (\<lambda>(status, _).
     await (raise_for_status status) (\<lambda>_.
     await (net_recv N ws) (\<lambda>raw.
     await (json_loads raw) (\<lambda>message.
     await (read_state w_time) (\<lambda>received_at.
     await (py_index message ''notification'') (\<lambda>n.
     await (py_index n ''notification_id'') (\<lambda>received_id.
     if received_id = JStr (uuid_str notification_id) then Return (received_at - sent_at)
     else Raise AssertionError)))))))))"

primrec measure_each ::
  "('r, 'd, 'w) network \<Rightarrow> string \<Rightarrow> string \<Rightarrow> nat \<Rightarrow> nat \<Rightarrow> int list \<Rightarrow> ('r, 'd, 'w, int list) task" where
  "measure_each N trigger_host user_id ws 0 latencies = Return latencies"
| "measure_each N trigger_host user_id ws (Suc n) latencies =
     await (measure N trigger_host user_id ws) (\<lambda>l. measure_each N trigger_host user_id ws n (latencies @ [l]))"

definition run_benchmark ::
  "('r, 'd, 'w) network \<Rightarrow> jwt_encoder \<Rightarrow> string \<Rightarrow> string \<Rightarrow> int \<Rightarrow> ('r, 'd, 'w, int list) task" where
  "run_benchmark N encode trigger_host recv_host iterations =
     await uuid4 (\<lambda>u. let user_id = uuid_str u in
     await (get_ticket N encode (http_of_ws recv_host) user_id) (\<lambda>ticket.
     await (net_connect N (ws_url recv_host ticket)) (\<lambda>ws.
     try_finally
       (await (net_recv N ws) (\<lambda>_. measure_each N trigger_host user_id ws (nat iterations) []))
       (net_close N ws))))"

text \<open>
  \<open>f'{a / b:.2f}'\<close>. The latencies are kept in microseconds, exactly; the program has the doubles nearest
  to them in milliseconds.
\<close>

definition fixed2 :: "int \<Rightarrow> int \<Rightarrow> string" where
  "fixed2 a b = show_float (round_half_even (100 * a) b) 2"

text \<open>
  The product of a list length and a double between a half and one, given by the 53 bits of its mantissa, as
  IEEE 754 has it: the exact product, rounded to 53 significant bits.
\<close>

fun bit_length :: "nat \<Rightarrow> nat" where
  "bit_length n = (if n = 0 then 0 else Suc (bit_length (n div 2)))"

declare bit_length.simps [simp del]

definition to_double :: "nat \<Rightarrow> nat" where
  "to_double p = (let s = bit_length p - 53 in nat (round_half_even (int p) (2 ^ s)) * 2 ^ s)"

definition scaled :: "nat \<Rightarrow> nat \<Rightarrow> nat" where
  "scaled n mantissa = to_double (n * mantissa) div 2 ^ 53"

text \<open>\<open>int(n * 0.95)\<close> and \<open>int(n * 0.99)\<close>.\<close>

definition p95_index :: "nat \<Rightarrow> nat" where
  "p95_index n = scaled n 8556839292003942"

definition p99_index :: "nat \<Rightarrow> nat" where
  "p99_index n = scaled n 8917127262193582"

definition py_item :: "'a list \<Rightarrow> nat \<Rightarrow> ('r, 'd, 'w, 'a) task" where
  "py_item xs i = (if i < length xs then Return (xs ! i) else Raise IndexError)"

text \<open>\<open>statistics.median\<close> of a sorted list, as the fraction that \<open>fixed2\<close> takes.\<close>

definition median :: "int list \<Rightarrow> ('r, 'd, 'w, int \<times> int) task" where
  "median xs =
     (let n = length xs in
      if n = 0 then Raise StatisticsError
      else if odd n then Return (xs ! (n div 2), 1000)
      else Return (xs ! (n div 2 - 1) + xs ! (n div 2), 2000))"

definition print_summary :: "int list \<Rightarrow> ('r, 'd, 'w, unit) task" where
  "print_summary latencies =
     (let sorted_latencies = sort latencies; n = length sorted_latencies in
     await (print_line (''Samples: '' @ show_nat n)) (\<lambda>_.
     await (median sorted_latencies) (\<lambda>(a, b).
     await (print_line (''P50: '' @ fixed2 a b @ '' ms'')) (\<lambda>_.
     await (py_item sorted_latencies (p95_index n)) (\<lambda>p95.
     await (print_line (''P95: '' @ fixed2 p95 1000 @ '' ms'')) (\<lambda>_.
     await (py_item sorted_latencies (p99_index n)) (\<lambda>p99.
     print_line (''P99: '' @ fixed2 p99 1000 @ '' ms''))))))))"

text \<open>What \<open>main\<close> does with its arguments.\<close>

definition benchmark_main ::
  "('r, 'd, 'w) network \<Rightarrow> jwt_encoder \<Rightarrow> string \<Rightarrow> string \<Rightarrow> int \<Rightarrow> ('r, 'd, 'w, unit) task" where
  "benchmark_main N encode trigger_host recv_host iterations =
     await (run_benchmark N encode trigger_host recv_host iterations) print_summary"

section \<open>\<open>ws_locustfile.py\<close>\<close>

record ws_user =
  wu_user_id :: string
  wu_connection :: "nat option"

definition fire :: "string \<Rightarrow> int \<Rightarrow> exn option \<Rightarrow> ('r, 'd, 'w, unit) task" where
  "fire name start exception =
     await (read_state w_time) (\<lambda>now.
     modify_state (\<lambda>w. w\<lparr>w_events := w_events w @
       [\<lparr>ce_request_type = ''WS'', ce_name = name, ce_response_time = now - start, ce_exception = exception\<rparr>]\<rparr>))"

text \<open>\<open>except Exception as exc\<close>, with the event that reports it.\<close>

definition report ::
  "string \<Rightarrow> int \<Rightarrow> 'a \<Rightarrow> exn \<Rightarrow> ('r, 'd, 'w, 'a) task option" where
  "report name start result exc = except_Exception (await (fire name start (Some exc)) (\<lambda>_. Return result)) exc"

text \<open>
  \<open>_connect\<close>: the user as it is afterwards. \<open>self.connection\<close> is set before the backlog is received, and stays
  set when that fails.
\<close>

definition connect_user ::
  "('r, 'd, 'w) network \<Rightarrow> jwt_encoder \<Rightarrow> string \<Rightarrow> ws_user \<Rightarrow> ('r, 'd, 'w, ws_user) task" where
  "connect_user N encode host user =
     await (read_state w_time) (\<lambda>start.
     try_except
       (await (get_ticket N encode ''http://localhost:8000'' (wu_user_id user)) (\<lambda>ticket.
        await (net_connect N (ws_url host ticket)) (\<lambda>connection.
          let user = user\<lparr>wu_connection := Some connection\<rparr> in
          try_except
            (await (net_recv N connection) (\<lambda>_. await (fire ''connect'' start None) (\<lambda>_. Return user)))
            (report ''connect'' start user))))
       (report ''connect'' start user))"

definition on_start :: "('r, 'd, 'w) network \<Rightarrow> jwt_encoder \<Rightarrow> string \<Rightarrow> ('r, 'd, 'w, ws_user) task" where
  "on_start N encode host =
     await uuid4 (\<lambda>u. connect_user N encode host \<lparr>wu_user_id = uuid_str u, wu_connection = None\<rparr>)"

definition on_stop :: "('r, 'd, 'w) network \<Rightarrow> ws_user \<Rightarrow> ('r, 'd, 'w, unit) task" where
  "on_stop N user = (case wu_connection user of None \<Rightarrow> Return () | Some connection \<Rightarrow> net_close N connection)"

definition heartbeat_task :: "('r, 'd, 'w) network \<Rightarrow> ws_user \<Rightarrow> ('r, 'd, 'w, unit) task" where
  "heartbeat_task N user =
     (case wu_connection user of
        None \<Rightarrow> Return ()
      | Some connection \<Rightarrow>
          await (read_state w_time) (\<lambda>start.
          try_except
            (await (net_send N connection heartbeat_message) (\<lambda>_. fire ''heartbeat'' start None))
            (report ''heartbeat'' start ())))"

section \<open>What a simulated user reports\<close>

definition same_events :: "('r, 'd, 'w) world \<Rightarrow> ('r, 'd, 'w) world \<Rightarrow> bool" where
  "same_events w w' \<longleftrightarrow> w_events w' = w_events w"

lemma steps_same_events: "steps same_events"
  by unfold_locales (simp_all add: same_events_def)

text \<open>The network reports nothing to Locust itself.\<close>

definition silent :: "('r, 'd, 'w) network \<Rightarrow> bool" where
  "silent N \<longleftrightarrow> (\<forall>base path hs body. obeys same_events (net_post N base path hs body)) \<and>
     (\<forall>url. obeys same_events (net_connect N url)) \<and> (\<forall>ws. obeys same_events (net_recv N ws)) \<and>
     (\<forall>ws s. obeys same_events (net_send N ws s))"

lemma same_events_ticket:
  assumes "silent N"
  shows "obeys same_events (get_ticket N encode host u)"
  using assms
  by (auto simp: get_ticket_def raise_for_status_def json_loads_def py_index_def silent_def
      split: option.splits json.splits intro!: obeys_rules)

lemma same_events_runs:
  assumes "silent N"
  shows "run (get_ticket N encode host u) w = (r, w') \<Longrightarrow> w_events w' = w_events w"
    "run (net_connect N url) w = (r2, w') \<Longrightarrow> w_events w' = w_events w"
    "run (net_recv N ws) w = (r3, w') \<Longrightarrow> w_events w' = w_events w"
    "run (net_send N ws msg) w = (r4, w') \<Longrightarrow> w_events w' = w_events w"
  using obeys_run [OF steps_same_events same_events_ticket [OF assms], of w encode host u]
    obeys_run [OF steps_same_events, of "net_connect N url" w] obeys_run [OF steps_same_events, of "net_recv N ws" w]
    obeys_run [OF steps_same_events, of "net_send N ws msg" w] assms
  by (auto simp: silent_def same_events_def)

lemma run_fire [simp]:
  "run (fire name start exception) w = (Inr (), w\<lparr>w_events := w_events w @
     [\<lparr>ce_request_type = ''WS'', ce_name = name, ce_response_time = w_time w - start, ce_exception = exception\<rparr>]\<rparr>)"
  by (simp add: fire_def)

text \<open>What a task that ends with \<open>w'\<close> has reported: one event, or nothing if it was cancelled.\<close>

definition reported :: "string \<Rightarrow> ('r, 'd, 'w) world \<Rightarrow> ('r, 'd, 'w) world \<Rightarrow> exn option \<Rightarrow> bool" where
  "reported name w w' exception \<longleftrightarrow> (\<exists>t. w_events w' = w_events w @
     [\<lparr>ce_request_type = ''WS'', ce_name = name, ce_response_time = t, ce_exception = exception\<rparr>])"

lemma run_connect_user:
  assumes "silent N" "run (connect_user N encode host user) w = (r, w')"
  shows "(r = Inl CancelledError \<and> w_events w' = w_events w) \<or>
    (\<exists>user'. r = Inr user' \<and> wu_user_id user' = wu_user_id user \<and> reported ''connect'' w w' None \<and> wu_connection user' \<noteq> None) \<or>
    (\<exists>user' e. r = Inr user' \<and> wu_user_id user' = wu_user_id user \<and> reported ''connect'' w w' (Some e) \<and> is_Exception e)"
proof -
  note quiet = same_events_runs [OF assms(1)]
  obtain r1 w1 where ticket: "run (get_ticket N encode ''http://localhost:8000'' (wu_user_id user)) w = (r1, w1)" by fastforce
  note q1 = quiet(1) [OF this]
  show ?thesis
  proof (cases r1)
    case (Inl e)
    with assms(2) ticket q1 show ?thesis
      by (auto simp: connect_user_def Let_def report_def except_Exception_def is_Exception_def reported_def split: if_splits)
  next
    case (Inr t)
    obtain r2 w2 where connect: "run (net_connect N (ws_url host t)) w1 = (r2, w2)" by fastforce
    note q2 = quiet(2) [OF this]
    show ?thesis
    proof (cases r2)
      case (Inl e)
      with assms(2) ticket Inr connect q1 q2 show ?thesis
        by (auto simp: connect_user_def Let_def report_def except_Exception_def is_Exception_def reported_def split: if_splits)
    next
      case (Inr c)
      obtain r3 w3 where recv: "run (net_recv N c) w2 = (r3, w3)" by fastforce
      note q3 = quiet(3) [OF this]
      from assms(2) ticket \<open>r1 = Inr t\<close> connect Inr recv q1 q2 q3 show ?thesis
        by (cases r3)
          (auto simp: connect_user_def Let_def report_def except_Exception_def is_Exception_def reported_def split: if_splits)
    qed
  qed
qed

lemma run_heartbeat_task:
  assumes "silent N" "run (heartbeat_task N user) w = (r, w')"
  shows "(wu_connection user = None \<and> r = Inr () \<and> w' = w) \<or> (r = Inl CancelledError \<and> w_events w' = w_events w) \<or>
    (wu_connection user \<noteq> None \<and> r = Inr () \<and> (reported ''heartbeat'' w w' None \<or> (\<exists>e. reported ''heartbeat'' w w' (Some e) \<and> is_Exception e)))"
proof (cases "wu_connection user")
  case None
  with assms(2) show ?thesis by (simp add: heartbeat_task_def)
next
  case (Some c)
  obtain r1 w1 where send: "run (net_send N c heartbeat_message) w = (r1, w1)" by fastforce
  note q = same_events_runs(4) [OF assms(1) this]
  from assms(2) Some send q show ?thesis
    by (cases r1)
      (auto simp: heartbeat_task_def report_def except_Exception_def is_Exception_def reported_def split: if_splits)
qed

section \<open>The indices of the percentiles\<close>

lemma bit_length_bounds: "n < 2 ^ bit_length n" "0 < n \<Longrightarrow> 2 ^ (bit_length n - 1) \<le> n"
proof (induction n rule: bit_length.induct)
  case (1 n)
  { case 1 show ?case using "1.IH" by (cases "n = 0"; subst bit_length.simps) (auto simp: less_mult_imp_div_less) }
  { case 2
    show ?case
    proof (cases "n = 1")
      case True
      then show ?thesis by (subst bit_length.simps) (simp add: bit_length.simps)
    next
      case False
      with 2 have "2 ^ (bit_length (n div 2) - 1) \<le> n div 2" using "1.IH"(2) by simp
      moreover have "0 < bit_length (n div 2)" using 2 False by (subst bit_length.simps) auto
      then have "(2::nat) ^ bit_length (n div 2) = 2 * 2 ^ (bit_length (n div 2) - 1)" by (cases "bit_length (n div 2)") auto
      ultimately show ?thesis using 2 by (subst bit_length.simps) simp
    qed }
qed

lemma round_half_even_near:
  assumes "0 < b"
  shows "2 * (b * round_half_even a b) \<le> 2 * a + b" "2 * a \<le> 2 * (b * round_half_even a b) + b"
proof -
  obtain q r where r: "a = b * q + r" "0 \<le> r" "r < b" and qr: "a div b = q" "a mod b = r"
    by (rule that [of "a div b" "a mod b"]) (use assms in simp_all)
  have "round_half_even a b = q \<and> 2 * r \<le> b \<or> round_half_even a b = q + 1 \<and> b \<le> 2 * r"
    unfolding round_half_even_def Let_def qr by auto
  with r show "2 * (b * round_half_even a b) \<le> 2 * a + b" "2 * a \<le> 2 * (b * round_half_even a b) + b"
    by (auto simp: distrib_left)
qed

lemma round_half_even_unique:
  assumes "0 < b" "2 * (b * q - a) < b" "a \<le> b * q"
  shows "round_half_even a b = q"
proof -
  let ?r = "round_half_even a b"
  have "b * (q - ?r) < b" "- b < b * (q - ?r)"
    using round_half_even_near [OF assms(1), of a] assms by (auto simp: algebra_simps)
  then have "q - ?r < 1" "- 1 < q - ?r"
    using mult_less_cancel_left_pos [OF assms(1), of "q - ?r" 1] mult_less_cancel_left_pos [OF assms(1), of "- 1" "q - ?r"]
    by simp_all
  then show ?thesis by simp
qed

text \<open>
  A mantissa that is a little less than \<open>c\<close> hundredths: the rounding of the product brings a whole number of
  hundredths back.
\<close>

lemma scaled_exact:
  assumes "100 * m + e = c * 2 ^ 53" "2 * e < c" "c < 100" "n < 2 ^ 40"
  shows "scaled n m = n * c div 100"
proof (cases "n = 0")
  case True
  then show ?thesis by (simp add: scaled_def to_double_def round_half_even_def bit_length.simps)
next
  case False
  define P E N C where "P = int (n * m)" and "E = int (n * e)" and "N = int n" and "C = int (n * c)"
  define s where "s = bit_length (n * m) - 53"
  define b :: int where "b = 2 ^ s"
  define R where "R = b * round_half_even P b"
  have N: "1 \<le> N" "N < 2 ^ 40" using False assms(4) by (simp_all add: N_def)
  have P: "100 * P + E = C * 2 ^ 53"
  proof -
    have "n * (100 * m + e) = n * (c * 2 ^ 53)" using assms(1) by simp
    then have "100 * (n * m) + n * e = n * c * 2 ^ 53" by (simp add: algebra_simps)
    then show ?thesis unfolding P_def E_def C_def by (metis of_nat_add of_nat_mult of_nat_numeral of_nat_power)
  qed
  have E: "0 \<le> E" "2 * E + N \<le> C" "C \<le> 99 * N"
  proof -
    have "n * (2 * e + 1) \<le> n * c" "n * c \<le> n * 99" using assms(2,3) by (simp_all del: mult_Suc_right)
    then have "2 * (n * e) + n \<le> n * c" "n * c \<le> 99 * n" by (simp_all only: algebra_simps mult_1_right)
    then show "2 * E + N \<le> C" "C \<le> 99 * N" unfolding E_def N_def C_def by linarith+
  qed (simp add: E_def)
  have b: "0 < b" "P < b * 2 ^ 53" "b \<le> 2 * N"
  proof -
    show "0 < b" by (simp add: b_def)
    have "int (n * m) < 2 ^ bit_length (n * m)" using bit_length_bounds(1) by (metis of_nat_less_iff of_nat_numeral of_nat_power)
    moreover have "(2::int) ^ bit_length (n * m) \<le> 2 ^ (s + 53)" by (rule power_increasing) (simp_all add: s_def)
    ultimately show "P < b * 2 ^ 53" unfolding P_def b_def by (simp add: power_add)
    show "b \<le> 2 * N"
    proof (cases "s = 0")
      case True
      then show ?thesis using N by (simp add: b_def)
    next
      case False
      then have "bit_length (n * m) - 1 = s + 52" by (simp add: s_def)
      moreover have "s = 0" if "n * m = 0" unfolding s_def that by (simp add: bit_length.simps)
      with False have "0 < n * m" by (cases "n * m = 0") blast+
      ultimately have "2 ^ (s + 52) \<le> n * m" using bit_length_bounds(2) [of "n * m"] by simp
      then have "b * 2 ^ 52 \<le> P" unfolding b_def P_def by (metis of_nat_le_iff of_nat_numeral of_nat_power power_add)
      with P E N show ?thesis by simp
    qed
  qed
  have near: "2 * R \<le> 2 * P + b" "2 * P \<le> 2 * R + b" unfolding R_def by (rule round_half_even_near [OF b(1)])+
  define k f where "k = C div 100" and "f = C mod 100"
  have C: "C = 100 * k + f" "0 \<le> f" "f \<le> 99" unfolding k_def f_def by simp_all
  have upper: "R < (k + 1) * 2 ^ 53" using near(1) P b(3) C E(1) N by simp
  moreover have lower: "k * 2 ^ 53 \<le> R"
  proof (cases "f = 0")
    case False
    then show ?thesis using near(2) P b(3) C E N by simp
  next
    case True
    have "s \<le> 53"
    proof (rule ccontr)
      assume "\<not> s \<le> 53"
      then have "(2::int) ^ 54 \<le> b" unfolding b_def by (intro power_increasing) simp_all
      with b(3) N show False by simp
    qed
    then have K: "b * (k * 2 ^ (53 - s)) = k * 2 ^ 53" unfolding b_def by (simp flip: power_add)
    have "2 * (k * 2 ^ 53 - P) < b" using P C(1) True E N b(2) by simp
    then have "round_half_even P b = k * 2 ^ (53 - s)"
      using P C(1) True E by (intro round_half_even_unique [OF b(1)]) (simp_all add: K)
    then have "R = k * 2 ^ 53" unfolding R_def by (simp only: K)
    then show ?thesis by simp
  qed
  ultimately have "R div 2 ^ 53 = k" by (intro int_div_pos_eq [of _ _ _ "R - k * 2 ^ 53"]) (simp_all add: algebra_simps)
  moreover have "int (scaled n m) = R div 2 ^ 53"
  proof -
    have "0 \<le> k" unfolding k_def C_def by (rule pos_imp_zdiv_nonneg_iff [THEN iffD2]) simp_all
    with lower have "0 \<le> R" by simp
    then have "0 \<le> round_half_even P b" using b(1) by (simp add: R_def zero_le_mult_iff)
    then have "int (to_double (n * m)) = R"
      by (simp add: to_double_def R_def P_def b_def s_def Let_def)
    then show ?thesis by (simp add: scaled_def zdiv_int)
  qed
  moreover have "k = int (n * c div 100)" by (simp add: k_def C_def zdiv_int)
  ultimately show ?thesis by simp
qed

lemma percentile_indices:
  assumes "n < 2 ^ 40"
  shows "p95_index n = n * 95 div 100" "p99_index n = n * 99 div 100"
  unfolding p95_index_def p99_index_def
  by (rule scaled_exact [where e = 40]; use assms in simp) (rule scaled_exact [where e = 8]; use assms in simp)

section \<open>Order statistics\<close>

lemma ranks:
  fixes xs :: "int list"
  assumes "sorted xs" "i < length xs"
  shows "Suc i \<le> length (filter (\<lambda>l. l \<le> xs ! i) xs)" "length xs - i \<le> length (filter (\<lambda>l. xs ! i \<le> l) xs)"
proof -
  have "filter (\<lambda>l. l \<le> xs ! i) (take (Suc i) xs) = take (Suc i) xs"
    using assms by (auto simp: in_set_conv_nth sorted_iff_nth_mono intro!: filter_True)
  moreover have "length (filter P (take (Suc i) xs)) \<le> length (filter P xs)" for P
    by (metis append_take_drop_id filter_append le_add1 length_append)
  ultimately show "Suc i \<le> length (filter (\<lambda>l. l \<le> xs ! i) xs)" using assms(2)
    by (metis Suc_leI length_take min.absorb2)
  have "filter (\<lambda>l. xs ! i \<le> l) (drop i xs) = drop i xs"
    using assms by (auto simp: in_set_conv_nth sorted_iff_nth_mono intro!: filter_True)
  moreover have "length (filter P (drop i xs)) \<le> length (filter P xs)" for P
    by (metis append_take_drop_id filter_append le_add2 length_append)
  ultimately show "length xs - i \<le> length (filter (\<lambda>l. xs ! i \<le> l) xs)" by (metis length_drop)
qed

lemma filter_mono_length:
  "(\<And>x. x \<in> set xs \<Longrightarrow> P x \<Longrightarrow> Q x) \<Longrightarrow> length (filter P xs) \<le> length (filter Q xs)"
  by (induction xs) auto

text \<open>A median has half of the samples on either side.\<close>

lemma run_median:
  assumes "sorted xs" "xs \<noteq> []"
  obtains a b where "run (median xs) w = (Inr (a, b), w)" "0 < b"
    "length xs \<le> 2 * length (filter (\<lambda>l. l * b \<le> a * 1000) xs)"
    "length xs \<le> 2 * length (filter (\<lambda>l. a * 1000 \<le> l * b) xs)"
proof (cases "odd (length xs)")
  case True
  let ?i = "length xs div 2"
  have i: "?i < length xs" using assms(2) by simp
  note ranks [OF assms(1) i]
  then have "length xs \<le> 2 * length (filter (\<lambda>l. l \<le> xs ! ?i) xs)" "length xs \<le> 2 * length (filter (\<lambda>l. xs ! ?i \<le> l) xs)"
    by linarith+
  with True assms(2) show ?thesis
    by (intro that [of "xs ! ?i" 1000]) (simp_all add: median_def Let_def)
next
  case False
  let ?i = "length xs div 2 - 1" and ?j = "length xs div 2"
  have ij: "?i < length xs" "?j < length xs" "Suc ?i = ?j" "length xs = 2 * ?j" proof -
    from False obtain h where "length xs = 2 * h" by (auto elim: evenE)
    moreover from this assms(2) have "0 < h" by (cases h) auto
    ultimately show "?i < length xs" "?j < length xs" "Suc ?i = ?j" "length xs = 2 * ?j" by simp_all
  qed
  then have le: "xs ! ?i \<le> xs ! ?j" using assms(1) by (simp add: sorted_iff_nth_mono)
  have "?j \<le> length (filter (\<lambda>l. l \<le> xs ! ?i) xs)" "?j \<le> length (filter (\<lambda>l. xs ! ?j \<le> l) xs)"
    using ranks(1) [OF assms(1) ij(1)] ranks(2) [OF assms(1) ij(2)] ij(3,4) by linarith+
  moreover have "length (filter (\<lambda>l. l \<le> xs ! ?i) xs) \<le> length (filter (\<lambda>l. l * 2000 \<le> (xs ! ?i + xs ! ?j) * 1000) xs)"
    "length (filter (\<lambda>l. xs ! ?j \<le> l) xs) \<le> length (filter (\<lambda>l. (xs ! ?i + xs ! ?j) * 1000 \<le> l * 2000) xs)"
    using le by (auto intro!: filter_mono_length)
  ultimately have "length xs \<le> 2 * length (filter (\<lambda>l. l * 2000 \<le> (xs ! ?i + xs ! ?j) * 1000) xs)"
    "length xs \<le> 2 * length (filter (\<lambda>l. (xs ! ?i + xs ! ?j) * 1000 \<le> l * 2000) xs)"
    using ij(4) by linarith+
  moreover have "run (median xs) w = (Inr (xs ! ?i + xs ! ?j, 2000), w)"
    using assms(2) False by (simp add: median_def Let_def)
  ultimately show ?thesis by (intro that [of "xs ! ?i + xs ! ?j" 2000]) simp_all
qed

lemma percentile_rank:
  fixes xs :: "int list"
  assumes "sorted xs" "c < 100" "xs \<noteq> []"
  shows "length xs * c div 100 < length xs"
    "c * length xs < 100 * length (filter (\<lambda>l. l \<le> xs ! (length xs * c div 100)) xs)"
proof -
  let ?n = "length xs"
  let ?i = "?n * c div 100"
  have "?n * c < ?n * 100" using assms(2,3) by simp
  then show i: "?i < ?n" by (intro less_mult_imp_div_less)
  have "m < 100 * Suc (m div 100)" for m :: nat by presburger
  then have "?n * c < 100 * Suc ?i" .
  also have "\<dots> \<le> 100 * length (filter (\<lambda>l. l \<le> xs ! ?i) xs)" using ranks(1) [OF assms(1) i] by simp
  finally show "c * ?n < 100 * length (filter (\<lambda>l. l \<le> xs ! ?i) xs)" by (simp add: mult.commute)
qed

section \<open>A ticket that is used at once\<close>

context redis_service
begin

lemma redeem_at_once:
  assumes "redis_up R w" "0 < ttl" "run (issue_ticket R ttl u) w = (Inr t, w1)" "w_redis w' = w_redis w1"
  shows "fst (run (redeem_ticket R t) w') = Inr (Some u)"
  using assms by (auto simp: run_issue_ticket run_redeem_ticket up_simps redis_docs)

end

section \<open>Properties\<close>

text \<open>
  C34. The summary of the benchmark: of any samples at all it prints their number and
  the three percentiles and ends well, whatever the rounding of \<open>len * 0.95\<close> and \<open>len * 0.99\<close> in doubles; what it
  prints as P50 has half of the samples on either side, and as P95 and P99 samples that more than
  95 and 99 of a hundred do not exceed. Of no samples it prints the number, and fails.
\<close>

theorem summary_of_samples:
  assumes "length latencies < 2 ^ 40"
  defines "count_if \<equiv> \<lambda>P. length (filter P latencies)"
  shows "if latencies = [] then run (print_summary latencies) w =
        (Inl StatisticsError, w\<lparr>w_printed := w_printed w @ [''Samples: 0'']\<rparr>)
    else \<exists>a b p95 p99. run (print_summary latencies) w = (Inr (), w\<lparr>w_printed := w_printed w @
          [''Samples: '' @ show_nat (length latencies), ''P50: '' @ fixed2 a b @ '' ms'',
           ''P95: '' @ fixed2 p95 1000 @ '' ms'', ''P99: '' @ fixed2 p99 1000 @ '' ms'']\<rparr>) \<and>
        0 < b \<and> length latencies \<le> 2 * count_if (\<lambda>l. l * b \<le> a * 1000) \<and>
        length latencies \<le> 2 * count_if (\<lambda>l. a * 1000 \<le> l * b) \<and>
        p95 \<in> set latencies \<and> 95 * length latencies < 100 * count_if (\<lambda>l. l \<le> p95) \<and>
        p99 \<in> set latencies \<and> 99 * length latencies < 100 * count_if (\<lambda>l. l \<le> p99)"
proof (cases "latencies = []")
  case True
  then show ?thesis by (simp add: print_summary_def print_line_def median_def Let_def show_nat.simps [of 0] digit_char_def)
next
  case False
  let ?xs = "sort latencies"
  have xs: "sorted ?xs" "?xs \<noteq> []" "length ?xs < 2 ^ 40"
    using assms(1) False by (simp_all flip: length_greater_0_conv)
  have count: "length (filter P ?xs) = count_if P" for P by (simp add: count_if_def filter_sort)
  let ?w = "w\<lparr>w_printed := w_printed w @ [''Samples: '' @ show_nat (length latencies)]\<rparr>"
  obtain a b where ab: "run (median ?xs) ?w = (Inr (a, b), ?w)" "0 < b"
    "length ?xs \<le> 2 * length (filter (\<lambda>l. l * b \<le> a * 1000) ?xs)"
    "length ?xs \<le> 2 * length (filter (\<lambda>l. a * 1000 \<le> l * b) ?xs)"
    by (rule run_median [OF xs(1,2)])
  note p95 = percentile_rank [OF xs(1) _ xs(2), of 95] and p99 = percentile_rank [OF xs(1) _ xs(2), of 99]
  have "run (print_summary latencies) w = (Inr (), w\<lparr>w_printed := w_printed w @
          [''Samples: '' @ show_nat (length latencies), ''P50: '' @ fixed2 a b @ '' ms'',
           ''P95: '' @ fixed2 (?xs ! (length ?xs * 95 div 100)) 1000 @ '' ms'',
           ''P99: '' @ fixed2 (?xs ! (length ?xs * 99 div 100)) 1000 @ '' ms'']\<rparr>)"
    using ab(1) p95(1) p99(1) percentile_indices [OF xs(3)]
    by (simp add: print_summary_def print_line_def py_item_def Let_def)
  moreover have "?xs ! i \<in> set latencies" if "i < length ?xs" for i using nth_mem [OF that] by simp
  ultimately show ?thesis
    using False ab(2-4) p95 p99 unfolding count
    unfolding if_not_P [OF False]
    by (intro exI [of _ a] exI [of _ b] exI [of _ "?xs ! (length ?xs * 95 div 100)"]
        exI [of _ "?xs ! (length ?xs * 99 div 100)"]) simp_all
qed

theorem summary_of_samples_witness:
  "\<exists>p50 p99. run (print_summary [3000, 1000, 2000]) start_world = (Inr (), start_world\<lparr>w_printed :=
     [''Samples: '' @ show_nat 3, ''P50: '' @ p50 @ '' ms'', ''P95: '' @ fixed2 3000 1000 @ '' ms'',
      ''P99: '' @ p99 @ '' ms'']\<rparr>)"
proof -
  let ?ls = "[3000, 1000, 2000] :: int list"
  obtain a b p95 p99 where run: "run (print_summary ?ls) start_world = (Inr (), start_world\<lparr>w_printed :=
     [''Samples: '' @ show_nat 3, ''P50: '' @ fixed2 a b @ '' ms'', ''P95: '' @ fixed2 p95 1000 @ '' ms'',
      ''P99: '' @ fixed2 p99 1000 @ '' ms'']\<rparr>)"
    and p95: "p95 \<in> set ?ls" "95 * length ?ls < 100 * length (filter (\<lambda>l. l \<le> p95) ?ls)"
  proof -
    have "length ?ls < 2 ^ 40" "?ls \<noteq> []" by simp_all
    note summary = summary_of_samples [OF this(1), of start_world, unfolded if_not_P [OF this(2)]]
    then obtain a b p95 p99 where "run (print_summary ?ls) start_world = (Inr (), start_world\<lparr>w_printed := w_printed start_world @
       [''Samples: '' @ show_nat (length ?ls), ''P50: '' @ fixed2 a b @ '' ms'', ''P95: '' @ fixed2 p95 1000 @ '' ms'',
        ''P99: '' @ fixed2 p99 1000 @ '' ms'']\<rparr>)"
      "p95 \<in> set ?ls" "95 * length ?ls < 100 * length (filter (\<lambda>l. l \<le> p95) ?ls)" by blast
    moreover have "w_printed start_world = []" "length ?ls = 3" by simp_all
    ultimately show ?thesis by (intro that [of a b p95 p99]) (simp_all only: append_Nil)
  qed
  from p95 have "p95 = 3000" by (auto split: if_splits)
  with run show ?thesis by blast
qed

text \<open>
  C33. The load tests sign their own tokens, with the secret the settings have by default: a
  deployment that keeps the default gives them a ticket, for the user they name, that the gateway
  redeems; one with another secret or algorithm answers 401 and Redis does not change.
\<close>

theorem load_test_tickets:
  assumes "deployment R D H F V N J late cfg client headers" "redis_up R w"
    and "\<forall>key algorithms. J (fake_bearer_token encode (uuid_str u)) key algorithms =
      (if key = ''change-me-in-production'' \<and> ''HS256'' \<in> set algorithms then Some (JObj [(''sub'', JStr (uuid_str u))]) else None)"
  shows "if jwt_secret_key cfg = ''change-me-in-production'' \<and> jwt_algorithm cfg = ''HS256''
    then \<exists>t w'. run (get_ticket N encode host (uuid_str u)) w = (Inr (JStr t), w') \<and>
      fst (run (redeem_ticket R t) w') = Inr (Some (uuid_str u))
    else \<exists>w'. run (get_ticket N encode host (uuid_str u)) w = (Inl (HTTPStatusError 401), w') \<and> w_redis w' = w_redis w"
proof -
  let ?token = "fake_bearer_token encode (uuid_str u)"
  let ?app = "answered (create_app H F R D V J late cfg client headers (IssueTicket ?token))"
  let ?v = "w\<lparr>w_draws := Suc (w_draws w)\<rparr>"
  let ?ttl = "ws_ticket_ttl_seconds cfg"
  have redis: "redis_service R" using assms(1) by (simp add: deployment_def stores_def)
  have ttl: "0 < ?ttl" using deployment.settings_ok [OF assms(1)] by (simp add: valid_settings_def)
  note post = deployment.post_ticket [OF assms(1), of host ?token, simplified]
  note subject = assms(3) [rule_format] and decode = run_decode_user_id [of J cfg ?token ?v]
  show ?thesis
  proof (cases "jwt_secret_key cfg = ''change-me-in-production'' \<and> jwt_algorithm cfg = ''HS256''")
    case True
    have up: "redis_up R ?v" using assms(2) by simp
    obtain t w1 where issue: "run (issue_ticket R ?ttl (uuid_str u)) ?v = (Inr t, w1)"
      using redis_service.run_issue_ticket [OF redis up ttl] by blast
    let ?a = "\<lparr>wtr_ticket = t, wtr_expires_in = ?ttl\<rparr>"
    have "run (endpoint F R D V J late cfg client (IssueTicket ?token)) ?v = (Inr (web_json F (dump_WSTicketResponse ?a)), w1)"
      using True decode issue
      by (auto simp: endpoint_def issue_ws_ticket_def accepted_subject_def subject uuid_str_nonempty)
    from deployment.run_answered [OF assms(1) this] obtain w' where
      app: "run ?app w = (Inr (200, web_json F (dump_WSTicketResponse ?a)), w')" and w': "logged (instance_id cfg) w1 w'" by auto
    have "web_service F" using assms(1) by (simp add: deployment_def http_side_def)
    then have "loads (web_json F (dump_WSTicketResponse ?a)) = Some (dump_WSTicketResponse ?a)"
      by (rule web_service.json_law) (simp add: dump_WSTicketResponse_def)
    with app post have "run (get_ticket N encode host (uuid_str u)) w = (Inr (JStr t), w')"
      by (simp add: get_ticket_def raise_for_status_def json_loads_def py_index_def dump_WSTicketResponse_def)
    moreover have "fst (run (redeem_ticket R t) w') = Inr (Some (uuid_str u))"
      by (rule redis_service.redeem_at_once [OF redis up ttl issue logged_simps(1) [OF w']])
    ultimately show ?thesis using True by auto
  next
    case False
    then have "J ?token (jwt_secret_key cfg) [jwt_algorithm cfg] = None" unfolding subject by auto
    then have "accepted_subject J cfg ?token = None" by (simp add: accepted_subject_def)
    with decode obtain detail where
      "run (endpoint F R D V J late cfg client (IssueTicket ?token)) ?v = (Inl (HTTPException 401 detail), ?v)"
      by (auto simp: endpoint_def issue_ws_ticket_def)
    from deployment.run_answered [OF assms(1) this] obtain w' where
      app: "run ?app w = (Inr (401, web_error F 401 detail), w')" and w': "logged (instance_id cfg) ?v w'" by auto
    with post have "run (get_ticket N encode host (uuid_str u)) w = (Inl (HTTPStatusError 401), w')"
      by (simp add: get_ticket_def raise_for_status_def)
    with False logged_simps(1) [OF w'] show ?thesis by auto
  qed
qed

text \<open>A signature scheme that reads back what it signed, under the same key.\<close>

definition sample_encode :: jwt_encoder where
  "sample_encode claims key algorithm = dumps (JList [claims, JStr key, JStr algorithm])"

definition sample_decode :: jwt where
  "sample_decode token key algorithms =
     (case loads token of
        Some (JList [claims, JStr k, JStr a]) \<Rightarrow> if k = key \<and> a \<in> set algorithms then Some claims else None
      | _ \<Rightarrow> None)"

lemma sample_decode_encode:
  "wf_json claims \<Longrightarrow> sample_decode (sample_encode claims key algorithm) key' algorithms =
     (if key = key' \<and> algorithm \<in> set algorithms then Some claims else None)"
  using loads_dumps [of "JList [claims, JStr key, JStr algorithm]"]
  by (simp add: sample_decode_def sample_encode_def del: dumps.simps)

theorem load_test_tickets_witness:
  "(\<exists>t w'. run (get_ticket (local_network sample_decode default_settings) sample_encode ''http://localhost:8000'' (uuid_str 7))
       start_world = (Inr (JStr t), w') \<and> fst (run (redeem_ticket mem_redis t) w') = Inr (Some (uuid_str 7))) \<and>
   (\<exists>w'. run (get_ticket (local_network sample_decode (default_settings\<lparr>jwt_secret_key := ''s3cret''\<rparr>)) sample_encode
       ''http://localhost:8000'' (uuid_str 7)) start_world = (Inl (HTTPStatusError 401), w'))"
proof -
  have signed: "\<forall>key algorithms. sample_decode (fake_bearer_token sample_encode (uuid_str 7)) key algorithms =
      (if key = ''change-me-in-production'' \<and> ''HS256'' \<in> set algorithms then Some (JObj [(''sub'', JStr (uuid_str 7))]) else None)"
    by (auto simp: fake_bearer_token_def sample_decode_encode)
  have settings: "valid_settings default_settings" "valid_settings (default_settings\<lparr>jwt_secret_key := ''s3cret''\<rparr>)"
    by (simp_all add: valid_settings_def default_settings_def)
  have up: "redis_up mem_redis start_world" by simp
  have keys: "jwt_secret_key default_settings = ''change-me-in-production'' \<and> jwt_algorithm default_settings = ''HS256''"
    "\<not> (jwt_secret_key (default_settings\<lparr>jwt_secret_key := ''s3cret''\<rparr>) = ''change-me-in-production'' \<and>
        jwt_algorithm (default_settings\<lparr>jwt_secret_key := ''s3cret''\<rparr>) = ''HS256'')"
    by (simp_all add: default_settings_def)
  note tickets = load_test_tickets [OF local_deployment [where J = sample_decode] up signed, where host = "''http://localhost:8000''"]
  from tickets [OF settings(1), unfolded if_P [OF keys(1)]] tickets [OF settings(2), unfolded if_not_P [OF keys(2)]]
  show ?thesis by blast
qed

text \<open>
  A simulated user never fails: whatever the network does, connecting ends with the same user and
  exactly one event for Locust, which reports success only if the user has a connection, and otherwise
  the exception; a heartbeat of a connected user ends well with exactly one event, and one of a user without
  a connection does nothing. Only a cancellation gets through, and then nothing is reported.
\<close>

theorem simulated_user_reports:
  assumes "silent N"
  shows "(case run (connect_user N encode host user) w of
      (Inl e, w') \<Rightarrow> e = CancelledError \<and> w_events w' = w_events w
    | (Inr user', w') \<Rightarrow> wu_user_id user' = wu_user_id user \<and>
        (\<exists>e. reported ''connect'' w w' e \<and> (e = None \<longrightarrow> wu_connection user' \<noteq> None) \<and> e \<noteq> Some CancelledError)) \<and>
    (case run (heartbeat_task N user) w of
      (Inl e, w') \<Rightarrow> e = CancelledError \<and> w_events w' = w_events w
    | (Inr _, w') \<Rightarrow> if wu_connection user = None then w' = w
        else \<exists>e. reported ''heartbeat'' w w' e \<and> e \<noteq> Some CancelledError)"
proof -
  obtain r1 w1 r2 w2 where runs: "run (connect_user N encode host user) w = (r1, w1)"
    "run (heartbeat_task N user) w = (r2, w2)" by fastforce
  from run_connect_user [OF assms runs(1)] run_heartbeat_task [OF assms runs(2)] show ?thesis
    unfolding runs by (auto simp: is_Exception_def)
qed

text \<open>A gateway that gives a ticket and a backlog, and then is gone.\<close>

definition dying_network :: "(rstate, dbstate, wstate \<times> nat list) network" where
  "dying_network =
     \<lparr>net_post = (\<lambda>_ _ _ _. Return (200, dumps (JObj [(''ticket'', JStr ''t0'')]))), net_connect = (\<lambda>_. Return 5),
      net_recv = (\<lambda>_. Return (dumps (JList []))), net_send = (\<lambda>_ _. Raise TransportError), net_close = (\<lambda>_. Return ())\<rparr>"

theorem simulated_user_reports_witness:
  "\<exists>user' w' w''. run (connect_user dying_network sample_encode ''ws://localhost:8000'' \<lparr>wu_user_id = ''7'', wu_connection = None\<rparr>)
       start_world = (Inr user', w') \<and> wu_connection user' = Some 5 \<and>
     run (heartbeat_task dying_network user') w' = (Inr (), w'') \<and> (\<exists>e. reported ''heartbeat'' w' w'' e)"
proof -
  let ?user = "\<lparr>wu_user_id = ''7'', wu_connection = None\<rparr>"
  have "silent dying_network" by (auto simp: silent_def dying_network_def intro!: obeys_rules)
  note reports = simulated_user_reports [OF this]
  have "loads (dumps (JObj [(''ticket'', JStr ''t0'')])) = Some (JObj [(''ticket'', JStr ''t0'')])" by (rule loads_dumps) simp
  then obtain w' where w': "run (connect_user dying_network sample_encode ''ws://localhost:8000'' ?user) start_world =
      (Inr (?user\<lparr>wu_connection := Some 5\<rparr>), w')"
    by (simp add: connect_user_def get_ticket_def dying_network_def raise_for_status_def json_loads_def py_index_def Let_def
        del: dumps.simps)
  obtain r w'' where run: "run (heartbeat_task dying_network (?user\<lparr>wu_connection := Some 5\<rparr>)) w' = (r, w'')" by fastforce
  note beat = conjunct2 [OF reports [where user = "?user\<lparr>wu_connection := Some 5\<rparr>" and w = w'], unfolded run]
  have "r = Inr () \<and> (\<exists>e. reported ''heartbeat'' w' w'' e) \<or> r = Inl CancelledError"
    by (cases r) (use beat in auto)
  moreover from run have "r \<noteq> Inl CancelledError" by (auto simp: heartbeat_task_def dying_network_def report_def except_Exception_def)
  ultimately show ?thesis using w' run by (intro exI [of _ "?user\<lparr>wu_connection := Some 5\<rparr>"] exI [of _ w'] exI [of _ w'']) simp
qed

end
