(* ===== verification/Migrations.thy ===== *)
theory Migrations
  imports Schemas
begin

text \<open>
  \<open>alembic/versions/\<close>, \<open>alembic/env.py\<close> as it runs against a database, and the declarations of \<open>app/db/models.py\<close>: what the
  migrations do to the database's catalog, and that it is what the models declare.
\<close>

section \<open>Tables, indexes and statements\<close>

datatype sql_type = BigInteger | Integer | Uuid | Varchar nat | Jsonb | Timestamptz | Boolean

datatype server_default = Now | SqlFalse

record column =
  c_name :: string
  c_type :: sql_type
  c_nullable :: bool
  c_primary_key :: bool
  c_server_default :: "server_default option"

definition column :: "string \<Rightarrow> sql_type \<Rightarrow> column" where
  "column name type =
     \<lparr>c_name = name, c_type = type, c_nullable = False, c_primary_key = False, c_server_default = None\<rparr>"

text \<open>A table: its columns and its unique constraints, by name and columns.\<close>

record table =
  t_columns :: "column list"
  t_uniques :: "(string \<times> string list) list"

record index =
  i_name :: string
  i_table :: string
  i_columns :: "string list"
  i_where :: "string option"

datatype ddl =
    CreateTable string table
  | CreateIndex index
  | DropIndex string string
  | DropTable string

text \<open>
  The catalog of PostgreSQL: tables, indexes and the indexes behind named constraints share one
  name space. Names the server makes up itself (of primary keys and sequences) never clash.
\<close>

datatype relation = Table table | Index index | Constraint string "string list"

type_synonym catalog = "string \<Rightarrow> relation option"

definition column_names :: "table \<Rightarrow> string list" where
  "column_names t = map c_name (t_columns t)"

fun belongs_to :: "string \<Rightarrow> relation option \<Rightarrow> bool" where
  "belongs_to tbl (Some (Index ix)) \<longleftrightarrow> i_table ix = tbl"
| "belongs_to tbl (Some (Constraint owner cs)) \<longleftrightarrow> owner = tbl"
| "belongs_to tbl _ \<longleftrightarrow> False"

fun doc_ddl :: "ddl \<Rightarrow> catalog \<Rightarrow> catalog option" where
  "doc_ddl (CreateTable n t) s =
     (if list_all (\<lambda>k. s k = None) (n # map fst (t_uniques t)) \<and> distinct (n # map fst (t_uniques t))
      then Some (foldl (\<lambda>s (k, cs). s(k \<mapsto> Constraint n cs)) (s(n \<mapsto> Table t)) (t_uniques t))
      else None)"
| "doc_ddl (CreateIndex ix) s =
     (case s (i_table ix) of
        Some (Table t) \<Rightarrow>
          if s (i_name ix) = None \<and> list_all (\<lambda>c. c \<in> set (column_names t)) (i_columns ix)
          then Some (s(i_name ix \<mapsto> Index ix)) else None
      | _ \<Rightarrow> None)"
| "doc_ddl (DropIndex n tbl) s =
     (case s n of
        Some (Index ix) \<Rightarrow> Some (s(n := None))
      | _ \<Rightarrow> None)"
| "doc_ddl (DropTable n) s =
     (case s n of
        Some (Table t) \<Rightarrow> Some (\<lambda>k. if k = n \<or> belongs_to n (s k) then None else s k)
      | _ \<Rightarrow> None)"

text \<open>The constraints of a table, entered one after the other.\<close>

definition with_constraints :: "string \<Rightarrow> (string \<times> string list) list \<Rightarrow> catalog \<Rightarrow> catalog" where
  "with_constraints n us s = foldl (\<lambda>s (k, cs). s(k \<mapsto> Constraint n cs)) s us"

lemma with_constraints:
  "k \<notin> fst ` set us \<Longrightarrow> with_constraints n us s k = s k"
  "k \<in> fst ` set us \<Longrightarrow> \<exists>cs. with_constraints n us s k = Some (Constraint n cs)"
  unfolding with_constraints_def by (induction us rule: rev_induct) (auto split: prod.splits)

text \<open>
  Alembic and the database under it are parameters: how a statement is executed, the table in which Alembic keeps the revision
  a database is at (created when it is missing), that revision, and how it is recorded.
\<close>

record 'c alembic =
  al_exec :: "ddl \<Rightarrow> 'c \<Rightarrow> 'c option"
  al_ensure_version :: "'c \<Rightarrow> 'c option"
  al_current :: "'c \<Rightarrow> string option"
  al_stamp :: "string option \<Rightarrow> 'c \<Rightarrow> 'c option"

definition version_table :: table where
  "version_table = \<lparr>t_columns = [(column ''version_num'' (Varchar 32))\<lparr>c_primary_key := True\<rparr>],
     t_uniques = [(''alembic_version_pkc'', [''version_num''])]\<rparr>"

abbreviation versioned :: "catalog \<Rightarrow> bool" where
  "versioned s \<equiv> s ''alembic_version'' = Some (Table version_table)"

definition doc_ensure :: "catalog \<Rightarrow> catalog option" where
  "doc_ensure s = (case s ''alembic_version'' of
     Some (Table t) \<Rightarrow> Some s | _ \<Rightarrow> doc_ddl (CreateTable ''alembic_version'' version_table) s)"

fun touches :: "string \<Rightarrow> ddl \<Rightarrow> bool" where
  "touches x (CreateTable n t) \<longleftrightarrow> n = x"
| "touches x (DropTable n) \<longleftrightarrow> n = x"
| "touches x _ \<longleftrightarrow> False"

locale alembic_service =
  fixes A :: "'c alembic" and view :: "'c \<Rightarrow> catalog"
  assumes ddl_law: "map_option view (al_exec A d c) = doc_ddl d (view c)"
    and ddl_current: "\<not> touches ''alembic_version'' d \<Longrightarrow> al_exec A d c = Some c' \<Longrightarrow> al_current A c' = al_current A c"
    and ensure_law: "map_option view (al_ensure_version A c) = doc_ensure (view c)"
    and ensure_current: "al_ensure_version A c = Some c' \<Longrightarrow> al_current A c' = al_current A c"
    and stamp_law: "versioned (view c) \<Longrightarrow>
      \<exists>c'. al_stamp A v c = Some c' \<and> view c' = view c \<and> al_current A c' = v"
    and current_law: "view c ''alembic_version'' = None \<Longrightarrow> al_current A c = None"

lemma untouched:
  assumes "doc_ddl d s = Some s'" "\<not> touches x d"
  shows "s x = Some (Table t) \<longleftrightarrow> s' x = Some (Table t)"
proof (cases d)
  case (CreateTable n u)
  with assms have s': "s' = with_constraints n (t_uniques u) (s(n \<mapsto> Table u))" and "x \<noteq> n"
    and free: "x \<in> fst ` set (t_uniques u) \<Longrightarrow> s x = None"
    by (auto simp: with_constraints_def list_all_iff split: if_splits)
  with with_constraints [of x "t_uniques u" n "s(n \<mapsto> Table u)"] show ?thesis
    by (cases "x \<in> fst ` set (t_uniques u)") auto
next
  case (DropTable n)
  with assms show ?thesis by (auto split: option.splits relation.splits if_splits)
qed (use assms in \<open>auto split: option.splits relation.splits if_splits\<close>)

definition mem_alembic :: "(catalog \<times> string option) alembic" where
  "mem_alembic =
     \<lparr>al_exec = (\<lambda>d (s, v). map_option (\<lambda>s'. (s', v)) (doc_ddl d s)),
      al_ensure_version = (\<lambda>(s, v). map_option (\<lambda>s'. (s', if \<exists>t. s ''alembic_version'' = Some (Table t) then v else None)) (doc_ensure s)),
      al_current = (\<lambda>(s, v). case s ''alembic_version'' of Some (Table t) \<Rightarrow> v | _ \<Rightarrow> None),
      al_stamp = (\<lambda>v (s, _). Some (s, v))\<rparr>"

lemma mem_alembic_simps [simp]:
  "al_exec mem_alembic d c = map_option (\<lambda>s'. (s', snd c)) (doc_ddl d (fst c))"
  "al_ensure_version mem_alembic c =
     map_option (\<lambda>s'. (s', if \<exists>t. fst c ''alembic_version'' = Some (Table t) then snd c else None)) (doc_ensure (fst c))"
  "al_current mem_alembic c = (if \<exists>t. fst c ''alembic_version'' = Some (Table t) then snd c else None)"
  "al_stamp mem_alembic v c = Some (fst c, v)"
  by (simp_all add: mem_alembic_def case_prod_unfold split: option.splits relation.splits)

lemma doc_ensure_table: "s ''alembic_version'' = Some (Table t) \<Longrightarrow> doc_ensure s = Some s"
  by (simp add: doc_ensure_def)

interpretation mem_alembic: alembic_service mem_alembic fst
proof unfold_locales
  show "map_option fst (al_exec mem_alembic d c) = doc_ddl d (fst c)" for d c
    by (simp add: option.map_comp comp_def option.map_ident del: doc_ddl.simps)
  show "map_option fst (al_ensure_version mem_alembic c) = doc_ensure (fst c)" for c
    by (simp add: option.map_comp comp_def option.map_ident)
  show "al_current mem_alembic c' = al_current mem_alembic c"
    if d: "\<not> touches ''alembic_version'' d" "al_exec mem_alembic d c = Some c'" for d c c'
  proof -
    from d(2) obtain s' where s': "doc_ddl d (fst c) = Some s'" "c' = (s', snd c)" by auto
    with untouched [OF s'(1) d(1)] show ?thesis by simp
  qed
  show "al_current mem_alembic c' = al_current mem_alembic c" if "al_ensure_version mem_alembic c = Some c'" for c c'
    using that doc_ensure_table by (auto split: if_splits)
qed auto

section \<open>The code\<close>

record migration =
  revision :: string
  down_revision :: "string option"
  upgrade :: "ddl list"
  downgrade :: "ddl list"

definition create_notifications_table :: migration where
  "create_notifications_table =
     \<lparr>revision = ''0001'', down_revision = None,
      upgrade =
        [CreateTable ''notifications''
           \<lparr>t_columns =
              [(column ''id'' BigInteger)\<lparr>c_primary_key := True\<rparr>,
               column ''notification_id'' Uuid,
               column ''user_id'' Uuid,
               column ''type'' (Varchar 50),
               column ''payload'' Jsonb,
               (column ''created_at'' Timestamptz)\<lparr>c_server_default := Some Now\<rparr>,
               (column ''delivered_live'' Boolean)\<lparr>c_server_default := Some SqlFalse\<rparr>,
               (column ''read_at'' Timestamptz)\<lparr>c_nullable := True\<rparr>],
            t_uniques = [(''uq_notifications_notification_id'', [''notification_id''])]\<rparr>,
         CreateIndex \<lparr>i_name = ''idx_notifications_user_unread'', i_table = ''notifications'',
           i_columns = [''user_id'', ''created_at''], i_where = Some ''read_at IS NULL''\<rparr>],
      downgrade =
        [DropIndex ''idx_notifications_user_unread'' ''notifications'', DropTable ''notifications'']\<rparr>"

definition create_delivery_log_table :: migration where
  "create_delivery_log_table =
     \<lparr>revision = ''0002'', down_revision = Some ''0001'',
      upgrade =
        [CreateTable ''delivery_log''
           \<lparr>t_columns =
              [(column ''id'' BigInteger)\<lparr>c_primary_key := True\<rparr>,
               column ''notification_id'' Uuid,
               column ''instance_id'' (Varchar 100),
               (column ''delivered_at'' Timestamptz)\<lparr>c_server_default := Some Now\<rparr>],
            t_uniques = []\<rparr>,
         CreateIndex \<lparr>i_name = ''idx_delivery_log_notification_id'', i_table = ''delivery_log'',
           i_columns = [''notification_id''], i_where = None\<rparr>],
      downgrade =
        [DropIndex ''idx_delivery_log_notification_id'' ''delivery_log'', DropTable ''delivery_log'']\<rparr>"

definition create_read_receipts_table :: migration where
  "create_read_receipts_table =
     \<lparr>revision = ''0003'', down_revision = Some ''0002'',
      upgrade =
        [CreateTable ''read_receipts''
           \<lparr>t_columns =
              [(column ''id'' BigInteger)\<lparr>c_primary_key := True\<rparr>,
               column ''notification_id'' Uuid,
               column ''user_id'' Uuid,
               (column ''read_at'' Timestamptz)\<lparr>c_server_default := Some Now\<rparr>],
            t_uniques = []\<rparr>,
         CreateIndex \<lparr>i_name = ''idx_read_receipts_notification_id'', i_table = ''read_receipts'',
           i_columns = [''notification_id''], i_where = None\<rparr>,
         CreateIndex \<lparr>i_name = ''idx_read_receipts_user_id'', i_table = ''read_receipts'',
           i_columns = [''user_id''], i_where = None\<rparr>],
      downgrade =
        [DropIndex ''idx_read_receipts_user_id'' ''read_receipts'',
         DropIndex ''idx_read_receipts_notification_id'' ''read_receipts'', DropTable ''read_receipts'']\<rparr>"

definition versions :: "migration list" where
  "versions = [create_notifications_table, create_delivery_log_table, create_read_receipts_table]"

text \<open>The revisions above a given one, lowest first; \<open>n\<close> bounds their number.\<close>

fun revisions_above :: "nat \<Rightarrow> migration list \<Rightarrow> string option \<Rightarrow> migration list" where
  "revisions_above 0 ms current = []"
| "revisions_above (Suc n) ms current =
     (case find (\<lambda>m. down_revision m = current) ms of
        None \<Rightarrow> []
      | Some m \<Rightarrow> m # revisions_above n ms (Some (revision m)))"

fun exec_all :: "(ddl \<Rightarrow> 'c \<Rightarrow> 'c option) \<Rightarrow> ddl list \<Rightarrow> 'c \<Rightarrow> 'c option" where
  "exec_all exec [] c = Some c"
| "exec_all exec (d # ds) c = Option.bind (exec d c) (exec_all exec ds)"

text \<open>
  \<open>do_run_migrations\<close>. The Alembic command that is running (\<open>plan\<close>) says what to do at the revision the
  database is at: statements, and the revision that is then recorded, once per step; or that it does not know
  such a revision. All of it is one transaction, as \<open>begin_transaction\<close> makes it on PostgreSQL: \<open>False\<close> when anything
  fails, and then nothing is changed.
\<close>

type_synonym step = "ddl list \<times> string option"

fun run_steps :: "'c alembic \<Rightarrow> step list \<Rightarrow> 'c \<Rightarrow> 'c option" where
  "run_steps A [] c = Some c"
| "run_steps A ((ds, v) # steps) c =
     Option.bind (exec_all (al_exec A) ds c) (\<lambda>c1. Option.bind (al_stamp A v c1) (run_steps A steps))"

definition do_run_migrations :: "'c alembic \<Rightarrow> (string option \<Rightarrow> step list option) \<Rightarrow> 'c \<Rightarrow> bool \<times> 'c" where
  "do_run_migrations A plan c =
     (case Option.bind (al_ensure_version A c) (\<lambda>c1.
             Option.bind (plan (al_current A c1)) (\<lambda>steps. run_steps A steps c1)) of
        None \<Rightarrow> (False, c)
      | Some c' \<Rightarrow> (True, c'))"

text \<open>The commands \<open>alembic upgrade head\<close> and \<open>alembic downgrade target\<close>.\<close>

definition known :: "string option \<Rightarrow> bool" where
  "known r \<longleftrightarrow> r = None \<or> r \<in> set (map (Some \<circ> revision) versions)"

fun up_to :: "string option \<Rightarrow> migration list \<Rightarrow> migration list" where
  "up_to current [] = []"
| "up_to current (m # ms) = (if Some (revision m) = current then [m] else m # up_to current ms)"

definition upgrade_plan :: "string option \<Rightarrow> step list option" where
  "upgrade_plan current =
     (if known current
      then Some (map (\<lambda>m. (upgrade m, Some (revision m))) (revisions_above (length versions) versions current))
      else None)"

definition downgrade_plan :: "string option \<Rightarrow> string option \<Rightarrow> step list option" where
  "downgrade_plan target current =
     (let ms = revisions_above (length versions) versions target in
      if known target \<and> (current = target \<or> current \<in> set (map (Some \<circ> revision) ms))
      then Some (map (\<lambda>m. (downgrade m, down_revision m)) (rev (if current = target then [] else up_to current ms)))
      else None)"

definition upgrade_head :: "'c alembic \<Rightarrow> 'c \<Rightarrow> bool \<times> 'c" where
  "upgrade_head A = do_run_migrations A upgrade_plan"

definition downgrade_to :: "'c alembic \<Rightarrow> string option \<Rightarrow> 'c \<Rightarrow> bool \<times> 'c" where
  "downgrade_to A target = do_run_migrations A (downgrade_plan target)"

subsection \<open>\<open>env.py\<close>\<close>

text \<open>
  \<open>run_migrations_online\<close>; \<open>connects\<close> says that the database lets \<open>connect\<close> through. The engine is disposed after the
  block only, so not when an exception leaves it. (Offline the same command only prints a script, which is Alembic's.)
\<close>

record 'c env =
  e_catalog :: 'c
  e_connections :: nat
  e_engines :: nat

definition run_migrations_online ::
  "bool \<Rightarrow> 'c alembic \<Rightarrow> (string option \<Rightarrow> step list option) \<Rightarrow> 'c env \<Rightarrow> bool \<times> 'c env" where
  "run_migrations_online connects A plan e =
     (let e1 = e\<lparr>e_engines := Suc (e_engines e)\<rparr> in
      if \<not> connects then (False, e1)
      else
        (let e2 = e1\<lparr>e_connections := Suc (e_connections e1)\<rparr>;
             (ok, catalog) = do_run_migrations A plan (e_catalog e2);
             e3 = e2\<lparr>e_catalog := catalog, e_connections := e_connections e2 - 1\<rparr> in
         if ok then (True, e3\<lparr>e_engines := e_engines e3 - 1\<rparr>) else (False, e3)))"

lemma run_online:
  assumes "do_run_migrations A plan (e_catalog e) = (True, c')"
  shows "run_migrations_online True A plan e = (True, e\<lparr>e_catalog := c'\<rparr>)"
  using assms by (simp add: run_migrations_online_def Let_def)

subsection \<open>The models\<close>

text \<open>
  The tables SQLAlchemy declares: \<open>Mapped[int]\<close> is \<open>Integer\<close>, a \<open>Mapped\<close> type without \<open>None\<close> is not
  nullable, and \<open>default=False\<close> is a default of the client.
\<close>

definition Notification_table :: table where
  "Notification_table =
     \<lparr>t_columns =
        [(column ''id'' Integer)\<lparr>c_primary_key := True\<rparr>,
         column ''notification_id'' Uuid,
         column ''user_id'' Uuid,
         column ''type'' (Varchar 50),
         column ''payload'' Jsonb,
         (column ''created_at'' Timestamptz)\<lparr>c_server_default := Some Now\<rparr>,
         column ''delivered_live'' Boolean,
         (column ''read_at'' Timestamptz)\<lparr>c_nullable := True\<rparr>],
      t_uniques = [([], [''notification_id''])]\<rparr>"

definition DeliveryLog_table :: table where
  "DeliveryLog_table =
     \<lparr>t_columns =
        [(column ''id'' Integer)\<lparr>c_primary_key := True\<rparr>,
         column ''notification_id'' Uuid,
         column ''instance_id'' (Varchar 100),
         (column ''delivered_at'' Timestamptz)\<lparr>c_server_default := Some Now\<rparr>],
      t_uniques = []\<rparr>"

definition ReadReceipt_table :: table where
  "ReadReceipt_table =
     \<lparr>t_columns =
        [(column ''id'' Integer)\<lparr>c_primary_key := True\<rparr>,
         column ''notification_id'' Uuid,
         column ''user_id'' Uuid,
         (column ''read_at'' Timestamptz)\<lparr>c_server_default := Some Now\<rparr>],
      t_uniques = []\<rparr>"

definition metadata :: "(string \<times> table \<times> index list) list" where
  "metadata =
     [(''notifications'', Notification_table,
        [\<lparr>i_name = ''idx_notifications_user_unread'', i_table = ''notifications'',
          i_columns = [''user_id'', ''created_at''], i_where = Some ''read_at IS NULL''\<rparr>]),
      (''delivery_log'', DeliveryLog_table,
        [\<lparr>i_name = ''idx_delivery_log_notification_id'', i_table = ''delivery_log'',
          i_columns = [''notification_id''], i_where = None\<rparr>]),
      (''read_receipts'', ReadReceipt_table,
        [\<lparr>i_name = ''idx_read_receipts_notification_id'', i_table = ''read_receipts'',
          i_columns = [''notification_id''], i_where = None\<rparr>,
         \<lparr>i_name = ''idx_read_receipts_user_id'', i_table = ''read_receipts'',
          i_columns = [''user_id''], i_where = None\<rparr>])]"

section \<open>Running statements\<close>

lemma revisions:
  "revisions_above (length versions) versions None = versions"
  by (simp add: versions_def create_notifications_table_def create_delivery_log_table_def create_read_receipts_table_def)

lemma exec_all_append: "exec_all exec (ds @ es) c = Option.bind (exec_all exec ds c) (exec_all exec es)"
  by (induction ds arbitrary: c) (auto split: bind_splits)

lemma all_untouched:
  "exec_all doc_ddl ds s = Some s' \<Longrightarrow> \<not> list_ex (touches x) ds \<Longrightarrow> s x = Some (Table t) \<Longrightarrow> s' x = Some (Table t)"
proof (induction ds arbitrary: s)
  case (Cons d ds)
  then show ?case using untouched by (fastforce simp del: doc_ddl.simps simp: bind_eq_Some_conv)
qed simp

context alembic_service
begin

lemma view_exec_all: "exec_all doc_ddl ds (view c) = map_option view (exec_all (al_exec A) ds c)"
  by (induction ds arbitrary: c) (simp_all flip: ddl_law add: option.map_comp bind_map_option map_option_bind comp_def)

lemma current_exec_all:
  "exec_all (al_exec A) ds c = Some c' \<Longrightarrow> \<not> list_ex (touches ''alembic_version'') ds \<Longrightarrow> al_current A c' = al_current A c"
proof (induction ds arbitrary: c)
  case (Cons d ds)
  then show ?case using ddl_current by (fastforce simp: bind_eq_Some_conv)
qed simp

text \<open>Steps that leave Alembic's table alone, on the catalog and on the revision.\<close>

lemma view_run_steps:
  assumes "versioned (view c)" "\<not> list_ex (\<lambda>(ds, v). list_ex (touches ''alembic_version'') ds) steps"
  shows "exec_all doc_ddl (concat (map fst steps)) (view c) = map_option view (run_steps A steps c)"
    "run_steps A steps c = Some c' \<Longrightarrow>
       al_current A c' = (if steps = [] then al_current A c else snd (last steps)) \<and> versioned (view c')"
proof -
  have "exec_all doc_ddl (concat (map fst steps)) (view c) = map_option view (run_steps A steps c) \<and>
    (\<forall>c'. run_steps A steps c = Some c' \<longrightarrow>
       al_current A c' = (if steps = [] then al_current A c else snd (last steps)) \<and> versioned (view c'))"
    using assms
  proof (induction steps arbitrary: c)
    case (Cons step steps)
    obtain ds v where step: "step = (ds, v)" by fastforce
    show ?case
    proof (cases "exec_all (al_exec A) ds c")
      case None
      then show ?thesis by (simp add: step exec_all_append view_exec_all)
    next
      case (Some c1)
      then have view1: "exec_all doc_ddl ds (view c) = Some (view c1)" by (simp add: view_exec_all)
      with Cons.prems step have "versioned (view c1)" using all_untouched by fastforce
      then obtain c2 where c2: "al_stamp A v c1 = Some c2" "view c2 = view c1" "al_current A c2 = v"
        using stamp_law by blast
      with \<open>versioned (view c1)\<close> Cons.prems(2) step Cons.IH [of c2] Some view1 show ?thesis
        by (auto simp: exec_all_append)
    qed
  qed simp
  then show "exec_all doc_ddl (concat (map fst steps)) (view c) = map_option view (run_steps A steps c)"
    "run_steps A steps c = Some c' \<Longrightarrow>
       al_current A c' = (if steps = [] then al_current A c else snd (last steps)) \<and> versioned (view c')"
    by blast+
qed

lemma ensured:
  assumes "al_ensure_version A c = Some c1" "view c ''alembic_version'' = None \<or> versioned (view c)"
  shows "versioned (view c1)" "al_current A c1 = al_current A c" "versioned (view c) \<Longrightarrow> view c1 = view c"
    "k \<notin> {''alembic_version'', ''alembic_version_pkc''} \<Longrightarrow> view c1 k = view c k"
  using assms ensure_law [of c] ensure_current [OF assms(1)]
  by (auto simp: doc_ensure_def version_table_def split: if_splits)

end

section \<open>Downgrades undo upgrades\<close>

text \<open>Whatever belongs to a table, the table is there; every statement keeps that.\<close>

definition wf_catalog :: "catalog \<Rightarrow> bool" where
  "wf_catalog s \<longleftrightarrow> (\<forall>k tbl. belongs_to tbl (s k) \<longrightarrow> (\<exists>t. s tbl = Some (Table t)))"

lemma belongs_constraints:
  "belongs_to tbl (with_constraints n us s k) \<longleftrightarrow> (if k \<in> fst ` set us then tbl = n else belongs_to tbl (s k))"
  using with_constraints [of k us n s] by (cases "k \<in> fst ` set us") auto

text \<open>The catalog after a table has been created, and that dropping the table gives the old one back.\<close>

lemma create_table:
  assumes "doc_ddl (CreateTable n t) s = Some s'" "wf_catalog s"
  shows "s' n = Some (Table t)" "wf_catalog s'" "doc_ddl (DropTable n) s' = Some s"
proof -
  let ?us = "t_uniques t"
  from assms(1) have s': "s' = with_constraints n ?us (s(n \<mapsto> Table t))"
    by (simp add: with_constraints_def split: if_splits)
  from assms(1) have free: "s n = None" "n \<notin> fst ` set ?us" "k \<in> fst ` set ?us \<Longrightarrow> s k = None" for k
    by (auto simp: list_all_iff split: if_splits)
  show table: "s' n = Some (Table t)" using free(2) by (simp add: s' with_constraints)
  have old: "\<not> belongs_to n (s k)" for k using assms(2) free(1) unfolding wf_catalog_def by fastforce
  have kept: "s' tbl = Some (Table x)" if "s tbl = Some (Table x)" for tbl x
  proof -
    from that free have "tbl \<noteq> n" "tbl \<notin> fst ` set ?us" by fastforce+
    then show ?thesis using that by (simp add: s' with_constraints)
  qed
  show "wf_catalog s'"
    unfolding wf_catalog_def
  proof (intro allI impI)
    fix k tbl assume "belongs_to tbl (s' k)"
    then have "tbl = n \<or> belongs_to tbl (s k)" by (auto simp: s' belongs_constraints split: if_splits)
    then show "\<exists>x. s' tbl = Some (Table x)"
      using table kept assms(2) unfolding wf_catalog_def by blast
  qed
  have "(if k = n \<or> belongs_to n (s' k) then None else s' k) = s k" for k
    using free(1,3) old [of k] by (auto simp: s' belongs_constraints with_constraints)
  then show "doc_ddl (DropTable n) s' = Some s" using table by simp
qed

lemma create_index:
  assumes "doc_ddl (CreateIndex ix) s = Some s'" "wf_catalog s"
  shows "wf_catalog s'" "doc_ddl (DropIndex (i_name ix) tbl) s' = Some s"
proof -
  from assms(1) obtain t where t: "s (i_table ix) = Some (Table t)" "s (i_name ix) = None"
    and s': "s' = s(i_name ix \<mapsto> Index ix)"
    by (auto split: option.splits relation.splits if_splits)
  show "doc_ddl (DropIndex (i_name ix) tbl) s' = Some s" using t(2) by (auto simp: s')
  show "wf_catalog s'"
    unfolding wf_catalog_def
  proof (intro allI impI)
    fix k tbl assume "belongs_to tbl (s' k)"
    then have "tbl = i_table ix \<or> belongs_to tbl (s k)" by (auto simp: s' split: if_splits)
    then obtain x where "s tbl = Some (Table x)" using t(1) assms(2) unfolding wf_catalog_def by blast
    with t(2) show "\<exists>x. s' tbl = Some (Table x)" by (auto simp: s')
  qed
qed

text \<open>A migration that creates a table with its indexes, and drops them in the other order.\<close>

definition drops :: "index list \<Rightarrow> ddl list" where
  "drops ixs = map (\<lambda>ix. DropIndex (i_name ix) (i_table ix)) (rev ixs)"

definition reversible :: "migration \<Rightarrow> bool" where
  "reversible m \<longleftrightarrow> (\<exists>n t ixs. upgrade m = CreateTable n t # map CreateIndex ixs \<and> downgrade m = drops ixs @ [DropTable n])"

lemma create_indexes:
  assumes "exec_all doc_ddl (map CreateIndex ixs) s = Some s'" "wf_catalog s"
  shows "wf_catalog s' \<and> exec_all doc_ddl (drops ixs) s' = Some s"
  using assms
proof (induction ixs arbitrary: s)
  case (Cons ix ixs)
  from Cons.prems(1) obtain s1 where s1: "doc_ddl (CreateIndex ix) s = Some s1"
    "exec_all doc_ddl (map CreateIndex ixs) s1 = Some s'"
    by (auto simp del: doc_ddl.simps simp: bind_eq_Some_conv)
  note created = create_index [OF s1(1) Cons.prems(2)]
  with Cons.IH [OF s1(2)] show ?case
    by (simp del: doc_ddl.simps add: drops_def exec_all_append)
qed (simp add: drops_def)

lemma reversible_undo:
  assumes "reversible m" "exec_all doc_ddl (upgrade m) s = Some s'" "wf_catalog s"
  shows "wf_catalog s' \<and> exec_all doc_ddl (downgrade m) s' = Some s"
proof -
  from assms(1) obtain n t ixs where m: "upgrade m = CreateTable n t # map CreateIndex ixs"
    "downgrade m = drops ixs @ [DropTable n]"
    unfolding reversible_def by blast
  with assms(2) obtain s1 where s1: "doc_ddl (CreateTable n t) s = Some s1"
    "exec_all doc_ddl (map CreateIndex ixs) s1 = Some s'"
    by (auto simp del: doc_ddl.simps simp: bind_eq_Some_conv)
  note created = create_table [OF s1(1) assms(3)]
  with create_indexes [OF s1(2)] show ?thesis
    by (simp del: doc_ddl.simps add: m(2) exec_all_append)
qed

lemma all_undo:
  assumes "list_all reversible ms" "exec_all doc_ddl (concat (map upgrade ms)) s = Some s'" "wf_catalog s"
  shows "exec_all doc_ddl (concat (map downgrade (rev ms))) s' = Some s"
  using assms
proof (induction ms arbitrary: s)
  case (Cons m ms)
  from Cons.prems(2) obtain s1 where s1: "exec_all doc_ddl (upgrade m) s = Some s1"
    "exec_all doc_ddl (concat (map upgrade ms)) s1 = Some s'"
    by (auto simp: exec_all_append bind_eq_Some_conv)
  have "reversible m" "list_all reversible ms" using Cons.prems(1) by simp_all
  with reversible_undo [OF _ s1(1) Cons.prems(3)] Cons.IH [OF _ s1(2)] show ?case
    by (simp add: exec_all_append)
qed simp

lemmas migration_defs = create_notifications_table_def create_delivery_log_table_def create_read_receipts_table_def

lemma versions_reversible: "m \<in> set versions \<Longrightarrow> reversible m"
  unfolding versions_def reversible_def drops_def
  by (auto simp: migration_defs map_eq_Cons_conv Cons_eq_map_conv)

lemma revisions_above_subset: "set (revisions_above n ms current) \<subseteq> set ms"
  by (induction n ms current rule: revisions_above.induct)
    (auto split: option.splits simp: find_Some_iff find_Some_iff2)

section \<open>The catalog the migrations make\<close>

text \<open>
  How a column of the database relates to the one declared: keys are 64 bit in the database and
  \<open>Integer\<close> in the models, and the database may have a default of its own.
\<close>

definition realises_column :: "column \<Rightarrow> column \<Rightarrow> bool" where
  "realises_column m d \<longleftrightarrow> c_name d = c_name m \<and> c_nullable d = c_nullable m \<and> c_primary_key d = c_primary_key m \<and>
     c_type d = (if c_primary_key m \<and> c_type m = Integer then BigInteger else c_type m) \<and>
     (c_server_default m \<noteq> None \<longrightarrow> c_server_default d = c_server_default m)"

definition migrated_table :: "migration \<Rightarrow> table" where
  "migrated_table m = (case upgrade m of CreateTable n t # _ \<Rightarrow> t | _ \<Rightarrow> \<lparr>t_columns = [], t_uniques = []\<rparr>)"

definition version_catalog :: catalog where
  "version_catalog = [''alembic_version'' \<mapsto> Table version_table,
     ''alembic_version_pkc'' \<mapsto> Constraint ''alembic_version'' [''version_num'']]"

definition head_relations :: "(string \<times> relation) list" where
  "head_relations =
     (''alembic_version'', Table version_table) #
     (''alembic_version_pkc'', Constraint ''alembic_version'' [''version_num'']) #
     (''uq_notifications_notification_id'', Constraint ''notifications'' [''notification_id'']) #
     concat (map (\<lambda>((n, _, ixs), m). (n, Table (migrated_table m)) # map (\<lambda>ix. (i_name ix, Index ix)) ixs)
       (zip metadata versions))"

definition head_catalog :: catalog where
  "head_catalog = map_of head_relations"

lemma upgraded:
  "doc_ensure Map.empty = Some version_catalog" "exec_all doc_ddl (concat (map upgrade versions)) version_catalog = Some head_catalog"
  by (simp_all add: version_catalog_def doc_ensure_def version_table_def versions_def head_catalog_def head_relations_def metadata_def
      migrated_table_def migration_defs column_names_def column_def fun_eq_iff)

lemma head_tables:
  "head_catalog ''notifications'' = Some (Table (migrated_table create_notifications_table))"
  "head_catalog ''delivery_log'' = Some (Table (migrated_table create_delivery_log_table))"
  "head_catalog ''read_receipts'' = Some (Table (migrated_table create_read_receipts_table))"
  by (simp_all add: head_catalog_def head_relations_def metadata_def versions_def)

lemma head_only_tables: "head_catalog k = Some (Table t) \<Longrightarrow> k \<in> insert ''alembic_version'' (fst ` set metadata)"
  by (auto simp: head_catalog_def head_relations_def metadata_def versions_def split: if_splits)

fun indexes_of :: "relation \<Rightarrow> index list" where
  "indexes_of (Index ix) = [ix]"
| "indexes_of _ = []"

lemma head_indexes:
  assumes "(n, model, ixs) \<in> set metadata"
  shows "{ix. \<exists>k. head_catalog k = Some (Index ix) \<and> i_table ix = n} = set ixs"
proof -
  have "distinct (map fst head_relations)"
    by (simp add: head_relations_def metadata_def versions_def)
  then have entry: "head_catalog k = Some r \<longleftrightarrow> (k, r) \<in> set head_relations" for k r
    unfolding head_catalog_def by (rule map_of_eq_Some_iff)
  have index: "ix \<in> set (indexes_of r) \<longleftrightarrow> r = Index ix" for r ix by (cases r) auto
  have "(\<exists>k. (k, Index ix) \<in> set rs) \<longleftrightarrow> ix \<in> set (concat (map (indexes_of \<circ> snd) rs))"
    for rs :: "(string \<times> relation) list" and ix
    by (induction rs) (auto simp: index)
  then have "{ix. \<exists>k. head_catalog k = Some (Index ix) \<and> i_table ix = n} =
      set (filter (\<lambda>ix. i_table ix = n) (concat (map (indexes_of \<circ> snd) head_relations)))"
    unfolding entry by (simp only: set_filter mem_Collect_eq ex_simps)
  also have "concat (map (indexes_of \<circ> snd) head_relations) = concat (map (\<lambda>(_, _, ixs). ixs) metadata)"
    by (simp add: head_relations_def metadata_def versions_def)
  also have "set (filter (\<lambda>ix. i_table ix = n) \<dots>) = set ixs"
    using assms unfolding metadata_def set_simps by (elim insertE emptyE) simp_all
  finally show ?thesis .
qed

lemma head_columns:
  "(n, model, ixs) \<in> set metadata \<Longrightarrow> \<exists>t. head_catalog n = Some (Table t) \<and>
     list_all2 realises_column (t_columns model) (t_columns t) \<and> map snd (t_uniques t) = map snd (t_uniques model)"
  by (auto simp: head_tables metadata_def migrated_table_def migration_defs realises_column_def column_def
      Notification_table_def DeliveryLog_table_def ReadReceipt_table_def)

section \<open>The commands\<close>

abbreviation leaves_alone :: "step list \<Rightarrow> bool" where
  "leaves_alone steps \<equiv> \<not> list_ex (\<lambda>(ds, v). list_ex (touches ''alembic_version'') ds) steps"

lemma versions_untouching:
  assumes "set ms \<subseteq> set versions"
  shows "leaves_alone (map (\<lambda>m. (upgrade m, r m)) ms)" "leaves_alone (map (\<lambda>m. (downgrade m, r m)) ms)"
proof -
  have "\<not> list_ex (touches ''alembic_version'') (upgrade m)" "\<not> list_ex (touches ''alembic_version'') (downgrade m)"
    if "m \<in> set versions" for m
    using that by (auto simp: versions_def migration_defs)
  with assms show "leaves_alone (map (\<lambda>m. (upgrade m, r m)) ms)" "leaves_alone (map (\<lambda>m. (downgrade m, r m)) ms)"
    by (auto simp: list_ex_iff)
qed

text \<open>The four revisions a database can be at, with what is above each, and the way back from head.\<close>

lemma revisions_known:
  assumes "known current"
  obtains "current = None" "revisions_above (length versions) versions current = versions"
  | "current = Some ''0001''" "revisions_above (length versions) versions current = [create_delivery_log_table, create_read_receipts_table]"
  | "current = Some ''0002''" "revisions_above (length versions) versions current = [create_read_receipts_table]"
  | "current = Some ''0003''" "revisions_above (length versions) versions current = []"
  using assms by (auto simp: known_def versions_def migration_defs)

lemma migration_ids:
  "map revision versions = [''0001'', ''0002'', ''0003'']" "revision create_read_receipts_table = ''0003''"
  "revision create_delivery_log_table = ''0002''" "revision create_notifications_table = ''0001''"
  "down_revision create_read_receipts_table = Some ''0002''" "down_revision create_delivery_log_table = Some ''0001''"
  "down_revision create_notifications_table = None"
  by (simp_all add: versions_def migration_defs)

lemma known_iff: "known r \<longleftrightarrow> r \<in> {None, Some ''0001'', Some ''0002'', Some ''0003''}"
proof -
  have "map (Some \<circ> revision) versions = map Some (map revision versions)" by simp
  then show ?thesis unfolding known_def migration_ids(1) by auto
qed

lemma plans:
  fixes current :: "string option"
  defines "ms \<equiv> revisions_above (length versions) versions current"
  assumes "known current"
  shows "upgrade_plan current = Some (map (\<lambda>m. (upgrade m, Some (revision m))) ms)"
    "downgrade_plan current (Some ''0003'') = Some (map (\<lambda>m. (downgrade m, down_revision m)) (rev ms))"
    "ms \<noteq> [] \<Longrightarrow> down_revision (hd ms) = current"
    "(if ms = [] then current else Some (revision (last ms))) = Some ''0003''"
proof -
  show "upgrade_plan current = Some (map (\<lambda>m. (upgrade m, Some (revision m))) ms)"
    using assms(2) by (simp add: upgrade_plan_def ms_def)
  show "ms \<noteq> [] \<Longrightarrow> down_revision (hd ms) = current"
    "(if ms = [] then current else Some (revision (last ms))) = Some ''0003''"
    by (cases rule: revisions_known [OF assms(2)]; simp add: ms_def versions_def migration_ids)+
  have "current = Some ''0003'' \<and> ms = [] \<or> current \<noteq> Some ''0003'' \<and> Some ''0003'' \<in> set (map (Some \<circ> revision) ms) \<and>
      up_to (Some ''0003'') ms = ms"
    by (cases rule: revisions_known [OF assms(2)]) (simp_all add: ms_def versions_def migration_ids)
  then show "downgrade_plan current (Some ''0003'') = Some (map (\<lambda>m. (downgrade m, down_revision m)) (rev ms))"
    using assms(2) by (auto simp: downgrade_plan_def Let_def ms_def)
qed

lemma last_back: "(if ms = [] then r else snd (last (map f (rev ms)))) = (if ms = [] then r else snd (f (hd ms)))"
  by (simp add: last_map last_rev)

lemma upgrade_plan_head: "upgrade_plan (Some ''0003'') = Some []"
proof -
  have known: "known (Some ''0003'')" by (simp add: known_iff)
  show ?thesis by (cases rule: revisions_known [OF known]) (simp_all add: upgrade_plan_def known)
qed

context alembic_service
begin

text \<open>One command, on a database that Alembic has not seen or has left with its table.\<close>

lemma run_plan:
  assumes "view c ''alembic_version'' = None \<or> versioned (view c)"
    and "\<And>steps. plan (al_current A c) = Some steps \<Longrightarrow> leaves_alone steps"
    and "do_run_migrations A plan c = (True, c')"
  obtains c1 steps where "al_ensure_version A c = Some c1" "plan (al_current A c) = Some steps"
    "exec_all doc_ddl (concat (map fst steps)) (view c1) = Some (view c')"
    "al_current A c' = (if steps = [] then al_current A c else snd (last steps))" "versioned (view c')"
proof -
  from assms(3) obtain c1 steps where run: "al_ensure_version A c = Some c1" "plan (al_current A c1) = Some steps"
    "run_steps A steps c1 = Some c'"
    by (auto simp: do_run_migrations_def split: option.splits bind_splits)
  note c1 = ensured [OF run(1) assms(1)]
  have "leaves_alone steps" using assms(2) run(2) c1(2) by simp
  note steps = view_run_steps [OF c1(1) this]
  show ?thesis using steps(2) [OF run(3)] steps(1) run c1(2) by (intro that [of c1 steps]) simp_all
qed

lemma do_runs:
  assumes "view c ''alembic_version'' = None \<or> versioned (view c)" "doc_ensure (view c) = Some s1" "plan (al_current A c) = Some steps"
    and "leaves_alone steps"
    and "exec_all doc_ddl (concat (map fst steps)) s1 = Some s'"
  obtains c' where "do_run_migrations A plan c = (True, c')" "view c' = s'"
    "al_current A c' = (if steps = [] then al_current A c else snd (last steps))" "versioned s'"
proof -
  from assms(2) obtain c1 where c1: "al_ensure_version A c = Some c1" "view c1 = s1" using ensure_law [of c] by auto
  note e = ensured [OF c1(1) assms(1)]
  note steps = view_run_steps [OF e(1) assms(4)]
  obtain c' where run: "run_steps A steps c1 = Some c'" "view c' = s'"
    using steps(1) assms(5) c1(2) by (cases "run_steps A steps c1") simp_all
  show ?thesis
    using steps(2) [OF run(1)] run c1(1) e(2) assms(3) by (intro that [of c']) (simp_all add: do_run_migrations_def)
qed

end

section \<open>Properties\<close>

text \<open>
  C35. The migrations make what the models declare: against an empty database \<open>env.py\<close> runs them all, keeps neither its
  connection nor its engine, and then there
  are the declared tables and no others but Alembic's own, each with its columns in order, of the declared types (the
  keys 64 bit instead of 32), nullability and server defaults, with the unique constraint the
  \<open>ON CONFLICT\<close> of the repository needs, and with exactly the declared indexes; and every type a request may
  have fits its column. The database is then at the last revision, and upgrading it again changes nothing.
\<close>

theorem migrations_match_models:
  assumes "alembic_service A view" "view (e_catalog e) = Map.empty"
  shows "\<exists>c'. run_migrations_online True A upgrade_plan e = (True, e\<lparr>e_catalog := c'\<rparr>) \<and>
    (\<forall>k t. view c' k = Some (Table t) \<longrightarrow> k \<in> insert ''alembic_version'' (fst ` set metadata)) \<and>
    (\<forall>(n, model, ixs)\<in>set metadata.
       (\<exists>t. view c' n = Some (Table t) \<and> list_all2 realises_column (t_columns model) (t_columns t) \<and>
          map snd (t_uniques t) = map snd (t_uniques model)) \<and>
       {ix. \<exists>k. view c' k = Some (Index ix) \<and> i_table ix = n} = set ixs) \<and>
    (\<exists>t len. view c' ''notifications'' = Some (Table t) \<and> column ''type'' (Varchar len) \<in> set (t_columns t) \<and>
       (\<forall>ty. valid_type ty \<longrightarrow> length ty \<le> len)) \<and>
    al_current A c' = Some ''0003'' \<and> (\<exists>c''. run_migrations_online True A upgrade_plan (e\<lparr>e_catalog := c'\<rparr>) = (True, e\<lparr>e_catalog := c''\<rparr>) \<and>
       view c'' = view c' \<and> al_current A c'' = Some ''0003'')"
proof -
  let ?c = "e_catalog e"
  note A = assms(1)
  have none: "al_current A ?c = None" using alembic_service.current_law [OF A] assms(2) by simp
  have known: "known None" by (simp add: known_def)
  note plan = plans [OF known, unfolded revisions]
  obtain c' where c': "do_run_migrations A upgrade_plan ?c = (True, c')" "view c' = head_catalog" "al_current A c' = Some ''0003''" "versioned head_catalog"
  proof (rule alembic_service.do_runs [OF A, of ?c version_catalog upgrade_plan])
    show "upgrade_plan (al_current A ?c) = Some (map (\<lambda>m. (upgrade m, Some (revision m))) versions)" using none plan(1) by simp
    show "exec_all doc_ddl (concat (map fst (map (\<lambda>m. (upgrade m, Some (revision m))) versions))) version_catalog = Some head_catalog"
      using upgraded(2) by (simp add: comp_def)
    fix c'
    assume "do_run_migrations A upgrade_plan ?c = (True, c')" "view c' = head_catalog" "versioned head_catalog"
      "al_current A c' = (if map (\<lambda>m. (upgrade m, Some (revision m))) versions = [] then al_current A ?c
         else snd (last (map (\<lambda>m. (upgrade m, Some (revision m))) versions)))"
    then show thesis using plan(4) by (intro that [of c']) (auto simp: last_map versions_def)
  qed (use assms(2) upgraded(1) versions_untouching(1) [of versions] in simp_all)
  obtain c'' where c'': "do_run_migrations A upgrade_plan c' = (True, c'')" "view c'' = head_catalog" "al_current A c'' = Some ''0003''"
    by (rule alembic_service.do_runs [OF A, of c' head_catalog upgrade_plan "[]"])
      (use c' upgrade_plan_head in \<open>simp_all add: doc_ensure_def\<close>)
  have width: "column ''type'' (Varchar 50) \<in> set (t_columns (migrated_table create_notifications_table))"
    "valid_type ty \<Longrightarrow> length ty \<le> 50" for ty
    by (simp_all add: valid_type_def migrated_table_def migration_defs)
  have again: "\<exists>t len. view c' ''notifications'' = Some (Table t) \<and> column ''type'' (Varchar len) \<in> set (t_columns t) \<and>
      (\<forall>ty. valid_type ty \<longrightarrow> length ty \<le> len)"
    "\<exists>c''. run_migrations_online True A upgrade_plan (e\<lparr>e_catalog := c'\<rparr>) = (True, e\<lparr>e_catalog := c''\<rparr>) \<and> view c'' = view c' \<and> al_current A c'' = Some ''0003''"
  proof -
    show "\<exists>t len. view c' ''notifications'' = Some (Table t) \<and> column ''type'' (Varchar len) \<in> set (t_columns t) \<and>
      (\<forall>ty. valid_type ty \<longrightarrow> length ty \<le> len)"
      using head_tables(1) c'(2) width by metis
    show "\<exists>c''. run_migrations_online True A upgrade_plan (e\<lparr>e_catalog := c'\<rparr>) = (True, e\<lparr>e_catalog := c''\<rparr>) \<and>
        view c'' = view c' \<and> al_current A c'' = Some ''0003''"
      using run_online [of A upgrade_plan "e\<lparr>e_catalog := c'\<rparr>"] c'' c'(2) by auto
  qed
  have "\<forall>(n, model, ixs)\<in>set metadata.
       (\<exists>t. view c' n = Some (Table t) \<and> list_all2 realises_column (t_columns model) (t_columns t) \<and>
          map snd (t_uniques t) = map snd (t_uniques model)) \<and>
       {ix. \<exists>k. view c' k = Some (Index ix) \<and> i_table ix = n} = set ixs"
    unfolding c'(2) using head_columns head_indexes by blast
  moreover have "\<forall>k t. view c' k = Some (Table t) \<longrightarrow> k \<in> insert ''alembic_version'' (fst ` set metadata)"
    unfolding c'(2) using head_only_tables by blast
  ultimately show ?thesis using run_online [OF c'(1)] c'(3) again by (intro exI [of _ c']) (intro conjI)
qed

theorem migrations_match_models_witness:
  "\<exists>c'. run_migrations_online True mem_alembic upgrade_plan \<lparr>e_catalog = (Map.empty, None), e_connections = 0, e_engines = 0\<rparr> =
       (True, \<lparr>e_catalog = c', e_connections = 0, e_engines = 0\<rparr>) \<and>
     (\<exists>t. fst c' ''notifications'' = Some (Table t) \<and> map snd (t_uniques t) = [[''notification_id'']])"
  using migrations_match_models [OF mem_alembic.alembic_service_axioms,
      of "\<lparr>e_catalog = (Map.empty, None), e_connections = 0, e_engines = 0\<rparr>"]
  by (fastforce simp: metadata_def Notification_table_def)

text \<open>
  C36. A downgrade undoes the upgrade: from whatever revision a database is upgraded to head, downgrading to
  that revision succeeds and gives its revision and its catalog back, but for the table in which Alembic keeps the
  revision, which stays; and an upgrade that fails half way changes nothing.
\<close>

theorem downgrade_undoes_upgrade:
  assumes "alembic_service A view" "wf_catalog (view c)" "view c ''alembic_version'' = None \<or> versioned (view c)"
    and "upgrade_head A c = (ok, c')"
  shows "if ok then \<exists>c''. downgrade_to A (al_current A c) c' = (True, c'') \<and> al_current A c'' = al_current A c \<and>
      (\<forall>k. k \<notin> {''alembic_version'', ''alembic_version_pkc''} \<longrightarrow> view c'' k = view c k)
    else c' = c"
proof (cases ok)
  case True
  note A = assms(1)
  let ?r = "al_current A c" and ?ms = "revisions_above (length versions) versions (al_current A c)"
  have sub: "set ?ms \<subseteq> set versions" by (rule revisions_above_subset)
  have run: "do_run_migrations A upgrade_plan c = (True, c')" using assms(4) True by (simp add: upgrade_head_def)
  obtain c1 steps where up: "al_ensure_version A c = Some c1" "upgrade_plan ?r = Some steps"
    "exec_all doc_ddl (concat (map fst steps)) (view c1) = Some (view c')"
    "al_current A c' = (if steps = [] then ?r else snd (last steps))" "versioned (view c')"
    by (rule alembic_service.run_plan [OF A, OF assms(3) _ run])
      (use versions_untouching(1) [OF sub] in \<open>auto simp: upgrade_plan_def split: if_splits\<close>)
  have known: "known ?r" using up(2) by (simp add: upgrade_plan_def split: if_splits)
  note plan = plans [OF known]
  have steps: "steps = map (\<lambda>m. (upgrade m, Some (revision m))) ?ms" using plan(1) up(2) by simp
  note c1 = alembic_service.ensured [OF A, OF up(1) assms(3)]
  have "wf_catalog (view c1)"
    using alembic_service.ensure_law [OF A, of c] up(1) assms(2) create_table(2)
    by (auto simp del: doc_ddl.simps simp: doc_ensure_def split: option.splits relation.splits)
  moreover have "list_all reversible ?ms" using sub versions_reversible by (fastforce simp: list_all_iff)
  moreover have "exec_all doc_ddl (concat (map upgrade ?ms)) (view c1) = Some (view c')"
    using up(3) by (simp add: steps comp_def)
  ultimately have undone: "exec_all doc_ddl (concat (map downgrade (rev ?ms))) (view c') = Some (view c1)"
    by (intro all_undo)
  have reached: "al_current A c' = Some ''0003''"
    using up(4) plan(4) by (cases "?ms = []") (simp_all add: steps last_map)
  have "downgrade_plan ?r (al_current A c') = Some (map (\<lambda>m. (downgrade m, down_revision m)) (rev ?ms))"
    unfolding reached by (rule plan(2))
  then obtain c'' where down: "downgrade_to A ?r c' = (True, c'')" "view c'' = view c1"
    "al_current A c'' = (if ?ms = [] then al_current A c' else down_revision (hd ?ms))"
    using up(5) undone versions_untouching(2) [of "rev ?ms"] sub
    by (elim alembic_service.do_runs [OF A, of c' "view c'" "downgrade_plan ?r", rotated 2])
      (simp_all add: doc_ensure_def downgrade_to_def comp_def last_back cong: if_cong)
  moreover have "al_current A c'' = ?r"
  proof (cases "?ms = []")
    case True
    with down(3) reached plan(4) show ?thesis by simp
  next
    case False
    with down(3) plan(3) show ?thesis by simp
  qed
  ultimately show ?thesis using True c1(4) by auto
next
  case False
  then show ?thesis using assms(4) by (simp add: upgrade_head_def do_run_migrations_def split: option.splits)
qed

theorem downgrade_undoes_upgrade_witness:
  "\<exists>c' c''. upgrade_head mem_alembic (Map.empty, None) = (True, c') \<and> downgrade_to mem_alembic None c' = (True, c'') \<and>
     fst c'' ''notifications'' = None \<and> al_current mem_alembic c'' = None"
proof -
  have "known None" by (simp add: known_def)
  note plan = plans(1) [OF this, unfolded revisions]
  obtain c' where up: "upgrade_head mem_alembic (Map.empty, None) = (True, c')"
  proof (rule mem_alembic.do_runs [of "(Map.empty, None)" version_catalog upgrade_plan])
    show "upgrade_plan (al_current mem_alembic (Map.empty, None)) = Some (map (\<lambda>m. (upgrade m, Some (revision m))) versions)"
      using plan by (simp add: mem_alembic_def)
  qed (use upgraded versions_untouching(1) [of versions] in \<open>simp_all add: upgrade_head_def comp_def that\<close>)
  from downgrade_undoes_upgrade [OF mem_alembic.alembic_service_axioms _ _ up] show ?thesis
    using up by (auto simp: wf_catalog_def mem_alembic_def)
qed

end
