(* ===== verification/Spec2Isabelle.thy ===== *)
theory Spec2Isabelle
  imports Guaranteed_Delivery Audit_Trail Load_Tests Migrations
begin

text \<open>
  A verification of the notification and presence platform: FastAPI gateway processes that hold
  WebSocket connections, with Redis (tickets, presence, registry, rate limits, publish/subscribe)
  and PostgreSQL (notifications, read receipts) behind them.

  \<^bold>\<open>How the program is modelled.\<close> An \<open>async def\<close> body is a coroutine (theory \<open>Prelude\<close>): it
  returns, raises, updates its process's memory without interruption, or awaits a call, where
  other tasks run and where it can be cancelled. \<open>run\<close> lets one task go to its end; \<open>Interleaving\<close> has
  pools of tasks (\<open>pool_step\<close>, \<open>reachable\<close>) and the invariants that hold whatever they do;
  \<open>Single_Task\<close> carries a run of one task over to a pool. \<open>Ownership\<close> has the rely and guarantee conditions of a
  pool whose tasks each own a part of the state (their database sessions, the ids they inserted), and the rules that carry an invariant through
  \<open>await\<close>, \<open>try\<close> and calls. Every raise, every \<open>except\<close> and every
  \<open>finally\<close> of the code is a branch of the model. \<open>World\<close> is the state: the three services, the
  memory of every process (record \<open>gateway\<close>: the dict of sockets, the engine, the metrics, the
  log), the clock, and the draws of \<open>secrets\<close> and \<open>uuid\<close>.

  \<^bold>\<open>The services\<close> are code that is not in the repository, so they are parameters: a record of
  client calls over a state nobody looks into (\<open>redis\<close>, \<open>database\<close>, \<open>websockets\<close>), of which
  a locale (\<open>redis_service\<close>, \<open>database_service\<close>, \<open>websocket_service\<close>) states the documented
  behaviour through a view: each call \<open>realises\<close> a documented function, that is, it answers and acts as
  documented while the service is up, and when it fails it has either had its effect or not. Each
  contract is met by an executable service (\<open>mem_redis\<close>, \<open>mem_database\<close>, \<open>mem_websockets\<close>),
  on which the witnesses are evaluated. What pydantic does to UUIDs and instants (\<open>pydantic\<close>), the
  verification of tokens (\<open>jwt\<close>), the headers of Starlette (\<open>headers\<close>), what FastAPI and Starlette make of the outcome of a
  route and of the whole stack (\<open>web\<close>: 200, the status of an \<open>HTTPException\<close>, 500), Alembic (\<open>alembic\<close>: the execution of DDL, its
  version table, the current revision) and what a client has of the network (\<open>network\<close>) are parameters as well.
  A socket with \<open>ws_up\<close> is one whose peer is there and stays; of any other, each call may be answered or fail.

  \<^bold>\<open>The standard library\<close> of Python, as far as it is used: \<open>Py_Text\<close> (numerals, \<open>strip\<close>, \<open>replace\<close>),
  \<open>Py_Uuid\<close> (\<open>uuid.UUID\<close> and \<open>str\<close>, with their round trip), \<open>Py_Json\<close> (\<open>json.dumps\<close> and \<open>json.loads\<close>, with
  their round trip), \<open>Py_Datetime\<close> (order, \<open>isoformat\<close> and \<open>fromisoformat\<close>).

  \<^bold>\<open>The components\<close>, bottom up, with the file under \<open>src/app/\<close> each models:

    \<^item> \<open>Ticket_Auth\<close>: \<open>websocket/auth_handshake.py\<close>. A ticket is redeemed at most once.
    \<^item> \<open>Rate_Limiter\<close>: \<open>core/rate_limiter.py\<close>. The script refines a counter of fixed windows
      (\<open>hits\<close>); how many calls pass in a span follows from the counter.
    \<^item> \<open>Idempotency\<close>: \<open>core/idempotency.py\<close>.
    \<^item> \<open>Lease\<close>: the contract of everything kept with a lifetime, as locales \<open>lease_store\<close> and
      \<open>lease\<close>; \<open>Instance_Registry\<close> (\<open>pubsub/instance_registry.py\<close>), \<open>Presence\<close>
      (\<open>presence/presence_store.py\<close>, \<open>presence_manager.py\<close>) and \<open>Idempotency\<close> provide it. Presence refines a
      machine (\<open>presence_step\<close>) of connects, updates, heartbeats and pauses.
    \<^item> \<open>Connection_Manager\<close>: \<open>websocket/connection_manager.py\<close>, with the invariant that ties the gauge to the
      dict.
    \<^item> \<open>Repository\<close>: \<open>db/connection.py\<close>, \<open>db/repository.py\<close>, statement by statement; the relation
      \<open>db_step\<close> that every step of any interleaving respects. \<open>Durable_Store\<close>: what its
      operations promise when each is used through a session.
    \<^item> \<open>Schemas\<close>: \<open>schemas/notifications.py\<close>, \<open>schemas/ws_messages.py\<close>; the pattern of
      notification types as a regular expression with derivatives, equal to a readable description.
    \<^item> \<open>Heartbeat\<close>: \<open>websocket/heartbeat.py\<close>; \<open>Message_Router\<close>: \<open>websocket/message_router.py\<close>;
      \<open>Live_Delivery\<close>: \<open>pubsub/publisher.py\<close>, \<open>pubsub/subscriber.py\<close> and \<open>deliver\<close> of \<open>main.py\<close>.
    \<^item> \<open>Notifications_Api\<close>: \<open>api/routes/notifications.py\<close>; \<open>Auth_Api\<close>: \<open>api/routes/auth.py\<close>;
      \<open>History_Api\<close>: \<open>api/routes/history.py\<close>; \<open>Ops_Api\<close>: \<open>api/routes/presence.py\<close>, \<open>health.py\<close> and
      \<open>metrics.py\<close>.
    \<^item> \<open>Platform\<close>: the services together; locale \<open>effects\<close> asks of an invariant only that the calls the program makes keep
      it, and shows that then every function of the program does. Its instances are the relations and invariants
      of this development: rows are kept (\<open>tables\<close>), Redis stays up (\<open>upkeep\<close>), the processes count their
      sockets (\<open>processes\<close>), what was sent stays sent (\<open>sent\<close>).
    \<^item> \<open>Gateway\<close>: \<open>websocket/gateway.py\<close> and \<open>_mark_read\<close> of \<open>main.py\<close>.
    \<^item> \<open>Log_Format\<close>: \<open>core/logging_config.py\<close>; \<open>Middleware\<close>: \<open>api/middleware.py\<close>, as \<open>create_app\<close> stacks it around a
      route.
    \<^item> \<open>Migrations\<close>: the revisions under \<open>alembic/versions/\<close>, how \<open>alembic/env.py\<close> runs them from the revision the
      database is at (the script it prints offline is Alembic's), and the tables that \<open>db/models.py\<close> declares. The tables of a migrated
      database are these and \<open>alembic_version\<close>.
    \<^item> \<open>Http_Routes\<close>: \<open>create_app\<close> of \<open>main.py\<close>, from a request whose parameters are read to its answer: the routes with
      their paths, the response models as JSON, the middleware, and the framework around them. Which requests are refused, and
      what is left as it was by a refusal or a \<open>GET\<close>.
    \<^item> \<open>Application\<close>: \<open>lifespan\<close> of \<open>main.py\<close> and \<open>application\<close>, the set of all tasks that may run in any
      number of processes: requests to \<open>create_app\<close>, connections, background tasks, and the lives of the processes.
    \<^item> \<open>Global_Invariants\<close>: three more instances of \<open>effects\<close>, with what they say of every state the application
      reaches: Redis holds what its readers can parse, the tables hold only rows of the kind requests are accepted for,
      and an id is marked only when its row is there. \<open>Exactly_Once\<close>: one
      more, in which a task comes to own the id whose row it was the one to commit, and so is the only one to
      publish it. \<open>Audit_Trail\<close>: one more, by which a receipt is for a row its session has marked. \<open>Guaranteed_Delivery\<close>:
      these invariants and the backlog put together.
    \<^item> \<open>Clients\<close>: \<open>scripts/simulate_notifications.py\<close>, \<open>scripts/ws_client_demo.py\<close>, and the locale \<open>deployment\<close>, a network
      behind which an instance serves \<open>create_app\<close>; \<open>Load_Tests\<close>: \<open>load_tests/fanout_benchmark.py\<close>,
      \<open>load_tests/ws_locustfile.py\<close>.

  \<^bold>\<open>What is shown.\<close> For one request or connection on its own: the functional behaviour on every branch
  (\<open>Notifications_Api\<close>, \<open>Gateway\<close>, \<open>Message_Router\<close>, \<open>History_Api\<close>, \<open>Auth_Api\<close>, \<open>Ops_Api\<close>), whatever
  fails where the statement does not ask for the services to be up. For all tasks together, in any interleaving and with any
  failures: \<open>application_keeps_notifications\<close>, \<open>seen_means_stored\<close>, \<open>published_once\<close>,
  \<open>store_stays_typed\<close>, \<open>sockets_counted\<close>, \<open>receipts_belong\<close>, \<open>stored_reaches_user\<close>, \<open>get_requests_change_nothing\<close>. From a client through the
  whole stack: \<open>bulk_sender_fills_the_window\<close>, \<open>load_test_tickets\<close>. For time: \<open>elapse\<close> lets it pass between the calls, and the lifetimes
  of tickets, windows, presence and registrations are stated in milliseconds. Some properties
  state behaviour nobody can want, with the circumstances in which it happens
  (\<open>websocket_reconnect_race\<close>, \<open>websocket_registration_leaks\<close>, \<open>history_pages_lose_ties\<close>,
  \<open>presence_key_confusion\<close>, \<open>noncanonical_user_not_found\<close>).

  \<^bold>\<open>Bounds and fuel.\<close> A loop of the code that goes on for ever is run for any number \<open>n\<close> of rounds and
  then cancelled. What a client sends and what Redis delivers are finite lists of any length. \<open>fetch_pages\<close>,
  which follows the cursors as a client does, has fuel; \<open>history_pages_complete\<close> shows that more
  fuel than there are notifications is enough. Integers are Python's; counters in Redis are
  64 bit and \<open>INCR\<close> fails beyond, hence the bounds below \<open>2 ^ 63\<close>. UUIDs are 128 bit words. A Python
  string is its code points up to U+00FF.

  \<^bold>\<open>Not modelled.\<close> The exposition format of the metrics, the configuration of FastAPI in \<open>create_app\<close> (titles and
  tags), how FastAPI reads parameters and bearer tokens, the engine and URL of the migrations (whose \<open>begin_transaction\<close> is that of PostgreSQL, where DDL is
  transactional), the command lines of the scripts, how Locust schedules its users. A send to a peer that is gone raises \<open>TransportError\<close>, never
  \<open>WebSocketDisconnect\<close>. A deadline of \<open>wait_for\<close> is a predicate on the state at each await. Time passes for the
  lifetimes in Redis and for \<open>time.time()\<close>, between the calls; \<open>datetime.now\<close> and the clock of the database stand still while
  a task runs. The attributes of a log record are those of Python 3.11. A
  cursor of the history is an instant in UTC. The latencies of the load tests are exact microseconds, where the
  programs compute in doubles; the indices of the percentiles are computed in doubles here as well.
\<close>

end
